(* ===== verification/Net_Addr.thy ===== *)
theory Net_Addr
  imports Prelude
begin

text \<open>
  Addresses and endpoints of the \<open>net\<close> crate (\<open>net/src/endpoint.rs\<close>,
  \<open>net/src/error.rs\<close>): IP and socket addresses of the standard library with its
  textual parser, \<open>Addr\<close>, \<open>Endpoint\<close>, its constructors, accessors and conversions.
  A \<open>Url\<close> of the external url crate is identified by its serialization; the accessors the
  code calls on it are the fields of \<open>url_api\<close>, passed as an argument.  The system resolver is an
  argument as well.
\<close>

section \<open>Addresses of the standard library\<close>

datatype ip_addr = V4 bytes | V6 bytes

datatype socket_addr =
    SockV4 bytes u16
  | SockV6 bytes u16 u32 u32

fun sa_ip :: "socket_addr \<Rightarrow> ip_addr" where
  "sa_ip (SockV4 o4 p) = V4 o4"
| "sa_ip (SockV6 o6 p fl sc) = V6 o6"

fun sa_port :: "socket_addr \<Rightarrow> u16" where
  "sa_port (SockV4 o4 p) = p"
| "sa_port (SockV6 o6 p fl sc) = p"

fun SocketAddr_new :: "ip_addr \<Rightarrow> u16 \<Rightarrow> socket_addr" where
  "SocketAddr_new (V4 o4) p = SockV4 o4 p"
| "SocketAddr_new (V6 o6) p = SockV6 o6 p 0 0"

fun ip_octets :: "ip_addr \<Rightarrow> bytes" where
  "ip_octets (V4 b) = b"
| "ip_octets (V6 b) = b"

fun ip_wf :: "ip_addr \<Rightarrow> bool" where
  "ip_wf (V4 b) = (length b = 4)"
| "ip_wf (V6 b) = (length b = 16)"

definition sa_wf :: "socket_addr \<Rightarrow> bool" where
  "sa_wf sa = ip_wf (sa_ip sa)"

text \<open>\<open>is_loopback\<close>: 127.0.0.0/8 or the IPv6 address one.\<close>

fun is_loopback :: "ip_addr \<Rightarrow> bool" where
  "is_loopback (V4 b) = (b ! 0 = 127)"
| "is_loopback (V6 b) = (b = replicate 15 0 @ [1])"

text \<open>\<open>is_unspecified\<close>: all octets are zero.\<close>

definition is_unspecified :: "ip_addr \<Rightarrow> bool" where
  "is_unspecified ip = list_all (\<lambda>b. b = 0) (ip_octets ip)"

section \<open>Strings\<close>

text \<open>A string of the source is a list of its bytes, written with the
  characters of the same code.\<close>

definition as_bytes :: "string \<Rightarrow> bytes" where
  "as_bytes s = map of_char s"

fun digit_char :: "nat \<Rightarrow> char" where
  "digit_char n = (if n < 10 then char_of (48 + n) else char_of (87 + n))"

fun show_nat :: "nat \<Rightarrow> string" where
  "show_nat n = (if n < 10 then [digit_char n] else show_nat (n div 10) @ [digit_char (n mod 10)])"

fun show_hex :: "nat \<Rightarrow> string" where
  "show_hex n = (if n < 16 then [digit_char n] else show_hex (n div 16) @ [digit_char (n mod 16)])"

declare show_nat.simps [simp del] show_hex.simps [simp del]

section \<open>Textual IP addresses\<close>

text \<open>The parser of \<open>core::net\<close>.  Each reader returns the value and the rest of the
  input, or \<^term>\<open>None\<close> with the input unconsumed.\<close>

definition to_digit :: "nat \<Rightarrow> char \<Rightarrow> nat option" where
  "to_digit radix c = (let n = (of_char c :: nat);
      d = (if 48 \<le> n \<and> n \<le> 57 then n - 48
           else if 97 \<le> n \<and> n \<le> 122 then n - 87
           else if 65 \<le> n \<and> n \<le> 90 then n - 55 else 99)
    in if d < radix then Some d else None)"

fun read_digits :: "nat \<Rightarrow> nat \<Rightarrow> nat \<Rightarrow> nat \<Rightarrow> nat \<Rightarrow> string \<Rightarrow> (nat \<times> nat \<times> string) option" where
  "read_digits radix maxd lim acc cnt [] = Some (acc, cnt, [])"
| "read_digits radix maxd lim acc cnt (c # s) = (case to_digit radix c of
      None \<Rightarrow> Some (acc, cnt, c # s)
    | Some d \<Rightarrow> (if lim \<le> acc * radix + d \<or> maxd < Suc cnt then None
        else read_digits radix maxd lim (acc * radix + d) (Suc cnt) s))"

definition read_number :: "nat \<Rightarrow> nat \<Rightarrow> bool \<Rightarrow> nat \<Rightarrow> string \<Rightarrow> (nat \<times> string) option" where
  "read_number radix maxd zero_prefix lim s = (case read_digits radix maxd lim 0 0 s of
      None \<Rightarrow> None
    | Some (v, cnt, rest) \<Rightarrow>
        if cnt = 0 then None
        else if \<not> zero_prefix \<and> hd s = CHR ''0'' \<and> 1 < cnt then None
        else Some (v, rest))"

definition read_given_char :: "char \<Rightarrow> string \<Rightarrow> string option" where
  "read_given_char c s = (case s of [] \<Rightarrow> None | d # r \<Rightarrow> if c = d then Some r else None)"

definition read_separator :: "char \<Rightarrow> nat \<Rightarrow> (string \<Rightarrow> ('a \<times> string) option) \<Rightarrow> string \<Rightarrow> ('a \<times> string) option" where
  "read_separator c i p s = (if 0 < i
     then (case read_given_char c s of None \<Rightarrow> None | Some r \<Rightarrow> p r) else p s)"

fun read_octets :: "nat \<Rightarrow> nat \<Rightarrow> string \<Rightarrow> (bytes \<times> string) option" where
  "read_octets i 0 s = Some ([], s)"
| "read_octets i (Suc k) s =
     (case read_separator (CHR ''.'') i (read_number 10 3 False 256) s of
        None \<Rightarrow> None
      | Some (v, r) \<Rightarrow> (case read_octets (Suc i) k r of
            None \<Rightarrow> None
          | Some (vs, r') \<Rightarrow> Some (of_nat v # vs, r')))"

definition read_ipv4_addr :: "string \<Rightarrow> (bytes \<times> string) option" where
  "read_ipv4_addr s = read_octets 0 4 s"

text \<open>\<open>read_groups\<close> fills at most \<open>k\<close> slots, starting at slot \<open>i\<close>; it returns
  the groups read, whether the last two came from a dotted quad, and the rest.\<close>

fun read_groups :: "nat \<Rightarrow> nat \<Rightarrow> string \<Rightarrow> u16 list \<times> bool \<times> string" where
  "read_groups i 0 s = ([], False, s)"
| "read_groups i (Suc k) s =
     (case (if 0 < k then read_separator (CHR '':'') i read_ipv4_addr s else None) of
        Some (q, r) \<Rightarrow>
          ([u16_from_be_bytes (q ! 0) (q ! 1), u16_from_be_bytes (q ! 2) (q ! 3)], True, r)
      | None \<Rightarrow> (case read_separator (CHR '':'') i (read_number 16 4 True 65536) s of
          None \<Rightarrow> ([], False, s)
        | Some (g, r) \<Rightarrow> (case read_groups (Suc i) k r of (gs, v4, r') \<Rightarrow> (of_nat g # gs, v4, r'))))"

definition read_ipv6_addr :: "string \<Rightarrow> (bytes \<times> string) option" where
  "read_ipv6_addr s = (case read_groups 0 8 s of (hd8, v4, r) \<Rightarrow>
     if length hd8 = 8 then Some (concat (map u16_to_be_bytes hd8), r)
     else if v4 then None
     else (case read_given_char (CHR '':'') r of None \<Rightarrow> None | Some r1 \<Rightarrow>
       (case read_given_char (CHR '':'') r1 of None \<Rightarrow> None | Some r2 \<Rightarrow>
         (case read_groups 0 (8 - (length hd8 + 1)) r2 of (tl7, _, r3) \<Rightarrow>
           Some (concat (map u16_to_be_bytes
                   (hd8 @ replicate (8 - length hd8 - length tl7) 0 @ tl7)), r3)))))"

definition parse_all :: "('a \<times> string) option \<Rightarrow> 'a option" where
  "parse_all r = (case r of Some (x, []) \<Rightarrow> Some x | _ \<Rightarrow> None)"

definition parse_ipv4 :: "string \<Rightarrow> bytes option" where
  "parse_ipv4 s = (if 15 < length s then None else parse_all (read_ipv4_addr s))"

definition parse_ipv6 :: "string \<Rightarrow> bytes option" where
  "parse_ipv6 s = parse_all (read_ipv6_addr s)"

definition parse_ip :: "string \<Rightarrow> ip_addr option" where
  "parse_ip s = parse_all (case read_ipv4_addr s of
       Some (b, r) \<Rightarrow> Some (V4 b, r)
     | None \<Rightarrow> (case read_ipv6_addr s of Some (b, r) \<Rightarrow> Some (V6 b, r) | None \<Rightarrow> None))"

text \<open>\<open>Display\<close> for \<open>IpAddr\<close> (core::net): dotted quad for IPv4, and for IPv6 the
  hexadecimal groups with the first longest run of at least two zero groups
  abbreviated.\<close>

fun join_with :: "string \<Rightarrow> string list \<Rightarrow> string" where
  "join_with sep [] = []"
| "join_with sep [x] = x"
| "join_with sep (x # y # xs) = x @ sep @ join_with sep (y # xs)"

definition show_ipv4 :: "bytes \<Rightarrow> string" where
  "show_ipv4 b = join_with ''.'' (map (\<lambda>x. show_nat (unat x)) b)"

fun segments :: "bytes \<Rightarrow> nat list" where
  "segments (a # b # r) = (256 * unat a + unat b) # segments r"
| "segments _ = []"

fun zero_span :: "nat list \<Rightarrow> nat \<Rightarrow> nat \<times> nat \<Rightarrow> nat \<times> nat \<Rightarrow> nat \<times> nat" where
  "zero_span [] i cur longest = longest"
| "zero_span (s # ss) i cur longest =
     (if s = 0 then
        (let c = (if snd cur = 0 then (i, 1) else (fst cur, Suc (snd cur)))
         in zero_span ss (Suc i) c (if snd c > snd longest then c else longest))
      else zero_span ss (Suc i) (0, 0) longest)"

definition show_ipv6 :: "bytes \<Rightarrow> string" where
  "show_ipv6 b =
     (if take 12 b = replicate 10 0 @ [0xFF, 0xFF] then ''::ffff:'' @ show_ipv4 (drop 12 b)
      else let ss = segments b; z = zero_span ss 0 (0, 0) (0, 0); sub = \<lambda>l. join_with '':'' (map show_hex l)
        in if snd z > 1 then sub (take (fst z) ss) @ ''::'' @ sub (drop (fst z + snd z) ss) else sub ss)"

fun show_ip :: "ip_addr \<Rightarrow> string" where
  "show_ip (V4 b) = show_ipv4 b"
| "show_ip (V6 b) = show_ipv6 b"

section \<open>Errors\<close>

datatype io_kind = ConnectionAborted | UnexpectedEof | InvalidInput | InvalidData | Other | OtherKind nat

datatype io_error = IoKind io_kind | IoMsg io_kind string

datatype core_error =
    CoreIO io_error
  | TryInto string
  | CoreTimeout
  | Ed25519 string
  | TokioJoinError string
  | TokioAcquireError string

datatype net_error =
    IO io_error
  | TryFromEndpoint
  | UnsupportedEndpoint string
  | ParseEndpoint string
  | BufferFull string
  | MissingConfig string
  | Socks5 string
  | TlsConfig string
  | QuicConfigError string
  | ConnectionClosed
  | WsError string
  | InvalidDnsNameError string
  | QuicConnection string
  | QuicConnect string
  | BincodeDecode string
  | BincodeEncode string
  | KaryonCore core_error

section \<open>Endpoints\<close>

type_synonym url = string

text \<open>The methods of the external \<open>Url\<close> type that the code calls.\<close>

record url_api =
  url_parse :: "string \<Rightarrow> string + url"
  url_scheme :: "url \<Rightarrow> string"
  url_host_str :: "url \<Rightarrow> string option"
  url_port :: "url \<Rightarrow> u16 option"
  url_port_or_known_default :: "url \<Rightarrow> u16 option"
  url_path :: "url \<Rightarrow> string"

datatype addr = Ip ip_addr | Domain string

datatype endpoint =
    Udp addr u16
  | Tcp addr u16
  | Tls addr u16
  | Quic addr u16
  | Http url
  | Https url
  | Ws url
  | Wss url
  | Unix string

definition new_tcp_addr :: "socket_addr \<Rightarrow> endpoint" where
  "new_tcp_addr a = Tcp (Ip (sa_ip a)) (sa_port a)"

definition new_udp_addr :: "socket_addr \<Rightarrow> endpoint" where
  "new_udp_addr a = Udp (Ip (sa_ip a)) (sa_port a)"

definition new_tls_addr :: "socket_addr \<Rightarrow> endpoint" where
  "new_tls_addr a = Tls (Ip (sa_ip a)) (sa_port a)"

definition new_quic_addr :: "socket_addr \<Rightarrow> endpoint" where
  "new_quic_addr a = Quic (Ip (sa_ip a)) (sa_port a)"

definition new_unix_addr :: "string \<Rightarrow> endpoint" where
  "new_unix_addr p = Unix p"

definition is_tcp :: "endpoint \<Rightarrow> bool" where
  "is_tcp e = (case e of Tcp _ _ \<Rightarrow> True | _ \<Rightarrow> False)"

definition is_tls :: "endpoint \<Rightarrow> bool" where
  "is_tls e = (case e of Tls _ _ \<Rightarrow> True | _ \<Rightarrow> False)"

definition is_quic :: "endpoint \<Rightarrow> bool" where
  "is_quic e = (case e of Quic _ _ \<Rightarrow> True | _ \<Rightarrow> False)"

definition is_udp :: "endpoint \<Rightarrow> bool" where
  "is_udp e = (case e of Udp _ _ \<Rightarrow> True | _ \<Rightarrow> False)"

definition is_ws :: "endpoint \<Rightarrow> bool" where
  "is_ws e = (case e of Ws _ \<Rightarrow> True | _ \<Rightarrow> False)"

definition is_wss :: "endpoint \<Rightarrow> bool" where
  "is_wss e = (case e of Wss _ \<Rightarrow> True | _ \<Rightarrow> False)"

definition is_http :: "endpoint \<Rightarrow> bool" where
  "is_http e = (case e of Http _ \<Rightarrow> True | _ \<Rightarrow> False)"

definition is_https :: "endpoint \<Rightarrow> bool" where
  "is_https e = (case e of Https _ \<Rightarrow> True | _ \<Rightarrow> False)"

definition is_unix :: "endpoint \<Rightarrow> bool" where
  "is_unix e = (case e of Unix _ \<Rightarrow> True | _ \<Rightarrow> False)"

fun endpoint_port :: "url_api \<Rightarrow> endpoint \<Rightarrow> net_error + u16" where
  "endpoint_port U (Tcp _ p) = Inr p"
| "endpoint_port U (Udp _ p) = Inr p"
| "endpoint_port U (Tls _ p) = Inr p"
| "endpoint_port U (Quic _ p) = Inr p"
| "endpoint_port U (Http u) = ok_or (ParseEndpoint (''port missing: '' @ u)) (url_port_or_known_default U u)"
| "endpoint_port U (Https u) = ok_or (ParseEndpoint (''port missing: '' @ u)) (url_port_or_known_default U u)"
| "endpoint_port U (Ws u) = ok_or (ParseEndpoint (''port missing: '' @ u)) (url_port_or_known_default U u)"
| "endpoint_port U (Wss u) = ok_or (ParseEndpoint (''port missing: '' @ u)) (url_port_or_known_default U u)"
| "endpoint_port U (Unix _) = Inl TryFromEndpoint"

definition url_to_addr :: "url_api \<Rightarrow> url \<Rightarrow> net_error + addr" where
  "url_to_addr U u =
     res_bind (ok_or (ParseEndpoint (''host missing: '' @ u)) (url_host_str U u)) (\<lambda>host.
       case parse_ip host of Some ip \<Rightarrow> Inr (Ip ip) | None \<Rightarrow> Inr (Domain host))"

fun endpoint_addr :: "url_api \<Rightarrow> endpoint \<Rightarrow> net_error + addr" where
  "endpoint_addr U (Tcp a _) = Inr a"
| "endpoint_addr U (Udp a _) = Inr a"
| "endpoint_addr U (Tls a _) = Inr a"
| "endpoint_addr U (Quic a _) = Inr a"
| "endpoint_addr U (Http u) = url_to_addr U u"
| "endpoint_addr U (Https u) = url_to_addr U u"
| "endpoint_addr U (Ws u) = url_to_addr U u"
| "endpoint_addr U (Wss u) = url_to_addr U u"
| "endpoint_addr U (Unix _) = Inl TryFromEndpoint"

fun addr_display :: "addr \<Rightarrow> string" where
  "addr_display (Ip ip) = show_ip ip"
| "addr_display (Domain d) = d"

text \<open>A path is kept as the text \<open>to_string_lossy\<close> gives, so that the \<open>unix\<close> form
  prints it unchanged.\<close>

fun endpoint_display :: "endpoint \<Rightarrow> string" where
  "endpoint_display (Udp a p) = ''udp://'' @ addr_display a @ '':'' @ show_nat (unat p)"
| "endpoint_display (Tcp a p) = ''tcp://'' @ addr_display a @ '':'' @ show_nat (unat p)"
| "endpoint_display (Tls a p) = ''tls://'' @ addr_display a @ '':'' @ show_nat (unat p)"
| "endpoint_display (Quic a p) = ''quic://'' @ addr_display a @ '':'' @ show_nat (unat p)"
| "endpoint_display (Http u) = u"
| "endpoint_display (Https u) = u"
| "endpoint_display (Ws u) = u"
| "endpoint_display (Wss u) = u"
| "endpoint_display (Unix p) = ''unix:/'' @ p"

definition url_try_from :: "url_api \<Rightarrow> endpoint \<Rightarrow> net_error + url" where
  "url_try_from U e = (case e of Http u \<Rightarrow> Inr u | Https u \<Rightarrow> Inr u | Ws u \<Rightarrow> Inr u | Wss u \<Rightarrow> Inr u
     | _ \<Rightarrow> map_err ParseEndpoint (url_parse U (endpoint_display e)))"

text \<open>\<open>resolve\<close> and the conversion to a socket address; \<open>dns\<close> is the
  system resolver behind \<open>to_socket_addrs\<close>.\<close>

definition resolve :: "(string \<Rightarrow> u16 \<Rightarrow> io_error + socket_addr list) \<Rightarrow> addr \<Rightarrow> u16 \<Rightarrow> net_error + socket_addr" where
  "resolve dns a p = (case a of
      Ip ip \<Rightarrow> Inr (SocketAddr_new ip p)
    | Domain d \<Rightarrow> res_bind (map_err IO (dns d p)) (\<lambda>l.
        case l of [] \<Rightarrow> Inl (ParseEndpoint (''could not resolve '' @ d @ '':'' @ show_nat (unat p)))
                | x # _ \<Rightarrow> Inr x))"

definition socket_addr_try_from ::
  "url_api \<Rightarrow> (string \<Rightarrow> u16 \<Rightarrow> io_error + socket_addr list) \<Rightarrow> endpoint \<Rightarrow> net_error + socket_addr" where
  "socket_addr_try_from U dns e = (case e of
      Udp a p \<Rightarrow> resolve dns a p
    | Tcp a p \<Rightarrow> resolve dns a p
    | Tls a p \<Rightarrow> resolve dns a p
    | Quic a p \<Rightarrow> resolve dns a p
    | Unix _ \<Rightarrow> Inl TryFromEndpoint
    | _ \<Rightarrow> res_bind (endpoint_addr U e) (\<lambda>a. res_bind (endpoint_port U e) (\<lambda>p. resolve dns a p)))"

text \<open>\<open>lookup\<close> is what \<open>timeout (lookup_host \<dots>)\<close> gives: the timeout of
  \<open>karyon_core\<close>, an I/O error, or the addresses.\<close>

definition resolve_endpoint ::
  "url_api \<Rightarrow> (string \<Rightarrow> u16 \<Rightarrow> core_error + (io_error + socket_addr list)) \<Rightarrow> endpoint \<Rightarrow> net_error + socket_addr" where
  "resolve_endpoint U lookup e =
     res_bind (endpoint_port U e) (\<lambda>port.
     res_bind (endpoint_addr U e) (\<lambda>a. case a of
        Ip ip \<Rightarrow> Inr (SocketAddr_new ip port)
      | Domain d \<Rightarrow>
          res_bind (map_err KaryonCore (lookup d port)) (\<lambda>r.
          res_bind (map_err IO r) (\<lambda>l.
            case l of [] \<Rightarrow> Inl (ParseEndpoint (''could not resolve '' @ d @ '':'' @ show_nat (unat port)))
                    | x # _ \<Rightarrow> Inr x))))"

definition path_try_from :: "endpoint \<Rightarrow> net_error + string" where
  "path_try_from e = (case e of Unix p \<Rightarrow> Inr p | _ \<Rightarrow> Inl TryFromEndpoint)"

definition endpoint_try_from_url :: "url_api \<Rightarrow> url \<Rightarrow> net_error + endpoint" where
  "endpoint_try_from_url U u = (let sch = url_scheme U u in
     if sch = ''http'' then Inr (Http u)
     else if sch = ''https'' then Inr (Https u)
     else if sch = ''ws'' then Inr (Ws u)
     else if sch = ''wss'' then Inr (Wss u)
     else if sch \<in> {''tcp'', ''udp'', ''tls'', ''quic''} then
       res_bind (url_to_addr U u) (\<lambda>a.
       res_bind (ok_or (ParseEndpoint (''port missing: '' @ u)) (url_port U u)) (\<lambda>p.
         Inr (if sch = ''tcp'' then Tcp a p else if sch = ''udp'' then Udp a p
              else if sch = ''tls'' then Tls a p else Quic a p)))
     else if sch = ''unix'' then
       (if url_path U u = [] then Inl (UnsupportedEndpoint u) else Inr (Unix (url_path U u)))
     else Inl (UnsupportedEndpoint u))"

definition endpoint_from_str :: "url_api \<Rightarrow> string \<Rightarrow> net_error + endpoint" where
  "endpoint_from_str U s = res_bind (map_err ParseEndpoint (url_parse U s)) (endpoint_try_from_url U)"

definition ip_try_from_addr :: "addr \<Rightarrow> io_error + ip_addr" where
  "ip_try_from_addr a = (case a of Ip ip \<Rightarrow> Inr ip
     | Domain _ \<Rightarrow> Inl (IoMsg InvalidInput (''Addr::Domain cannot be converted to IpAddr without a port; ''
         @ ''use SocketAddr::try_from(Endpoint) instead'')))"

section \<open>Lemmas\<close>

lemma sa_new_ip [simp]: "sa_ip (SocketAddr_new ip p) = ip"
  by (cases ip) auto

lemma sa_new_port [simp]: "sa_port (SocketAddr_new ip p) = p"
  by (cases ip) auto

lemma sa_wf_new [simp]: "sa_wf (SocketAddr_new ip p) = ip_wf ip"
  by (simp add: sa_wf_def)

lemma length_as_bytes [simp]: "length (as_bytes s) = length s"
  by (simp add: as_bytes_def)

lemma read_octets_length: "read_octets i k s = Some (b, r) \<Longrightarrow> length b = k"
  by (induction i k s arbitrary: b r rule: read_octets.induct) (auto split: option.splits)

lemma read_groups_length: "read_groups i k s = (g, v, r) \<Longrightarrow> length g \<le> k"
  by (induction i k s arbitrary: g v r rule: read_groups.induct)
    (fastforce split: option.splits prod.splits if_splits)+

lemma concat_u16_length: "length (concat (map u16_to_be_bytes gs)) = 2 * length gs"
  by (induction gs) auto

lemma concat_replicate_length: "length (concat (replicate n xs)) = n * length xs"
  by (induction n) auto

lemma read_ipv6_length: "read_ipv6_addr s = Some (b, r) \<Longrightarrow> length b = 16"
  by (auto simp: read_ipv6_addr_def concat_u16_length concat_replicate_length dest!: read_groups_length
      split: prod.splits option.splits if_splits)

text \<open>Every address that the parser returns has the right number of octets.\<close>

lemma parse_ip_wf: "parse_ip s = Some ip \<Longrightarrow> ip_wf ip"
  by (auto simp: parse_ip_def parse_all_def read_ipv4_addr_def
      dest: read_octets_length read_ipv6_length
      split: option.splits list.splits prod.splits)

section \<open>Printed addresses\<close>

lemma to_digit_digit_char [simp]: "d < 10 \<Longrightarrow> to_digit 10 (digit_char d) = Some d"
  by (simp add: to_digit_def)

lemma digit_char_zero [simp]: "d < 10 \<Longrightarrow> digit_char d = CHR ''0'' \<longleftrightarrow> d = 0"
proof -
  assume d: "d < 10"
  have "digit_char d = CHR ''0'' \<longleftrightarrow> (of_char (digit_char d) :: nat) = of_char (CHR ''0'')"
    by (metis of_char_eq_iff)
  thus ?thesis using d by simp
qed

definition no_digit :: "string \<Rightarrow> bool" where
  "no_digit s \<longleftrightarrow> (case s of [] \<Rightarrow> True | c # _ \<Rightarrow> to_digit 10 c = None)"

lemma read_digits_stop: "no_digit s \<Longrightarrow> read_digits 10 m l a c s = Some (a, c, s)"
  by (cases s) (auto simp: no_digit_def)

lemma read_octet:
  assumes n: "n < 256" and s: "no_digit s"
  shows "read_number 10 3 False 256 (show_nat n @ s) = Some (n, s)"
proof -
  consider "n < 10" | "10 \<le> n" "n < 100" | "100 \<le> n" by linarith
  thus ?thesis
  proof cases
    case 1
    thus ?thesis
      by (simp del: digit_char.simps add: read_number_def show_nat.simps [of n] read_digits_stop [OF s])
  next
    case 2
    hence d: "n div 10 < 10" "n div 10 * 10 + n mod 10 = n" "n div 10 \<noteq> 0" by auto
    have e: "show_nat n = [digit_char (n div 10), digit_char (n mod 10)]"
      using 2 d by (simp add: show_nat.simps [of n] show_nat.simps [of "n div 10"])
    show ?thesis using d n
      by (simp del: digit_char.simps add: read_number_def e read_digits_stop [OF s])
  next
    case 3
    hence d: "n div 10 div 10 < 10" "n div 10 mod 10 < 10" "n div 10 div 10 \<noteq> 0" "\<not> n div 10 < 10"
      "(n div 10 div 10 * 10 + n div 10 mod 10) = n div 10" "n div 10 * 10 + n mod 10 = n" "n div 10 < 256" using n by auto
    have e: "show_nat n = [digit_char (n div 10 div 10), digit_char (n div 10 mod 10), digit_char (n mod 10)]"
      using 3 d(1,4) by (simp add: show_nat.simps [of n] show_nat.simps [of "n div 10"] show_nat.simps [of "n div 10 div 10"]
         del: div_mult2_eq digit_char.simps)
    show ?thesis unfolding read_number_def e using d n
      by (simp del: digit_char.simps div_mult2_eq add: read_digits_stop [OF s])
  qed
qed

fun show_octets :: "bytes \<Rightarrow> string" where
  "show_octets [] = []"
| "show_octets (b # bs) = CHR ''.'' # show_nat (unat b) @ show_octets bs"

lemma no_digit_octets: "no_digit s \<Longrightarrow> no_digit (show_octets bs @ s)"
  by (cases bs) (auto simp: no_digit_def to_digit_def)

lemma u8_lt: "unat (b :: u8) < 256"
  using unsigned_less [of b] by simp

lemma read_octets_show:
  "0 < i \<Longrightarrow> no_digit s \<Longrightarrow> read_octets i (length bs) (show_octets bs @ s) = Some (bs, s)"
  by (induction bs arbitrary: i)
     (auto simp: read_separator_def read_given_char_def read_octet u8_lt no_digit_octets)

lemma show_ipv4_Cons: "show_ipv4 (b # bs) = show_nat (unat b) @ show_octets bs"
  by (induction bs arbitrary: b) (auto simp: show_ipv4_def)

text \<open>Printing an IPv4 address and parsing it gives the address back.\<close>

lemma parse_show_ipv4:
  assumes "length b = 4"
  shows "parse_ip (show_ipv4 b) = Some (V4 b)"
proof -
  obtain x xs where b: "b = x # xs" and l: "length xs = 3" using assms by (cases b) auto
  have "read_octets 1 (length xs) (show_octets xs @ []) = Some (xs, [])"
    by (rule read_octets_show) (auto simp: no_digit_def)
  moreover have "read_number 10 3 False 256 (show_nat (unat x) @ show_octets xs) = Some (unat x, show_octets xs)"
    using read_octet [OF u8_lt no_digit_octets [of "[]"]] by (simp add: no_digit_def)
  ultimately have "read_octets 0 4 (show_ipv4 b) = Some (b, [])"
    using read_octets.simps(2) [of 0 3] l by (simp add: b show_ipv4_Cons read_separator_def numeral_eq_Suc)
  thus ?thesis by (simp add: parse_ip_def read_ipv4_addr_def parse_all_def)
qed

text \<open>What the \<open>url\<close> crate documents of a URL without path \<open>scheme://host:port\<close>
  whose scheme has no default port: it parses, and the accessors give the parts back.\<close>

definition url_law :: "url_api \<Rightarrow> string \<Rightarrow> string \<Rightarrow> u16 \<Rightarrow> bool" where
  "url_law U sch host port \<longleftrightarrow>
     (\<exists>u. url_parse U (sch @ ''://'' @ host @ '':'' @ show_nat (unat port)) = Inr u
        \<and> url_scheme U u = sch \<and> url_host_str U u = Some host \<and> url_port U u = Some port)"

fun endpoint_scheme :: "endpoint \<Rightarrow> string" where
  "endpoint_scheme (Udp _ _) = ''udp''"
| "endpoint_scheme (Tcp _ _) = ''tcp''"
| "endpoint_scheme (Tls _ _) = ''tls''"
| "endpoint_scheme (Quic _ _) = ''quic''"
| "endpoint_scheme _ = []"

fun addr_printable :: "addr \<Rightarrow> bool" where
  "addr_printable (Ip (V4 b)) = (length b = 4)"
| "addr_printable (Ip (V6 b)) = False"
| "addr_printable (Domain d) = (parse_ip d = None)"

lemma url_to_addr_display:
  "addr_printable a \<Longrightarrow> url_host_str U u = Some (addr_display a) \<Longrightarrow> url_to_addr U u = Inr a"
  by (cases a rule: addr_printable.cases) (auto simp: url_to_addr_def parse_show_ipv4 ok_or_def split: option.splits)

section \<open>Properties\<close>

text \<open>C36. An endpoint prints to a string that parses back to it: for every
  \<open>udp\<close>, \<open>tcp\<close>, \<open>tls\<close> and \<open>quic\<close> endpoint on an IPv4 address or on a domain that is not
  itself an address, \<open>from_str\<close> inverts \<open>Display\<close>, provided the URL library parses
  \<open>scheme://host:port\<close> as documented.\<close>

theorem endpoint_display_roundtrip:
  assumes "e \<in> {Udp a p, Tcp a p, Tls a p, Quic a p}"
    and "addr_printable a"
    and "url_law U (endpoint_scheme e) (addr_display a) p"
  shows "endpoint_from_str U (endpoint_display e) = Inr e"
  using assms
  by (auto simp: endpoint_from_str_def endpoint_try_from_url_def url_law_def map_err_def ok_or_def
        url_to_addr_display Let_def)

definition example_url :: url_api where
  "example_url = \<lparr>url_parse = (\<lambda>s. Inr s), url_scheme = takeWhile (\<lambda>c. c \<noteq> CHR '':''),
     url_host_str = (\<lambda>_. Some ''10.0.0.7''), url_port = (\<lambda>_. Some 80),
     url_port_or_known_default = (\<lambda>_. Some 80), url_path = (\<lambda>_. [])\<rparr>"

theorem endpoint_display_roundtrip_witness:
  "endpoint_from_str example_url (endpoint_display (Tcp (Ip (V4 [10, 0, 0, 7])) 80)) = Inr (Tcp (Ip (V4 [10, 0, 0, 7])) 80)
   \<and> endpoint_display (Tcp (Ip (V4 [10, 0, 0, 7])) 80) = ''tcp://10.0.0.7:80''"
proof
  have "addr_display (Ip (V4 [10, 0, 0, 7])) = ''10.0.0.7''" by code_simp
  moreover have "takeWhile (\<lambda>c. c \<noteq> CHR '':'') (''tcp'' @ ''://'' @ s) = ''tcp''" for s by simp
  ultimately show "endpoint_from_str example_url (endpoint_display (Tcp (Ip (V4 [10, 0, 0, 7])) 80))
      = Inr (Tcp (Ip (V4 [10, 0, 0, 7])) 80)"
    by (intro endpoint_display_roundtrip [where a = "Ip (V4 [10, 0, 0, 7])" and p = 80])
       (auto simp: url_law_def example_url_def)
  show "endpoint_display (Tcp (Ip (V4 [10, 0, 0, 7])) 80) = ''tcp://10.0.0.7:80''" by code_simp
qed

end
