(* ===== verification/Net_Codec.thy ===== *)
theory Net_Codec
  imports Net_Addr
begin

text \<open>
  Buffers, codecs and framed connections of the \<open>net\<close> crate
  (\<open>net/src/buffer.rs\<close>, \<open>net/src/codec/\<close>, \<open>net/src/framed.rs\<close>).  The \<open>Codec\<close> trait is the locale
  \<open>framed_codec\<close>: its laws say what a self-delimiting codec promises, and the
  reader and the writer of a framed connection are verified once against it.
  The transport is a list of results of \<open>read\<close> or \<open>write\<close> calls; the binary
  codec for the length prefix is an argument.
\<close>

section \<open>Buffer\<close>

type_synonym buffer = bytes

definition buffer_new :: buffer where
  "buffer_new = []"

definition buffer_extend :: "buffer \<Rightarrow> bytes \<Rightarrow> buffer" where
  "buffer_extend b bs = b @ bs"

definition buffer_from_slice :: "bytes \<Rightarrow> buffer" where
  "buffer_from_slice bs = buffer_extend buffer_new bs"

definition buffer_resize :: "nat \<Rightarrow> buffer \<Rightarrow> buffer" where
  "buffer_resize n b = take n b @ replicate (n - length b) 0"

text \<open>\<open>advance\<close> panics when asked to drop more than the buffer holds.\<close>

definition buffer_advance :: "nat \<Rightarrow> buffer \<Rightarrow> buffer option" where
  "buffer_advance n b = (if n \<le> length b then Some (drop n b) else None)"

section \<open>Codecs\<close>

definition MAX_BUFFER_SIZE :: nat where
  "MAX_BUFFER_SIZE = 4 * 1024 * 1024"

definition MSG_LENGTH_SIZE :: nat where
  "MSG_LENGTH_SIZE = 4"

definition bytes_encode :: "nat \<Rightarrow> bytes \<Rightarrow> buffer \<Rightarrow> net_error + nat \<times> buffer" where
  "bytes_encode max_size src dst =
     (if max_size < length src
      then Inl (BufferFull (''Buffer size '' @ show_nat (length src) @ '' exceeds maximum '' @ show_nat max_size))
      else Inr (length src, buffer_extend dst src))"

definition bytes_decode :: "nat \<Rightarrow> buffer \<Rightarrow> net_error + (nat \<times> bytes) option" where
  "bytes_decode max_size src =
     (if max_size < length src
      then Inl (BufferFull (''Buffer size '' @ show_nat (length src) @ '' exceeds maximum '' @ show_nat max_size))
      else if src = [] then Inr None else Inr (Some (length src, src)))"

definition length_encode ::
  "(u32 \<Rightarrow> string + bytes) \<Rightarrow> nat \<Rightarrow> bytes \<Rightarrow> buffer \<Rightarrow> net_error + nat \<times> buffer" where
  "length_encode enc32 max_size src dst =
     (if max_size < length src
      then Inl (BufferFull (''Buffer size '' @ show_nat (length src) @ '' exceeds maximum '' @ show_nat max_size))
      else res_bind (map_err BincodeEncode (enc32 (of_nat (length src)))) (\<lambda>length_buf.
        let dst' = buffer_extend (buffer_extend dst length_buf) src
        in Inr (length dst', dst')))"

definition length_decode ::
  "(bytes \<Rightarrow> string + u32) \<Rightarrow> nat \<Rightarrow> buffer \<Rightarrow> net_error + (nat \<times> bytes) option" where
  "length_decode dec32 max_size src =
     (if length src < MSG_LENGTH_SIZE then Inr None
      else res_bind (map_err BincodeDecode (dec32 (take MSG_LENGTH_SIZE src))) (\<lambda>len32.
        let len = unat len32 in
        if max_size < len
        then Inl (BufferFull (''Frame length '' @ show_nat len @ '' exceeds maximum '' @ show_nat max_size))
        else if len \<le> length src - MSG_LENGTH_SIZE
        then Inr (Some (len + MSG_LENGTH_SIZE, take len (drop MSG_LENGTH_SIZE src)))
        else Inr None))"

section \<open>Framed connections\<close>

text \<open>Results of \<open>read\<close> on the read half (an empty chunk is the end of the
  stream), and what the write half accepts on each \<open>write\<close>.\<close>

datatype read_ev = ReadOk bytes | ReadErr io_error

datatype write_ev = WriteAccept nat | WriteErr io_error

datatype 'm recv_out = Got 'm | RecvErr net_error | RecvPending | RecvPanic

datatype send_out = Sent | SendErr net_error | SendPending | SendPanic

definition decode_buffered ::
  "(buffer \<Rightarrow> 'e + (nat \<times> 'm) option) \<Rightarrow> ('e \<Rightarrow> net_error) \<Rightarrow> buffer \<Rightarrow> ('m recv_out \<times> buffer) option" where
  "decode_buffered dec into buf = (case dec buf of
      Inl e \<Rightarrow> Some (RecvErr (into e), buf)
    | Inr None \<Rightarrow> None
    | Inr (Some (n, item)) \<Rightarrow> (case buffer_advance n buf of
          None \<Rightarrow> Some (RecvPanic, buf)
        | Some buf' \<Rightarrow> Some (Got item, buf')))"

fun recv_loop ::
  "(buffer \<Rightarrow> 'e + (nat \<times> 'm) option) \<Rightarrow> ('e \<Rightarrow> net_error) \<Rightarrow> read_ev list \<Rightarrow> buffer
     \<Rightarrow> 'm recv_out \<times> buffer \<times> read_ev list" where
  "recv_loop dec into [] buf = (RecvPending, buf, [])"
| "recv_loop dec into (ReadErr e # rs) buf = (RecvErr (IO e), buf, rs)"
| "recv_loop dec into (ReadOk bs # rs) buf =
     (if bs = [] then
        (RecvErr (IO (if buf = [] then IoKind ConnectionAborted
                      else IoMsg UnexpectedEof ''bytes remaining in buffer'')), buf, rs)
      else (let buf' = buffer_extend buf bs in
        case decode_buffered dec into buf' of
          Some (r, b) \<Rightarrow> (r, b, rs)
        | None \<Rightarrow> recv_loop dec into rs buf'))"

definition recv_msg ::
  "(buffer \<Rightarrow> 'e + (nat \<times> 'm) option) \<Rightarrow> ('e \<Rightarrow> net_error) \<Rightarrow> read_ev list \<Rightarrow> buffer
     \<Rightarrow> 'm recv_out \<times> buffer \<times> read_ev list" where
  "recv_msg dec into rs buf = (case decode_buffered dec into buf of
      Some (r, b) \<Rightarrow> (r, b, rs)
    | None \<Rightarrow> recv_loop dec into rs buf)"

fun write_loop :: "io_error option \<Rightarrow> write_ev list \<Rightarrow> buffer \<Rightarrow> bytes \<Rightarrow> send_out \<times> buffer \<times> bytes \<times> write_ev list" where
  "write_loop fl ws [] out = (case fl of None \<Rightarrow> (Sent, [], out, ws) | Some e \<Rightarrow> (SendErr (IO e), [], out, ws))"
| "write_loop fl [] (b # buf) out = (SendPending, b # buf, out, [])"
| "write_loop fl (WriteErr e # ws) (b # buf) out = (SendErr (IO e), b # buf, out, ws)"
| "write_loop fl (WriteAccept k # ws) (b # buf) out = (let n = min k (length (b # buf)) in
     if n = 0 then (SendErr (IO (IoKind UnexpectedEof)), b # buf, out, ws)
     else (case buffer_advance n (b # buf) of
         None \<Rightarrow> (SendPanic, b # buf, out, ws)
       | Some buf' \<Rightarrow> write_loop fl ws buf' (out @ take n (b # buf))))"

text \<open>\<open>send_msg\<close> returns the outcome, the write buffer, the bytes the transport
  has taken so far and the unused write events; \<open>fl\<close> is the error of \<open>flush\<close>, if any.\<close>

definition send_msg ::
  "('m \<Rightarrow> buffer \<Rightarrow> 'e + nat \<times> buffer) \<Rightarrow> ('e \<Rightarrow> net_error) \<Rightarrow> io_error option \<Rightarrow> 'm \<Rightarrow> write_ev list \<Rightarrow> buffer \<Rightarrow> bytes
     \<Rightarrow> send_out \<times> buffer \<times> bytes \<times> write_ev list" where
  "send_msg enc into fl m ws buf out = (case enc m buf of
      Inl e \<Rightarrow> (SendErr (into e), buf, out, ws)
    | Inr (_, buf') \<Rightarrow> write_loop fl ws buf' out)"

text \<open>Repeated use of one reader or writer: \<open>recv_many n\<close> is \<open>n\<close> calls of
  \<open>recv_msg\<close>, \<open>send_many\<close> sends a list of messages with the given events for each.\<close>

fun recv_many ::
  "(buffer \<Rightarrow> 'e + (nat \<times> 'm) option) \<Rightarrow> ('e \<Rightarrow> net_error) \<Rightarrow> nat \<Rightarrow> read_ev list \<Rightarrow> buffer
     \<Rightarrow> 'm recv_out list \<times> buffer \<times> read_ev list" where
  "recv_many dec into 0 rs buf = ([], buf, rs)"
| "recv_many dec into (Suc n) rs buf = (case recv_msg dec into rs buf of (r, buf', rs') \<Rightarrow>
     (case recv_many dec into n rs' buf' of (q, b, e) \<Rightarrow> (r # q, b, e)))"

fun send_many ::
  "('m \<Rightarrow> buffer \<Rightarrow> 'e + nat \<times> buffer) \<Rightarrow> ('e \<Rightarrow> net_error) \<Rightarrow> ('m \<times> write_ev list) list \<Rightarrow> buffer \<Rightarrow> bytes
     \<Rightarrow> send_out list \<times> buffer \<times> bytes" where
  "send_many enc into [] buf out = ([], buf, out)"
| "send_many enc into ((m, ws) # mws) buf out =
     (case send_msg enc into None m ws buf out of (r, buf', out', _) \<Rightarrow>
       (case send_many enc into mws buf' out' of (q, b, e) \<Rightarrow> (r # q, b, e)))"

fun accepts :: "write_ev \<Rightarrow> bool" where
  "accepts (WriteAccept k) = (0 < k)"
| "accepts (WriteErr e) = False"

section \<open>The codec contract\<close>

locale framed_codec =
  fixes enc :: "'m \<Rightarrow> buffer \<Rightarrow> 'e + nat \<times> buffer"
    and dec :: "buffer \<Rightarrow> 'e + (nat \<times> 'm) option"
    and ok :: "'m \<Rightarrow> bool"
    and frame :: "'m \<Rightarrow> bytes"
    and seen :: "'m \<Rightarrow> 'm"
  assumes enc_frame: "ok m \<Longrightarrow> \<exists>n. enc m dst = Inr (n, dst @ frame m)"
    and dec_frame: "ok m \<Longrightarrow> dec (frame m @ rest) = Inr (Some (length (frame m), seen m))"
    and dec_partial: "ok m \<Longrightarrow> k < length (frame m) \<Longrightarrow> dec (take k (frame m)) = Inr None"
begin

lemma decode_split:
  assumes "ok m" "buf @ rest = frame m @ tail"
  shows "decode_buffered dec into buf =
    (if length buf < length (frame m) then None else Some (Got (seen m), drop (length (frame m)) buf))"
proof (cases "length buf < length (frame m)")
  case True
  then have "buf = take (length buf) (frame m)"
    using assms(2) by (metis append_eq_append_conv_if append_take_drop_id less_imp_le linorder_not_le)
  then show ?thesis
    using True dec_partial [OF assms(1) True] by (simp add: decode_buffered_def)
next
  case False
  then obtain x where "buf = frame m @ x"
    using assms(2) by (metis append_eq_append_conv_if append_take_drop_id linorder_not_less)
  then show ?thesis
    using dec_frame [OF assms(1)] by (simp add: decode_buffered_def buffer_advance_def)
qed

lemma recv_loop_first:
  assumes "ok m" "buf @ concat cs = frame m @ tail" "length buf < length (frame m)" "[] \<notin> set cs"
  shows "\<exists>buf' cs'. recv_loop dec into (map ReadOk cs @ rs) buf = (Got (seen m), buf', map ReadOk cs' @ rs)
      \<and> buf' @ concat cs' = tail \<and> set cs' \<subseteq> set cs"
  using assms
proof (induction cs arbitrary: buf)
  case Nil
  then show ?case by (metis append_Nil2 concat.simps(1) length_append not_add_less1)
next
  case (Cons c cs)
  have split: "(buf @ c) @ concat cs = frame m @ tail"
    using Cons.prems(2) by simp
  show ?case
  proof (cases "length (buf @ c) < length (frame m)")
    case True
    from Cons.IH [OF Cons.prems(1) split True] Cons.prems(4) show ?thesis
      using True Cons.prems(4) decode_split [OF Cons.prems(1) split]
      by (auto simp: buffer_extend_def)
  next
    case False
    have "drop (length (frame m)) (buf @ c) @ concat cs = tail"
      using False split by (metis append_eq_conv_conj drop_append diff_is_0_eq drop_0 linorder_not_less)
    then show ?thesis
      using False Cons.prems(4) decode_split [OF Cons.prems(1) split]
      by (auto simp: buffer_extend_def intro!: exI [of _ cs])
  qed
qed

lemma recv_msg_first:
  assumes "ok m" "buf @ concat cs = frame m @ tail" "[] \<notin> set cs"
  shows "\<exists>buf' cs'. recv_msg dec into (map ReadOk cs @ rs) buf = (Got (seen m), buf', map ReadOk cs' @ rs)
      \<and> buf' @ concat cs' = tail \<and> set cs' \<subseteq> set cs"
proof (cases "length buf < length (frame m)")
  case True
  then show ?thesis
    using recv_loop_first [OF assms(1,2) True assms(3)] decode_split [OF assms(1,2)]
    by (auto simp: recv_msg_def)
next
  case False
  have "drop (length (frame m)) buf @ concat cs = tail"
    using False assms(2) by (metis append_eq_conv_conj drop_append diff_is_0_eq drop_0 linorder_not_less)
  then show ?thesis
    using False decode_split [OF assms(1,2)] by (auto simp: recv_msg_def intro!: exI [of _ cs])
qed

lemma recv_many_frames:
  assumes "list_all ok ms" "buf @ concat cs = concat (map frame ms) @ tail" "[] \<notin> set cs"
  shows "\<exists>buf' cs'. recv_many dec into (length ms) (map ReadOk cs @ rs) buf =
      (map (\<lambda>m. Got (seen m)) ms, buf', map ReadOk cs' @ rs) \<and> buf' @ concat cs' = tail \<and> set cs' \<subseteq> set cs"
  using assms
proof (induction ms arbitrary: buf cs)
  case Nil
  then show ?case by auto
next
  case (Cons m ms)
  obtain b1 c1 where 1: "recv_msg dec into (map ReadOk cs @ rs) buf = (Got (seen m), b1, map ReadOk c1 @ rs)"
      "b1 @ concat c1 = concat (map frame ms) @ tail" "set c1 \<subseteq> set cs"
    using recv_msg_first [of m buf cs "concat (map frame ms) @ tail" into rs] Cons.prems by auto
  then have "[] \<notin> set c1" using Cons.prems(3) by auto
  with Cons.IH [OF _ 1(2)] Cons.prems(1) 1 show ?case by fastforce
qed

lemma write_loop_all:
  assumes "list_all accepts ws" "length buf \<le> length ws"
  shows "\<exists>ws'. write_loop None ws buf out = (Sent, [], out @ buf, ws')"
  using assms
proof (induction "None :: io_error option" ws buf out rule: write_loop.induct)
  case (4 k ws b buf out)
  define n where "n = min k (length (b # buf))"
  then have n: "n \<noteq> 0" "n \<le> length (b # buf)" using "4.prems" by auto
  then have "length (drop n (b # buf)) \<le> length ws" using "4.prems"(2) by auto
  moreover have "list_all accepts ws" using "4.prems"(1) by simp
  ultimately have "\<exists>ws'. write_loop None ws (drop n (b # buf)) (out @ take n (b # buf)) =
      (Sent, [], (out @ take n (b # buf)) @ drop n (b # buf), ws')"
    using "4.hyps" [OF n_def n(1), of "drop n (b # buf)"] n(2) by (simp add: buffer_advance_def)
  then show ?case
    using n by (simp add: Let_def buffer_advance_def n_def)
qed auto

lemma send_many_frames:
  assumes "list_all (\<lambda>(m, ws). ok m \<and> list_all accepts ws
      \<and> length (frame m) \<le> length ws) mws"
  shows "send_many enc into mws [] out =
    (replicate (length mws) Sent, [], out @ concat (map (frame \<circ> fst) mws))"
  using assms
proof (induction mws arbitrary: out)
  case (Cons mw mws)
  obtain m ws where mw: "mw = (m, ws)" by (cases mw)
  obtain n where "enc m [] = Inr (n, frame m)"
    using enc_frame [of m "[]"] Cons.prems mw by auto
  moreover obtain ws' where "write_loop None ws (frame m) out = (Sent, [], out @ frame m, ws')"
    using write_loop_all [of ws "frame m" out] Cons.prems mw by auto
  ultimately show ?case
    using Cons mw by (auto simp: send_msg_def)
qed simp

lemma recv_truncated:
  assumes "ok m" "concat cs = take k (frame m)" "0 < k" "k < length (frame m)" "[] \<notin> set cs"
  shows "recv_msg dec into (map ReadOk cs @ ReadOk [] # rs) [] =
    (RecvErr (IO (IoMsg UnexpectedEof ''bytes remaining in buffer'')), take k (frame m), rs)"
proof -
  have gen: "recv_loop dec into (map ReadOk ds @ ReadOk [] # rs) buf =
     (RecvErr (IO (IoMsg UnexpectedEof ''bytes remaining in buffer'')), take k (frame m), rs)"
    if "buf @ concat ds = take k (frame m)" "[] \<notin> set ds" for ds buf
    using that
  proof (induction ds arbitrary: buf)
    case Nil
    then show ?case using assms(3,4) by auto
  next
    case (Cons d ds)
    have "length (buf @ d) < length (frame m)"
      using arg_cong [OF Cons.prems(1), of length] assms(4) by simp
    moreover have "(buf @ d) @ (concat ds @ drop k (frame m)) = frame m @ []"
      using Cons.prems(1) by (metis append.assoc append.right_neutral append_take_drop_id concat.simps(2))
    ultimately have "decode_buffered dec into (buf @ d) = None"
      using decode_split [OF assms(1), of "buf @ d" _ "[]"] by simp
    then show ?case
      using Cons by (auto simp: buffer_extend_def Let_def)
  qed
  have "decode_buffered dec into [] = None"
    using decode_split [OF assms(1), of "[]" "frame m" "[]" into] assms(4) by auto
  then show ?thesis using gen [of "[]" cs] assms by (simp add: recv_msg_def)
qed

end

section \<open>The length-prefixed codec\<close>

text \<open>What the code relies on of the external binary codec for a fixed-width
  \<open>u32\<close>: encoding gives four bytes, and decoding them gives the number back.\<close>

definition bincode_u32 :: "(u32 \<Rightarrow> string + bytes) \<Rightarrow> (bytes \<Rightarrow> string + u32) \<Rightarrow> bool" where
  "bincode_u32 enc32 dec32 \<longleftrightarrow>
     (\<forall>w. \<exists>bs. enc32 w = Inr bs \<and> length bs = 4 \<and> dec32 bs = Inr w)"

definition u32_bytes :: "(u32 \<Rightarrow> string + bytes) \<Rightarrow> u32 \<Rightarrow> bytes" where
  "u32_bytes enc32 w = (case enc32 w of Inr bs \<Rightarrow> bs | Inl _ \<Rightarrow> [])"

definition length_ok :: "nat \<Rightarrow> bytes \<Rightarrow> bool" where
  "length_ok max_size m \<longleftrightarrow> length m \<le> max_size \<and> length m < 2 ^ 32"

definition length_frame :: "(u32 \<Rightarrow> string + bytes) \<Rightarrow> bytes \<Rightarrow> bytes" where
  "length_frame enc32 m = u32_bytes enc32 (of_nat (length m)) @ m"

text \<open>The little-endian layout that the codec is configured with.\<close>

definition le_enc32 :: "u32 \<Rightarrow> string + bytes" where
  "le_enc32 w = Inr (u32_to_le_bytes w)"

definition le_dec32 :: "bytes \<Rightarrow> string + u32" where
  "le_dec32 bs = (if length bs < 4 then Inl ''UnexpectedEnd''
     else Inr (u32_from_le_bytes (bs ! 0) (bs ! 1) (bs ! 2) (bs ! 3)))"

lemma bincode_u32_le: "bincode_u32 le_enc32 le_dec32"
  by (simp add: bincode_u32_def le_enc32_def le_dec32_def u32_to_le_bytes_def u32_to_be_bytes_def
      u32_from_le_bytes_def)

lemma u32_bytes_spec:
  assumes "bincode_u32 enc32 dec32"
  shows "enc32 w = Inr (u32_bytes enc32 w)" "length (u32_bytes enc32 w) = 4"
    "dec32 (u32_bytes enc32 w) = Inr w"
  using assms unfolding bincode_u32_def u32_bytes_def by (auto split: sum.splits dest: spec [of _ w])

lemma length_codec_framed:
  assumes "bincode_u32 enc32 dec32"
  shows "framed_codec (length_encode enc32 max_size) (length_decode dec32 max_size)
    (length_ok max_size) (length_frame enc32) id"
proof
  note b = u32_bytes_spec [OF assms]
  fix m :: bytes and dst rest :: buffer and k :: nat
  assume ok: "length_ok max_size m"
  then have u: "unat (of_nat (length m) :: u32) = length m"
    by (simp add: length_ok_def unat_of_nat)
  show "\<exists>n. length_encode enc32 max_size m dst = Inr (n, dst @ length_frame enc32 m)"
    using ok by (simp add: length_encode_def length_ok_def length_frame_def buffer_extend_def Let_def b)
  show "length_decode dec32 max_size (length_frame enc32 m @ rest) =
      Inr (Some (length (length_frame enc32 m), id m))"
    using ok by (simp add: length_decode_def length_ok_def length_frame_def MSG_LENGTH_SIZE_def b u)
  show "length_decode dec32 max_size (take k (length_frame enc32 m)) = Inr None"
    if "k < length (length_frame enc32 m)"
    using ok that by (auto simp: length_decode_def length_ok_def length_frame_def MSG_LENGTH_SIZE_def b u Let_def)
qed

lemma length_decode_bounds:
  assumes "length_decode dec32 max_size src = Inr (Some (n, m))"
  shows "n \<le> length src \<and> length m \<le> max_size \<and> n = length m + MSG_LENGTH_SIZE"
  using assms
  by (auto simp: length_decode_def Let_def res_bind_eq_Inr MSG_LENGTH_SIZE_def split: if_splits)

text \<open>A decoder that never claims more bytes than it was given cannot make the
  reader panic, whatever the transport delivers.\<close>

lemma recv_loop_no_panic:
  assumes "\<And>b n m. dec b = Inr (Some (n, m)) \<Longrightarrow> n \<le> length b"
  shows "fst (recv_loop dec into rs buf) \<noteq> RecvPanic"
proof (induction rs arbitrary: buf)
  case (Cons r rs)
  then show ?case
    using assms by (cases r) (auto simp: decode_buffered_def buffer_advance_def Let_def
      split: sum.splits option.splits)
qed simp

lemma recv_msg_no_panic:
  assumes "\<And>b n m. dec b = Inr (Some (n, m)) \<Longrightarrow> n \<le> length b"
  shows "fst (recv_msg dec into rs buf) \<noteq> RecvPanic"
  using recv_loop_no_panic [of dec, OF assms] assms
  by (auto simp: recv_msg_def decode_buffered_def buffer_advance_def split: sum.splits option.splits)

lemma concat_eq_Nil_chunks: "concat cs = [] \<Longrightarrow> [] \<notin> set cs \<Longrightarrow> cs = []"
  by (cases cs) auto

section \<open>Properties\<close>

text \<open>C11. A length-prefixed connection is a reliable message channel: when the
  messages fit the configured maximum and the transport accepts bytes in any
  portions, every send succeeds; and when the bytes written arrive in any
  non-empty chunks, repeated \<open>recv_msg\<close> returns exactly the messages sent, in
  order, and leaves nothing in the read buffer.\<close>

theorem length_channel_roundtrip:
  assumes "bincode_u32 enc32 dec32"
    and "list_all (\<lambda>(m, ws). length_ok max_size m \<and> list_all accepts ws
           \<and> length (length_frame enc32 m) \<le> length ws) mws"
    and "send_many (length_encode enc32 max_size) id mws [] [] = (outcomes, wbuf, wire)"
    and "concat cs = wire" "[] \<notin> set cs"
  shows "outcomes = replicate (length mws) Sent \<and> wbuf = []
    \<and> recv_many (length_decode dec32 max_size) id (length mws) (map ReadOk cs) [] = (map (Got \<circ> fst) mws, [], [])"
proof -
  note lc = length_codec_framed [OF assms(1), of max_size]
  have s: "outcomes = replicate (length mws) Sent" "wbuf = []" "wire = concat (map (length_frame enc32 \<circ> fst) mws)"
    using framed_codec.send_many_frames [OF lc assms(2), of id "[]"] assms(3) by simp_all
  have "list_all (length_ok max_size) (map fst mws)"
    using assms(2) by (auto simp: list_all_iff)
  then obtain b c where r: "recv_many (length_decode dec32 max_size) id (length mws) (map ReadOk cs @ []) [] =
      (map Got (map fst mws), b, map ReadOk c @ [])" "b @ concat c = []" "set c \<subseteq> set cs"
    using framed_codec.recv_many_frames [OF lc, of "map fst mws" "[]" cs "[]" id "[]"] assms(4,5) s
    by (auto simp: comp_def)
  then show ?thesis
    using s concat_eq_Nil_chunks [of c] assms(5) by auto
qed

theorem length_channel_roundtrip_witness:
  "recv_many (length_decode le_dec32 16) id 2
     (map ReadOk [[2, 0, 0], [0, 7], [8, 1, 0, 0, 0], [9]]) [] = ([Got [7, 8], Got [9]], [], [])"
proof -
  let ?mws = "[([7, 8], replicate 6 (WriteAccept 3)), ([9], replicate 5 (WriteAccept 1))]"
  have "list_all (\<lambda>(m, ws). length_ok 16 m \<and> list_all accepts ws \<and> length (length_frame le_enc32 m) \<le> length ws) ?mws"
    by (simp add: length_ok_def length_frame_def u32_bytes_def le_enc32_def u32_to_le_bytes_def list_all_iff)
  moreover have "send_many (length_encode le_enc32 16) id ?mws [] [] =
      ([Sent, Sent], [], [2, 0, 0, 0, 7, 8, 1, 0, 0, 0, 9])"
    by code_simp
  ultimately show ?thesis
    using length_channel_roundtrip [OF bincode_u32_le, of 16 ?mws _ _ _ "[[2, 0, 0], [0, 7], [8, 1, 0, 0, 0], [9]]"]
    by (simp del: recv_many.simps send_many.simps add: numeral_2_eq_2)
qed

text \<open>C30. A frame whose length field exceeds the configured maximum is refused as
  soon as the four length bytes are there, and no input whatsoever makes the reader of a
  length-prefixed connection panic or deliver a message above the maximum.\<close>

theorem length_reader_bounded:
  assumes "bincode_u32 enc32 dec32"
  shows "(max_size < unat w \<longrightarrow> (\<exists>e. length_decode dec32 max_size (u32_bytes enc32 w @ rest) = Inl (BufferFull e)))
    \<and> fst (recv_msg (length_decode dec32 max_size) id rs buf) \<noteq> RecvPanic
    \<and> (\<forall>n m. length_decode dec32 max_size src = Inr (Some (n, m)) \<longrightarrow> length m \<le> max_size)"
  using u32_bytes_spec [OF assms, of w] recv_msg_no_panic [of "length_decode dec32 max_size" id rs buf]
    length_decode_bounds [of dec32 max_size]
  by (auto simp: length_decode_def MSG_LENGTH_SIZE_def Let_def)

theorem length_reader_bounded_witness:
  "\<exists>e. length_decode le_dec32 16 (u32_bytes le_enc32 17 @ [1]) = Inl (BufferFull e)"
  using length_reader_bounded [OF bincode_u32_le, of 16 17 "[1]"] by simp

end
