(* ===== verification/Net_Socks5.thy ===== *)
theory Net_Socks5
  imports Net_Addr
begin

text \<open>
  The SOCKS5 client layer of the \<open>net\<close> crate (\<open>net/src/layers/proxy/socks5.rs\<close>).  The stream to the proxy holds the bytes the
  proxy sends before it closes, the bytes written so far and what happens to each call of \<open>write_all\<close>, \<open>flush\<close> and
  \<open>read_exact\<close>: a fault moves some bytes and fails.  A reader of requests written from RFC 1928 is the reference
  against which the request of the client is compared.
\<close>

section \<open>The stream\<close>

record sk_stream =
  sk_in :: bytes
  sk_out :: bytes
  sk_faults :: "(nat \<times> io_error) option list"

definition sk_call :: "sk_stream \<Rightarrow> (nat \<times> io_error) option \<times> sk_stream" where
  "sk_call s = (case sk_faults s of [] \<Rightarrow> (None, s) | f # fs \<Rightarrow> (f, s\<lparr>sk_faults := fs\<rparr>))"

definition sk_write_all :: "bytes \<Rightarrow> sk_stream \<Rightarrow> (net_error + unit) \<times> sk_stream" where
  "sk_write_all b s = (case sk_call s of
       (Some (k, e), s') \<Rightarrow> (Inl (IO e), s'\<lparr>sk_out := sk_out s' @ take k b\<rparr>)
     | (None, s') \<Rightarrow> (Inr (), s'\<lparr>sk_out := sk_out s' @ b\<rparr>))"

definition sk_flush :: "sk_stream \<Rightarrow> (net_error + unit) \<times> sk_stream" where
  "sk_flush s = (case sk_call s of (Some (k, e), s') \<Rightarrow> (Inl (IO e), s') | (None, s') \<Rightarrow> (Inr (), s'))"

definition sk_read_exact :: "nat \<Rightarrow> sk_stream \<Rightarrow> (net_error + bytes) \<times> sk_stream" where
  "sk_read_exact n s = (case sk_call s of
       (Some (k, e), s') \<Rightarrow> (Inl (IO e), s'\<lparr>sk_in := drop (min k n) (sk_in s')\<rparr>)
     | (None, s') \<Rightarrow>
         (if length (sk_in s') < n then (Inl (IO (IoKind UnexpectedEof)), s'\<lparr>sk_in := []\<rparr>)
          else (Inr (take n (sk_in s')), s'\<lparr>sk_in := drop n (sk_in s')\<rparr>)))"

definition sk_bind ::
  "(sk_stream \<Rightarrow> (net_error + 'a) \<times> sk_stream) \<Rightarrow> ('a \<Rightarrow> sk_stream \<Rightarrow> (net_error + 'b) \<times> sk_stream) \<Rightarrow> sk_stream \<Rightarrow> (net_error + 'b) \<times> sk_stream" where
  "sk_bind m f s = (case m s of (Inl e, s') \<Rightarrow> (Inl e, s') | (Inr x, s') \<Rightarrow> f x s')"

definition sk_fail :: "string \<Rightarrow> sk_stream \<Rightarrow> (net_error + 'a) \<times> sk_stream" where
  "sk_fail msg s = (Inl (Socks5 msg), s)"

section \<open>The layer\<close>

definition SOCKS5_VERSION :: u8 where "SOCKS5_VERSION = 0x05"

definition NO_AUTH :: u8 where "NO_AUTH = 0x00"

definition CMD_CONNECT :: u8 where "CMD_CONNECT = 0x01"

definition ATYPE_IPV4 :: u8 where "ATYPE_IPV4 = 0x01"

definition ATYPE_DOMAIN :: u8 where "ATYPE_DOMAIN = 0x03"

definition ATYPE_IPV6 :: u8 where "ATYPE_IPV6 = 0x04"

definition REPLY_SUCCESS :: u8 where "REPLY_SUCCESS = 0x00"

lemmas socks5_consts = SOCKS5_VERSION_def NO_AUTH_def CMD_CONNECT_def ATYPE_IPV4_def ATYPE_DOMAIN_def ATYPE_IPV6_def REPLY_SUCCESS_def

record socks5_layer =
  target_host :: string
  target_port :: u16

definition socks5_request :: "socks5_layer \<Rightarrow> u8 \<Rightarrow> bytes" where
  "socks5_request L host_len =
     [SOCKS5_VERSION, CMD_CONNECT, 0x00] @
     (case parse_ipv4 (target_host L) of
        Some ip \<Rightarrow> ATYPE_IPV4 # ip
      | None \<Rightarrow>
          (case parse_ipv6 (target_host L) of
             Some ip \<Rightarrow> ATYPE_IPV6 # ip
           | None \<Rightarrow> ATYPE_DOMAIN # host_len # as_bytes (target_host L))) @
     u16_to_be_bytes (target_port L)"

definition socks5_skip_bound :: "u8 \<Rightarrow> sk_stream \<Rightarrow> (net_error + unit) \<times> sk_stream" where
  "socks5_skip_bound atype =
     (if atype = ATYPE_IPV4 then sk_bind (sk_read_exact (4 + 2)) (\<lambda>_ s. (Inr (), s))
      else if atype = ATYPE_DOMAIN then
        sk_bind (sk_read_exact 1) (\<lambda>len. sk_bind (sk_read_exact (unat (len ! 0) + 2)) (\<lambda>_ s. (Inr (), s)))
      else if atype = ATYPE_IPV6 then sk_bind (sk_read_exact (16 + 2)) (\<lambda>_ s. (Inr (), s))
      else sk_fail (''unknown address type in reply: 0x'' @ show_hex (unat atype)))"

definition socks5_handshake :: "socks5_layer \<Rightarrow> sk_stream \<Rightarrow> (net_error + unit) \<times> sk_stream" where
  "socks5_handshake L =
     (let n = length (target_host L) in
      if \<not> (n < 256 \<and> 0 < n) then sk_fail (''invalid host length: '' @ show_nat n)
      else
        sk_bind (sk_write_all [SOCKS5_VERSION, 1, NO_AUTH]) (\<lambda>_.
        sk_bind sk_flush (\<lambda>_.
        sk_bind (sk_read_exact 2) (\<lambda>resp.
        if resp ! 0 \<noteq> SOCKS5_VERSION \<or> resp ! 1 \<noteq> NO_AUTH then sk_fail ''server rejected auth method''
        else
          sk_bind (sk_write_all (socks5_request L (of_nat n))) (\<lambda>_.
          sk_bind sk_flush (\<lambda>_.
          sk_bind (sk_read_exact 4) (\<lambda>reply.
          if reply ! 0 \<noteq> SOCKS5_VERSION then sk_fail ''invalid reply version''
          else if reply ! 1 \<noteq> REPLY_SUCCESS then sk_fail (''connect failed (code '' @ show_nat (unat (reply ! 1)) @ '')'')
          else socks5_skip_bound (reply ! 3))))))))"

section \<open>Requests and replies of RFC 1928\<close>

datatype socks5_dest = DestIpv4 bytes | DestIpv6 bytes | DestName bytes

definition rfc_port :: "'d \<Rightarrow> bytes \<Rightarrow> ('d \<times> u16 \<times> bytes) option" where
  "rfc_port d b = (case b of hi # lo # rest \<Rightarrow> Some (d, u16_from_be_bytes hi lo, rest) | _ \<Rightarrow> None)"

definition rfc_take :: "nat \<Rightarrow> (bytes \<Rightarrow> 'd) \<Rightarrow> bytes \<Rightarrow> ('d \<times> u16 \<times> bytes) option" where
  "rfc_take n f b = (if length b < n then None else rfc_port (f (take n b)) (drop n b))"

fun rfc_addr_port :: "bytes \<Rightarrow> (socks5_dest \<times> u16 \<times> bytes) option" where
  "rfc_addr_port [] = None"
| "rfc_addr_port (atyp # b) =
     (if atyp = 1 then rfc_take 4 DestIpv4 b
      else if atyp = 3 then (case b of [] \<Rightarrow> None | len # b' \<Rightarrow> rfc_take (unat len) DestName b')
      else if atyp = 4 then rfc_take 16 DestIpv6 b
      else None)"

fun rfc_read_connect :: "bytes \<Rightarrow> (socks5_dest \<times> u16 \<times> bytes) option" where
  "rfc_read_connect (ver # cmd # rsv # b) = (if ver = 5 \<and> cmd = 1 \<and> rsv = 0 then rfc_addr_port b else None)"
| "rfc_read_connect _ = None"

definition socks5_target :: "socks5_layer \<Rightarrow> socks5_dest" where
  "socks5_target L =
     (case (parse_ipv4 (target_host L), parse_ipv6 (target_host L)) of
        (Some ip, _) \<Rightarrow> DestIpv4 ip
      | (None, Some ip) \<Rightarrow> DestIpv6 ip
      | (None, None) \<Rightarrow> DestName (as_bytes (target_host L)))"

definition socks5_host_ok :: "socks5_layer \<Rightarrow> bool" where
  "socks5_host_ok L \<longleftrightarrow> 0 < length (target_host L) \<and> length (target_host L) < 256"

section \<open>Proofs\<close>

lemma parse_ipv4_length: "parse_ipv4 s = Some ip \<Longrightarrow> length ip = 4"
  by (auto simp: parse_ipv4_def parse_all_def read_ipv4_addr_def dest: read_octets_length
      split: if_splits option.splits list.splits prod.splits)

lemma parse_ipv6_length: "parse_ipv6 s = Some ip \<Longrightarrow> length ip = 16"
  by (auto simp: parse_ipv6_def parse_all_def dest: read_ipv6_length split: option.splits list.splits prod.splits)

lemma rfc_port_be [simp]: "rfc_port d (u16_to_be_bytes p @ rest) = Some (d, p, rest)"
  using u16_from_to_be [of p] by (simp add: rfc_port_def u16_to_be_bytes_def)

lemma rfc_take_be: "length b = n \<Longrightarrow> rfc_take n f (b @ u16_to_be_bytes p) = Some (f b, p, [])"
  using rfc_port_be [of "f b" p "[]"] by (simp add: rfc_take_def)

lemma request_read:
  assumes "socks5_host_ok L"
  shows "rfc_read_connect (socks5_request L (of_nat (length (target_host L)))) = Some (socks5_target L, target_port L, [])"
proof -
  have "unat (of_nat (length (target_host L)) :: u8) = length (target_host L)"
    using assms by (simp add: socks5_host_ok_def unat_of_nat)
  then show ?thesis
    by (auto simp: socks5_request_def socks5_target_def socks5_consts rfc_take_be parse_ipv4_length parse_ipv6_length
        split: option.splits)
qed

lemma sk_call_none [simp]: "sk_faults s = [] \<Longrightarrow> sk_call s = (None, s)"
  by (simp add: sk_call_def)

lemma rfc_port_iff: "(\<exists>d' p. rfc_port d b = Some (d', p, rest)) \<longleftrightarrow> 2 \<le> length b \<and> rest = drop 2 b"
  by (auto simp: rfc_port_def numeral_2_eq_2 Suc_le_length_iff split: list.splits)

lemma rfc_take_iff: "(\<exists>d p. rfc_take n f b = Some (d, p, rest)) \<longleftrightarrow> n + 2 \<le> length b \<and> rest = drop (n + 2) b"
  using rfc_port_iff [of "f (take n b)" "drop n b" rest] by (auto simp: rfc_take_def add.commute)

lemma read_skip:
  assumes "sk_faults s = []"
  shows "sk_bind (sk_read_exact n) (\<lambda>_ s. (Inr (), s)) s = (Inr (), s') \<longleftrightarrow> n \<le> length (sk_in s) \<and> s' = s\<lparr>sk_in := drop n (sk_in s)\<rparr>"
  using assms by (auto simp: sk_bind_def sk_read_exact_def)

text \<open>The client skips exactly the bound address that the reply carries.\<close>

lemma skip_bound_iff:
  assumes "sk_faults s = []"
  shows "socks5_skip_bound atype s = (Inr (), s') \<longleftrightarrow>
    (\<exists>d p rest. rfc_addr_port (atype # sk_in s) = Some (d, p, rest) \<and> s' = s\<lparr>sk_in := rest\<rparr>)"
proof (cases "atype = 3")
  case True
  then show ?thesis
  proof (cases "sk_in s")
    case (Cons len b)
    have "(\<exists>d p rest. rfc_take (unat len) DestName b = Some (d, p, rest) \<and> s' = s\<lparr>sk_in := rest\<rparr>) \<longleftrightarrow>
        unat len + 2 \<le> length b \<and> s' = s\<lparr>sk_in := drop (unat len + 2) b\<rparr>"
      using rfc_take_iff [of "unat len" DestName b] by metis
    with Cons True assms show ?thesis
      by (auto simp: socks5_skip_bound_def socks5_consts sk_bind_def sk_read_exact_def)
  qed (use assms in \<open>auto simp: socks5_skip_bound_def socks5_consts sk_bind_def sk_read_exact_def\<close>)
next
  case False
  have "(\<exists>d p rest. rfc_take n f (sk_in s) = Some (d, p, rest) \<and> s' = s\<lparr>sk_in := rest\<rparr>) \<longleftrightarrow>
      n + 2 \<le> length (sk_in s) \<and> s' = s\<lparr>sk_in := drop (n + 2) (sk_in s)\<rparr>" for n and f :: "bytes \<Rightarrow> socks5_dest"
    using rfc_take_iff [of n f "sk_in s"] by metis
  from this [of 4 DestIpv4] this [of 16 DestIpv6] False assms show ?thesis
    by (auto simp: socks5_skip_bound_def socks5_consts read_skip sk_fail_def)
qed

text \<open>An unusable host is refused before anything is written or read.\<close>

lemma socks5_bad_host:
  assumes "\<not> socks5_host_ok L"
  shows "socks5_handshake L s = (Inl (Socks5 (''invalid host length: '' @ show_nat (length (target_host L)))), s)"
  using assms by (auto simp: socks5_handshake_def socks5_host_ok_def sk_fail_def Let_def)

lemma handshake_short:
  assumes "sk_faults s = []" "length (sk_in s) < 6"
  shows "socks5_handshake L s \<noteq> (Inr (), s')"
  using assms by (simp add: socks5_handshake_def sk_bind_def sk_write_all_def sk_flush_def sk_read_exact_def sk_fail_def Let_def)

text \<open>The handshake on a stream without faults, as one case analysis of what the proxy sent.\<close>

lemma handshake_run:
  assumes "sk_faults s = []" "socks5_host_ok L"
  shows "socks5_handshake L s = (Inr (), s') \<longleftrightarrow>
    (\<exists>rsv atype b. sk_in s = [5, 0, 5, 0, rsv, atype] @ b \<and>
      socks5_skip_bound atype (s\<lparr>sk_out := sk_out s @ [5, 1, 0] @ socks5_request L (of_nat (length (target_host L))), sk_in := b\<rparr>) = (Inr (), s'))"
proof (cases "length (sk_in s) < 6")
  case True
  then show ?thesis
    using assms handshake_short by auto
next
  case False
  then obtain a b c d e f r where i: "sk_in s = a # b # c # d # e # f # r"
    by (auto simp: not_less numeral_eq_Suc Suc_le_length_iff)
  show ?thesis
    using assms by (simp add: socks5_handshake_def socks5_host_ok_def sk_bind_def sk_write_all_def sk_flush_def sk_read_exact_def
        sk_fail_def socks5_consts Let_def i) auto
qed

text \<open>C33. On a stream without I/O faults the SOCKS5 handshake succeeds exactly when the host has 1 to 255 bytes and the proxy
  selected no authentication and then reported success with a well-formed bound address.  The stream is then positioned at the first
  byte after the reply, so no byte of the tunnelled data is lost, the client has written the greeting and one request, and a reader of
  RFC 1928 requests gets the configured destination and port from it with nothing left over.\<close>

theorem socks5_tunnel:
  assumes "sk_faults s = []"
  shows "socks5_handshake L s = (Inr (), s') \<longleftrightarrow>
    socks5_host_ok L \<and>
    (\<exists>rsv reply d p rest req. sk_in s = [5, 0] @ [5, 0, rsv] @ reply \<and> rfc_addr_port reply = Some (d, p, rest) \<and>
       req = socks5_request L (of_nat (length (target_host L))) \<and>
       rfc_read_connect req = Some (socks5_target L, target_port L, []) \<and>
       s' = s\<lparr>sk_out := sk_out s @ [5, 1, 0] @ req, sk_in := rest\<rparr>)"
proof (cases "socks5_host_ok L")
  case False
  then show ?thesis by (simp add: socks5_bad_host)
next
  case True
  let ?req = "socks5_request L (of_nat (length (target_host L)))"
  have split: "rfc_addr_port reply = Some x \<longleftrightarrow> (\<exists>atype b. reply = atype # b \<and> rfc_addr_port (atype # b) = Some x)" for reply x
    by (cases reply) auto
  have "socks5_handshake L s = (Inr (), s') \<longleftrightarrow> (\<exists>rsv atype b d p rest. sk_in s = [5, 0, 5, 0, rsv, atype] @ b \<and>
      rfc_addr_port (atype # b) = Some (d, p, rest) \<and> s' = s\<lparr>sk_out := sk_out s @ [5, 1, 0] @ ?req, sk_in := rest\<rparr>)"
    using assms by (simp only: handshake_run [OF assms True]) (simp add: skip_bound_iff del: rfc_addr_port.simps)
  also have "\<dots> \<longleftrightarrow> (\<exists>rsv reply d p rest. sk_in s = [5, 0] @ [5, 0, rsv] @ reply \<and> rfc_addr_port reply = Some (d, p, rest) \<and>
      s' = s\<lparr>sk_out := sk_out s @ [5, 1, 0] @ ?req, sk_in := rest\<rparr>)"
    by (subst (2) split) (auto simp del: rfc_addr_port.simps)
  finally show ?thesis
    using True request_read [OF True] by simp
qed

theorem socks5_tunnel_witness:
  "\<exists>s'. socks5_handshake \<lparr>target_host = ''a.b'', target_port = 443\<rparr>
     \<lparr>sk_in = [5, 0, 5, 0, 0, 1, 9, 9, 9, 9, 0, 80, 7], sk_out = [], sk_faults = []\<rparr> = (Inr (), s') \<and> sk_in s' = [7]"
  using request_read [of "\<lparr>target_host = ''a.b'', target_port = 443\<rparr>"]
    socks5_tunnel [of "\<lparr>sk_in = [5, 0, 5, 0, 0, 1, 9, 9, 9, 9, 0, 80, 7], sk_out = [], sk_faults = []\<rparr>" "\<lparr>target_host = ''a.b'', target_port = 443\<rparr>"]
  by (simp add: socks5_host_ok_def rfc_take_def rfc_port_def)

end
