(* ===== verification/Stun_Message.thy ===== *)
theory Stun_Message
  imports Net_Codec
begin

text \<open>
  Wire format of the \<open>stun\<close> crate: attributes (\<open>stun/src/attrs.rs\<close>), messages
  (\<open>stun/src/msg.rs\<close>), errors (\<open>stun/src/error.rs\<close>) and the stream codec (\<open>stun/src/codec.rs\<close>).
  The main results are the round trips and the interpretation of the codec
  contract on \<open>StunCodec\<close>, so that framed STUN connections inherit
  the guarantees of framed connections.
\<close>

section \<open>Data\<close>

datatype stun_error =
    StunIO io_error
  | KaryonNet net_error
  | InvalidMsg string
  | StunTimeout
  | TransactionMismatch
  | NoMappedAddress
  | ErrorResponse u16 bytes
  | StunUnsupportedEndpoint string
  | StunMissingConfig string

definition MAGIC_COOKIE :: u32 where
  "MAGIC_COOKIE = 0x2112A442"

definition HEADER_SIZE :: nat where
  "HEADER_SIZE = 20"

datatype message_type = BindingRequest | BindingResponse | BindingError

definition message_type_to_u16 :: "message_type \<Rightarrow> u16" where
  "message_type_to_u16 t = (case t of BindingRequest \<Rightarrow> 0x0001 | BindingResponse \<Rightarrow> 0x0101 | BindingError \<Rightarrow> 0x0111)"

text \<open>The format \<open>#06x\<close>: a prefix and at least four hexadecimal digits.\<close>

definition hex06 :: "u16 \<Rightarrow> string" where
  "hex06 v = (let d = show_hex (unat v) in ''0x'' @ replicate (4 - length d) (CHR ''0'') @ d)"

definition message_type_try_from :: "u16 \<Rightarrow> stun_error + message_type" where
  "message_type_try_from v =
     (if v = 0x0001 then Inr BindingRequest
      else if v = 0x0101 then Inr BindingResponse
      else if v = 0x0111 then Inr BindingError
      else Inl (InvalidMsg (''unsupported message type '' @ hex06 v)))"

definition ATTR_MAPPED_ADDRESS :: u16 where "ATTR_MAPPED_ADDRESS = 0x0001"
definition ATTR_ERROR_CODE :: u16 where "ATTR_ERROR_CODE = 0x0009"
definition ATTR_XOR_MAPPED_ADDRESS :: u16 where "ATTR_XOR_MAPPED_ADDRESS = 0x0020"
definition ATTR_SOFTWARE :: u16 where "ATTR_SOFTWARE = 0x8022"
definition FAMILY_IPV4 :: u8 where "FAMILY_IPV4 = 0x01"
definition FAMILY_IPV6 :: u8 where "FAMILY_IPV6 = 0x02"
definition CLASS_MASK :: u8 where "CLASS_MASK = 0x07"

lemmas attr_consts = ATTR_MAPPED_ADDRESS_def ATTR_ERROR_CODE_def ATTR_XOR_MAPPED_ADDRESS_def
  ATTR_SOFTWARE_def FAMILY_IPV4_def FAMILY_IPV6_def CLASS_MASK_def

type_synonym transaction_id = bytes

datatype attribute =
    MappedAddress socket_addr
  | XorMappedAddress socket_addr
  | ErrorCode u16 bytes
  | Software bytes
  | Unknown u16 bytes

record stun_message =
  msg_type :: message_type
  txn_id :: transaction_id
  attrs :: "attribute list"

section \<open>Attributes\<close>

definition xor_bytes :: "bytes \<Rightarrow> bytes \<Rightarrow> bytes" where
  "xor_bytes o8 key = map2 (XOR) o8 key"

definition xor_address :: "socket_addr \<Rightarrow> transaction_id \<Rightarrow> socket_addr" where
  "xor_address sa txn = (let
      port = sa_port sa XOR ucast (drop_bit 16 MAGIC_COOKIE);
      ip = (case sa_ip sa of
          V4 o4 \<Rightarrow> V4 (xor_bytes o4 (u32_to_be_bytes MAGIC_COOKIE))
        | V6 o16 \<Rightarrow> V6 (xor_bytes o16 (u32_to_be_bytes MAGIC_COOKIE @ txn)))
    in SocketAddr_new ip port)"

definition encode_address :: "socket_addr \<Rightarrow> bytes" where
  "encode_address sa = 0 # (case sa_ip sa of
      V4 o4 \<Rightarrow> FAMILY_IPV4 # u16_to_be_bytes (sa_port sa) @ o4
    | V6 o16 \<Rightarrow> FAMILY_IPV6 # u16_to_be_bytes (sa_port sa) @ o16)"

definition decode_address :: "bytes \<Rightarrow> stun_error + socket_addr" where
  "decode_address v =
     (if length v < 4 then Inl (InvalidMsg ''address attribute too short'')
      else (let port = u16_from_be_bytes (v ! 2) (v ! 3) in
        if v ! 1 = FAMILY_IPV4 \<and> length v = 8 then Inr (SocketAddr_new (V4 (drop 4 v)) port)
        else if v ! 1 = FAMILY_IPV6 \<and> length v = 20 then Inr (SocketAddr_new (V6 (drop 4 v)) port)
        else Inl (InvalidMsg ''bad address family or length'')))"

definition encode_error :: "u16 \<Rightarrow> bytes \<Rightarrow> bytes" where
  "encode_error code reason =
     [0, 0, ucast (code div 100) AND CLASS_MASK, ucast (code mod 100)] @ reason"

definition decode_error :: "bytes \<Rightarrow> stun_error + attribute" where
  "decode_error v =
     (if length v < 4 then Inl (InvalidMsg ''error attribute too short'')
      else Inr (ErrorCode (ucast (v ! 2 AND CLASS_MASK) * 100 + ucast (v ! 3)) (utf8_lossy (drop 4 v))))"

fun attr_value :: "transaction_id \<Rightarrow> attribute \<Rightarrow> u16 \<times> bytes" where
  "attr_value txn (MappedAddress sa) = (ATTR_MAPPED_ADDRESS, encode_address sa)"
| "attr_value txn (XorMappedAddress sa) = (ATTR_XOR_MAPPED_ADDRESS, encode_address (xor_address sa txn))"
| "attr_value txn (ErrorCode code reason) = (ATTR_ERROR_CODE, encode_error code reason)"
| "attr_value txn (Software s) = (ATTR_SOFTWARE, s)"
| "attr_value txn (Unknown t v) = (t, v)"

definition pad_len :: "nat \<Rightarrow> nat" where
  "pad_len len = (4 - len mod 4) mod 4"

definition attr_encode :: "transaction_id \<Rightarrow> attribute \<Rightarrow> bytes \<Rightarrow> stun_error + bytes" where
  "attr_encode txn a dst = (case attr_value txn a of (t, v) \<Rightarrow>
     if 65535 < length v then Inl (InvalidMsg ''attribute value too large'')
     else Inr (dst @ u16_to_be_bytes t @ u16_to_be_bytes (of_nat (length v)) @ v
            @ replicate (pad_len (length v)) 0))"

text \<open>\<open>(len + 3) & !3\<close> rounds up to a multiple of four.\<close>

definition padded_len :: "nat \<Rightarrow> nat" where
  "padded_len len = (len + 3) div 4 * 4"

definition decode_value :: "transaction_id \<Rightarrow> u16 \<Rightarrow> bytes \<Rightarrow> stun_error + attribute" where
  "decode_value txn t v =
     (if t = ATTR_MAPPED_ADDRESS then res_bind (decode_address v) (\<lambda>sa. Inr (MappedAddress sa))
      else if t = ATTR_XOR_MAPPED_ADDRESS then
        res_bind (decode_address v) (\<lambda>sa. Inr (XorMappedAddress (xor_address sa txn)))
      else if t = ATTR_ERROR_CODE then decode_error v
      else if t = ATTR_SOFTWARE then Inr (Software (utf8_lossy v))
      else Inr (Unknown t v))"

definition attr_decode :: "transaction_id \<Rightarrow> bytes \<Rightarrow> stun_error + (nat \<times> attribute) option" where
  "attr_decode txn src =
     (if length src < 4 then Inr None
      else (let t = u16_from_be_bytes (src ! 0) (src ! 1);
                len = unat (u16_from_be_bytes (src ! 2) (src ! 3));
                padded = padded_len len in
        if length src < 4 + padded then Inr None
        else res_bind (decode_value txn t (take len (drop 4 src)))
               (\<lambda>a. Inr (Some (4 + padded, a)))))"

section \<open>Messages\<close>

definition binding_request :: "transaction_id \<Rightarrow> stun_message" where
  "binding_request txn = \<lparr>msg_type = BindingRequest, txn_id = txn, attrs = []\<rparr>"

definition binding_response :: "stun_message \<Rightarrow> socket_addr \<Rightarrow> stun_message" where
  "binding_response req source =
     \<lparr>msg_type = BindingResponse, txn_id = txn_id req, attrs = [XorMappedAddress source]\<rparr>"

definition error_response :: "stun_message \<Rightarrow> u16 \<Rightarrow> bytes \<Rightarrow> stun_message" where
  "error_response req code reason =
     \<lparr>msg_type = BindingError, txn_id = txn_id req, attrs = [ErrorCode code reason]\<rparr>"

fun find_xor_mapped :: "attribute list \<Rightarrow> socket_addr option" where
  "find_xor_mapped [] = None"
| "find_xor_mapped (XorMappedAddress sa # as) = Some sa"
| "find_xor_mapped (a # as) = find_xor_mapped as"

fun find_mapped :: "attribute list \<Rightarrow> socket_addr option" where
  "find_mapped [] = None"
| "find_mapped (MappedAddress sa # as) = Some sa"
| "find_mapped (a # as) = find_mapped as"

definition mapped_address :: "stun_message \<Rightarrow> stun_error + socket_addr" where
  "mapped_address m = (case find_xor_mapped (attrs m) of Some sa \<Rightarrow> Inr sa
     | None \<Rightarrow> (case find_mapped (attrs m) of Some sa \<Rightarrow> Inr sa | None \<Rightarrow> Inl NoMappedAddress))"

fun encode_attrs :: "transaction_id \<Rightarrow> attribute list \<Rightarrow> bytes \<Rightarrow> stun_error + bytes" where
  "encode_attrs txn [] body = Inr body"
| "encode_attrs txn (a # as) body = res_bind (attr_encode txn a body) (encode_attrs txn as)"

definition stun_encode :: "stun_message \<Rightarrow> stun_error + bytes" where
  "stun_encode m = res_bind (encode_attrs (txn_id m) (attrs m) []) (\<lambda>body.
     if 65535 < length body then Inl (InvalidMsg ''message too large'')
     else Inr (u16_to_be_bytes (message_type_to_u16 (msg_type m)) @ u16_to_be_bytes (of_nat (length body))
            @ u32_to_be_bytes MAGIC_COOKIE @ txn_id m @ body))"

lemma attr_decode_bounds:
  "attr_decode txn src = Inr (Some (n, a)) \<Longrightarrow> 4 \<le> n \<and> n \<le> length src"
  by (auto simp: attr_decode_def Let_def res_bind_eq_Inr split: if_splits)

text \<open>The loop of \<open>StunMessage::decode\<close>, on the part of the body still to be read.\<close>

function decode_attrs :: "transaction_id \<Rightarrow> bytes \<Rightarrow> stun_error + attribute list" where
  "decode_attrs txn src = (if src = [] then Inr []
     else (case attr_decode txn src of
         Inl e \<Rightarrow> Inl e
       | Inr None \<Rightarrow> Inl (InvalidMsg ''truncated attribute'')
       | Inr (Some (n, a)) \<Rightarrow> res_bind (decode_attrs txn (drop n src)) (\<lambda>as. Inr (a # as))))"
  by pat_completeness auto
termination
  by (relation "measure (length \<circ> snd)") (auto dest: attr_decode_bounds)

declare decode_attrs.simps [simp del]

definition stun_decode :: "bytes \<Rightarrow> stun_error + (nat \<times> stun_message) option" where
  "stun_decode src =
     (if length src < HEADER_SIZE then Inr None
      else (let raw_type = u16_from_be_bytes (src ! 0) (src ! 1);
                len = unat (u16_from_be_bytes (src ! 2) (src ! 3));
                cookie = u32_from_be_bytes (src ! 4) (src ! 5) (src ! 6) (src ! 7) in
        if raw_type AND 0xC000 \<noteq> 0 then Inl (InvalidMsg ''top two bits not zero'')
        else if len mod 4 \<noteq> 0 then Inl (InvalidMsg ''length not 4-byte aligned'')
        else if cookie \<noteq> MAGIC_COOKIE then Inl (InvalidMsg ''bad magic cookie'')
        else if length src < HEADER_SIZE + len then Inr None
        else res_bind (message_type_try_from raw_type) (\<lambda>mt.
          let txn = take 12 (drop 8 src) in
          res_bind (decode_attrs txn (take len (drop HEADER_SIZE src))) (\<lambda>as.
            Inr (Some (HEADER_SIZE + len, \<lparr>msg_type = mt, txn_id = txn, attrs = as\<rparr>))))))"

section \<open>Codec and error conversion\<close>

definition stun_codec_encode :: "stun_message \<Rightarrow> buffer \<Rightarrow> stun_error + nat \<times> buffer" where
  "stun_codec_encode src dst = res_bind (stun_encode src) (\<lambda>bs. Inr (length bs, buffer_extend dst bs))"

definition stun_codec_decode :: "buffer \<Rightarrow> stun_error + (nat \<times> stun_message) option" where
  "stun_codec_decode src = stun_decode src"

text \<open>\<open>Display\<close> of the errors that are not passed through.\<close>

definition stun_error_display :: "stun_error \<Rightarrow> string" where
  "stun_error_display e = (case e of
      InvalidMsg s \<Rightarrow> ''Invalid Message: '' @ s
    | StunTimeout \<Rightarrow> ''Timeout''
    | TransactionMismatch \<Rightarrow> ''Transaction ID Mismatch''
    | NoMappedAddress \<Rightarrow> ''No Mapped Address In Response''
    | ErrorResponse c r \<Rightarrow> ''STUN Error Response: '' @ show_nat (unat c) @ '' '' @ map (char_of \<circ> unat) r
    | StunUnsupportedEndpoint s \<Rightarrow> ''Unsupported Endpoint: '' @ s
    | StunMissingConfig s \<Rightarrow> ''Missing '' @ s @ '' Config''
    | _ \<Rightarrow> [])"

definition stun_into_net :: "stun_error \<Rightarrow> net_error" where
  "stun_into_net e = (case e of KaryonNet n \<Rightarrow> n | StunIO i \<Rightarrow> IO i
     | _ \<Rightarrow> IO (IoMsg InvalidData (stun_error_display e)))"
section \<open>Well-formed messages\<close>

text \<open>What a sender can put in a message so that the receiver sees the same
  attribute: addresses of the right size, error classes of three bits,
  UTF-8 text, and unknown attributes with a type that is not a known one.\<close>

fun attr_ok :: "attribute \<Rightarrow> bool" where
  "attr_ok (MappedAddress sa) = sa_wf sa"
| "attr_ok (XorMappedAddress sa) = sa_wf sa"
| "attr_ok (ErrorCode c r) = (unat c < 800 \<and> utf8_valid r \<and> length r \<le> 65531)"
| "attr_ok (Software s) = (utf8_valid s \<and> length s \<le> 65535)"
| "attr_ok (Unknown t v) = (t \<notin> {ATTR_MAPPED_ADDRESS, ATTR_XOR_MAPPED_ADDRESS, ATTR_ERROR_CODE, ATTR_SOFTWARE}
     \<and> length v \<le> 65535)"

text \<open>What the receiver sees: the flow label and scope of an IPv6 socket
  address do not travel.\<close>

definition sa_plain :: "socket_addr \<Rightarrow> socket_addr" where
  "sa_plain sa = SocketAddr_new (sa_ip sa) (sa_port sa)"

fun attr_seen :: "attribute \<Rightarrow> attribute" where
  "attr_seen (MappedAddress sa) = MappedAddress (sa_plain sa)"
| "attr_seen (XorMappedAddress sa) = XorMappedAddress (sa_plain sa)"
| "attr_seen a = a"

definition attr_bytes :: "transaction_id \<Rightarrow> attribute \<Rightarrow> bytes" where
  "attr_bytes txn a = (case attr_value txn a of (t, v) \<Rightarrow>
     u16_to_be_bytes t @ u16_to_be_bytes (of_nat (length v)) @ v @ replicate (pad_len (length v)) 0)"

definition body_bytes :: "stun_message \<Rightarrow> bytes" where
  "body_bytes m = concat (map (attr_bytes (txn_id m)) (attrs m))"

definition msg_ok :: "stun_message \<Rightarrow> bool" where
  "msg_ok m \<longleftrightarrow> length (txn_id m) = 12 \<and> list_all attr_ok (attrs m) \<and> length (body_bytes m) \<le> 65535"

definition msg_seen :: "stun_message \<Rightarrow> stun_message" where
  "msg_seen m = m\<lparr>attrs := map attr_seen (attrs m)\<rparr>"

definition stun_frame :: "stun_message \<Rightarrow> bytes" where
  "stun_frame m = u16_to_be_bytes (message_type_to_u16 (msg_type m)) @ u16_to_be_bytes (of_nat (length (body_bytes m)))
     @ u32_to_be_bytes MAGIC_COOKIE @ txn_id m @ body_bytes m"

section \<open>Attribute lemmas\<close>

lemma length_xor_bytes [simp]: "length (xor_bytes a k) = min (length a) (length k)"
  by (simp add: xor_bytes_def)

lemma xor_bytes_invol: "length a \<le> length k \<Longrightarrow> xor_bytes (xor_bytes a k) k = a"
  by (rule nth_equalityI) (auto simp: xor_bytes_def xor.assoc)

lemma sa_plain_ip [simp]: "sa_ip (sa_plain sa) = sa_ip sa" "sa_port (sa_plain sa) = sa_port sa"
  by (simp_all add: sa_plain_def)

lemma xor_address_plain [simp]: "xor_address (sa_plain sa) txn = xor_address sa txn"
  by (simp add: xor_address_def)

lemma xor_address_invol:
  assumes "sa_wf sa" "length txn = 12"
  shows "xor_address (xor_address sa txn) txn = sa_plain sa"
  using assms by (cases "sa_ip sa")
    (auto simp: xor_address_def sa_plain_def sa_wf_def xor_bytes_invol xor.assoc Let_def)

lemma xor_address_wf: "sa_wf sa \<Longrightarrow> length txn = 12 \<Longrightarrow> sa_wf (xor_address sa txn)"
  by (cases "sa_ip sa") (auto simp: xor_address_def sa_wf_def Let_def)

lemma xor_address_seen: "sa_plain (xor_address sa txn) = xor_address sa txn"
  by (simp add: xor_address_def sa_plain_def Let_def)

lemma length_encode_address: "sa_wf sa \<Longrightarrow> length (encode_address sa) \<le> 20"
  by (auto simp: encode_address_def sa_wf_def split: ip_addr.splits)

lemma decode_encode_address: "sa_wf sa \<Longrightarrow> decode_address (encode_address sa) = Inr (sa_plain sa)"
  by (auto simp: encode_address_def decode_address_def sa_wf_def sa_plain_def attr_consts
      u16_to_be_bytes_def split: ip_addr.splits)

text \<open>A class above seven is cut to three bits, so only codes below 800 survive.\<close>

lemma decode_encode_error:
  assumes "unat c < 800" "utf8_valid r"
  shows "decode_error (encode_error c r) = Inr (ErrorCode c r)"
proof -
  have u: "unat (c div 100) = unat c div 100" "unat (c mod 100) = unat c mod 100"
    by (simp_all add: unat_div_distrib unat_mod_distrib)
  have m: "unat (ucast (c div 100) AND (7 :: u8)) = unat c div 100"
  proof -
    have "unat (ucast (c div 100) AND (7 :: u8)) = unat (take_bit 3 (ucast (c div 100) :: u8))"
      by (simp add: take_bit_eq_mask mask_eq_exp_minus_1)
    also have "\<dots> = (unat c div 100) mod 256 mod 8"
      by (subst unsigned_take_bit_eq) (simp add: u unsigned_ucast_eq take_bit_eq_mod)
    finally show ?thesis using assms(1) by simp
  qed
  have "unat (ucast (ucast (c div 100) AND (7 :: u8)) * 100 + ucast (ucast (c mod 100) :: u8) :: u16) = unat c"
    using assms(1) by (simp add: unat_word_ariths unsigned_ucast_eq take_bit_eq_mod m u)
  then have "ucast (ucast (c div 100) AND (7 :: u8)) * 100 + ucast (ucast (c mod 100) :: u8) = c"
    by (simp add: word_unat_eq_iff)
  then show ?thesis
    using assms(2) by (simp add: decode_error_def encode_error_def CLASS_MASK_def utf8_lossy_valid)
qed

lemma attr_value_length: "attr_ok a \<Longrightarrow> length txn = 12 \<Longrightarrow> length (snd (attr_value txn a)) \<le> 65535"
  by (cases a) (auto simp: encode_error_def xor_address_wf intro: order_trans [OF length_encode_address])

lemma decode_value_ok:
  assumes "attr_ok a" "length txn = 12" "attr_value txn a = (t, v)"
  shows "decode_value txn t v = Inr (attr_seen a)"
  using assms by (cases a)
    (auto simp: decode_value_def attr_consts decode_encode_address xor_address_wf decode_encode_error
      xor_address_invol utf8_lossy_valid)

lemma padded_eq: "padded_len n = n + pad_len n"
proof -
  obtain q r where n: "n = 4 * q + r" and "r < 4"
    by (metis mod_less_divisor mult_div_mod_eq zero_less_numeral)
  have "n mod 4 = r" "(n + 3) div 4 = q + (r + 3) div 4"
    using \<open>r < 4\<close> by (simp_all only: n add.assoc) simp_all
  moreover have "(r + 3) div 4 * 4 = r + (4 - r) mod 4"
  proof -
    consider "r = 0" | "r = 1" | "r = 2" | "r = 3" using \<open>r < 4\<close> by linarith
    then show ?thesis by cases simp_all
  qed
  ultimately show ?thesis by (simp add: n padded_len_def pad_len_def)
qed

lemma attr_encode_ok:
  "attr_ok a \<Longrightarrow> length txn = 12 \<Longrightarrow> attr_encode txn a dst = Inr (dst @ attr_bytes txn a)"
  using attr_value_length [of a txn] by (auto simp: attr_encode_def attr_bytes_def split: prod.splits)

lemma encode_attrs_ok:
  "list_all attr_ok as \<Longrightarrow> length txn = 12 \<Longrightarrow>
     encode_attrs txn as body = Inr (body @ concat (map (attr_bytes txn) as))"
  by (induction as arbitrary: body) (auto simp: attr_encode_ok)

lemma attr_decode_tlv:
  assumes "length v \<le> 65535" "length pad = pad_len (length v)"
  shows "attr_decode txn (u16_to_be_bytes t @ u16_to_be_bytes (of_nat (length v)) @ v @ pad @ rest) =
    res_bind (decode_value txn t v) (\<lambda>a. Inr (Some (4 + padded_len (length v), a)))"
proof -
  have "unat (of_nat (length v) :: u16) = length v" using assms(1) by (simp add: unat_of_nat)
  then show ?thesis
    using assms(2) by (simp add: padded_eq attr_decode_def u16_to_be_bytes_def Let_def)
qed

lemma attr_decode_ok:
  assumes "attr_ok a" "length txn = 12"
  shows "attr_decode txn (attr_bytes txn a @ rest) = Inr (Some (length (attr_bytes txn a), attr_seen a))"
proof -
  obtain t v where tv: "attr_value txn a = (t, v)" by fastforce
  have l: "length v \<le> 65535" using attr_value_length [OF assms] tv by simp
  show ?thesis
    using attr_decode_tlv [OF l, of "replicate (pad_len (length v)) 0" txn t rest]
      decode_value_ok [OF assms tv]
    by (simp add: attr_bytes_def tv padded_eq)
qed

lemma length_attr_bytes: "4 \<le> length (attr_bytes txn a) \<and> 4 dvd length (attr_bytes txn a)"
proof -
  have "length (attr_bytes txn a) = 4 + padded_len (length (snd (attr_value txn a)))"
    by (simp add: attr_bytes_def padded_eq split: prod.splits)
  then show ?thesis by (simp add: padded_len_def)
qed

lemma decode_attrs_ok:
  assumes "list_all attr_ok as" "length txn = 12"
  shows "decode_attrs txn (concat (map (attr_bytes txn) as)) = Inr (map attr_seen as)"
  using assms(1)
proof (induction as)
  case Nil
  then show ?case by (simp add: decode_attrs.simps)
next
  case (Cons a as)
  have "attr_bytes txn a \<noteq> []" using length_attr_bytes [of txn a] by auto
  then show ?case
    using Cons attr_decode_ok [OF _ assms(2), of a] by (subst decode_attrs.simps) simp
qed

lemma body_dvd: "4 dvd length (body_bytes m)"
proof -
  have "4 dvd length (concat (map (attr_bytes txn) as))" for txn as
    using length_attr_bytes by (induction as) auto
  then show ?thesis by (simp add: body_bytes_def)
qed

section \<open>Message lemmas\<close>

lemma message_type_roundtrip [simp]: "message_type_try_from (message_type_to_u16 t) = Inr t"
  by (cases t) (simp_all add: message_type_try_from_def message_type_to_u16_def)

lemma message_type_top_bits [simp]: "message_type_to_u16 t AND 0xC000 = 0"
  by (cases t) (simp_all add: message_type_to_u16_def)

lemma stun_encode_ok: "msg_ok m \<Longrightarrow> stun_encode m = Inr (stun_frame m)"
  by (simp add: stun_encode_def msg_ok_def encode_attrs_ok stun_frame_def body_bytes_def)

lemma stun_frame_length: "msg_ok m \<Longrightarrow> length (stun_frame m) = HEADER_SIZE + length (body_bytes m)"
  by (simp add: stun_frame_def msg_ok_def HEADER_SIZE_def)

lemma stun_frame_header:
  "stun_frame m = [ucast (drop_bit 8 (message_type_to_u16 (msg_type m))), ucast (message_type_to_u16 (msg_type m)),
     ucast (drop_bit 8 (of_nat (length (body_bytes m)) :: u16)), ucast (of_nat (length (body_bytes m)) :: u16),
     ucast (drop_bit 24 MAGIC_COOKIE), ucast (drop_bit 16 MAGIC_COOKIE), ucast (drop_bit 8 MAGIC_COOKIE), ucast MAGIC_COOKIE]
     @ txn_id m @ body_bytes m"
  by (simp add: stun_frame_def u16_to_be_bytes_def u32_to_be_bytes_def)

text \<open>On any input that starts with the header of a well-formed message the decoder
  waits until the announced length is there.\<close>

lemma stun_decode_header:
  assumes "msg_ok m" "HEADER_SIZE \<le> k"
  shows "stun_decode (take k (stun_frame m) @ rest) =
    (if length (take k (stun_frame m) @ rest) < length (stun_frame m) then Inr None
     else res_bind (decode_attrs (txn_id m) (take (length (body_bytes m)) (drop HEADER_SIZE (take k (stun_frame m) @ rest))))
       (\<lambda>as. Inr (Some (length (stun_frame m), \<lparr>msg_type = msg_type m, txn_id = txn_id m, attrs = as\<rparr>))))"
proof -
  define body where "body = body_bytes m"
  define t where "t = message_type_to_u16 (msg_type m)"
  have l: "unat (of_nat (length body) :: u16) = length body" "length body mod 4 = 0"
    using assms(1) body_dvd [of m] by (simp_all add: msg_ok_def body_def unat_of_nat)
  obtain j where k: "k = 20 + j" using assms(2) by (metis HEADER_SIZE_def le_Suc_ex)
  have txn: "length (txn_id m) = 12" using assms(1) by (simp add: msg_ok_def)
  have src: "take k (stun_frame m) @ rest =
     [ucast (drop_bit 8 t), ucast t, ucast (drop_bit 8 (of_nat (length body) :: u16)), ucast (of_nat (length body) :: u16),
     ucast (drop_bit 24 MAGIC_COOKIE), ucast (drop_bit 16 MAGIC_COOKIE), ucast (drop_bit 8 MAGIC_COOKIE), ucast MAGIC_COOKIE]
     @ txn_id m @ take j body @ rest" (is "_ = ?src")
    using txn by (simp add: stun_frame_header t_def body_def k take_Cons')
  have len: "length (stun_frame m) = 20 + length body"
    using stun_frame_length [OF assms(1)] by (simp add: HEADER_SIZE_def body_def)
  have dec: "stun_decode ?src = (if length (take j body @ rest) < length body then Inr None
     else res_bind (decode_attrs (txn_id m) (take (length body) (take j body @ rest)))
       (\<lambda>as. Inr (Some (20 + length body, \<lparr>msg_type = msg_type m, txn_id = txn_id m, attrs = as\<rparr>))))"
    using l txn by (auto simp: stun_decode_def HEADER_SIZE_def Let_def t_def min_def)
  show ?thesis
    unfolding src len dec by (auto simp: HEADER_SIZE_def txn min_def simp flip: body_def)
qed

lemma stun_decode_ok:
  assumes "msg_ok m"
  shows "stun_decode (stun_frame m @ rest) = Inr (Some (length (stun_frame m), msg_seen m))"
proof -
  have "drop HEADER_SIZE (stun_frame m @ rest) = body_bytes m @ rest"
    using assms by (simp add: stun_frame_header msg_ok_def HEADER_SIZE_def)
  then show ?thesis
    using stun_decode_header [OF assms, of "length (stun_frame m)" rest] assms
      decode_attrs_ok [of "attrs m" "txn_id m"]
    by (simp add: stun_frame_length msg_ok_def msg_seen_def flip: body_bytes_def)
qed

lemma stun_decode_partial:
  assumes "msg_ok m" "k < length (stun_frame m)"
  shows "stun_decode (take k (stun_frame m)) = Inr None"
  using stun_decode_header [OF assms(1), of k "[]"] assms(2)
  by (cases "k < HEADER_SIZE") (auto simp: stun_decode_def)

lemma stun_decode_bounds:
  "stun_decode src = Inr (Some (n, m)) \<Longrightarrow> n \<le> length src \<and> length (txn_id m) = 12"
  by (auto simp: stun_decode_def Let_def res_bind_eq_Inr HEADER_SIZE_def split: if_splits)

interpretation stun: framed_codec stun_codec_encode stun_codec_decode msg_ok stun_frame msg_seen
proof
  fix m :: stun_message and dst rest :: buffer and k :: nat
  assume m: "msg_ok m"
  show "\<exists>n. stun_codec_encode m dst = Inr (n, dst @ stun_frame m)"
    using m by (simp add: stun_codec_encode_def stun_encode_ok buffer_extend_def)
  show "stun_codec_decode (stun_frame m @ rest) = Inr (Some (length (stun_frame m), msg_seen m))"
    using m by (simp add: stun_codec_decode_def stun_decode_ok)
  show "k < length (stun_frame m) \<Longrightarrow> stun_codec_decode (take k (stun_frame m)) = Inr None"
    using m by (simp add: stun_codec_decode_def stun_decode_partial)
qed

section \<open>Properties\<close>

text \<open>C8. STUN wire round trip: every well-formed message encodes, decoding the
  encoding (followed by anything) gives the message back, without the IPv6 flow label
  and scope, consuming exactly its bytes; and every proper prefix of the
  encoding is reported as incomplete, never as an error or as another message.\<close>

theorem stun_wire_roundtrip:
  assumes "msg_ok m"
  shows "\<exists>wire. stun_encode m = Inr wire
    \<and> stun_decode (wire @ rest) = Inr (Some (length wire, msg_seen m))
    \<and> (\<forall>k < length wire. stun_decode (take k wire) = Inr None)"
  using stun_encode_ok [OF assms] stun_decode_ok [OF assms] stun_decode_partial [OF assms] by blast

definition example_txn :: transaction_id where
  "example_txn = [1, 2, 3, 4, 5, 6, 7, 8, 9, 10, 11, 12]"

definition example_msg :: stun_message where
  "example_msg = \<lparr>msg_type = BindingResponse, txn_id = example_txn,
     attrs = [XorMappedAddress (SockV4 [203, 0, 113, 9] 54321), ErrorCode 420 [], Unknown 77 [5]]\<rparr>"

lemma example_msg_ok: "msg_ok example_msg"
  by (simp add: msg_ok_def example_msg_def example_txn_def body_bytes_def attr_bytes_def sa_wf_def attr_consts
      xor_address_def Let_def utf8_valid.simps encode_error_def encode_address_def pad_len_def u32_to_be_bytes_def)

theorem stun_wire_roundtrip_witness:
  "\<exists>wire. stun_encode example_msg = Inr wire
    \<and> stun_decode (wire @ [1, 2]) = Inr (Some (length wire, example_msg))
    \<and> (\<forall>k < length wire. stun_decode (take k wire) = Inr None)"
proof -
  have "msg_seen example_msg = example_msg"
    by (simp add: msg_seen_def example_msg_def sa_plain_def)
  then show ?thesis using stun_wire_roundtrip [OF example_msg_ok, of "[1, 2]"] by simp
qed

text \<open>XOR-MAPPED-ADDRESS masks and unmasks: applying the mask twice with the
  same transaction id gives the address back, for both address families, and the
  masked address is again well formed.\<close>

lemma xor_address_involution:
  assumes "sa_wf sa" "length txn = 12"
  shows "xor_address (xor_address sa txn) txn = sa_plain sa \<and> sa_wf (xor_address sa txn)"
  using xor_address_invol [OF assms] xor_address_wf [OF assms] by simp

lemma xor_address_involution_witness:
  "xor_address (xor_address (SockV4 [192, 168, 1, 1] 8080) example_txn) example_txn = SockV4 [192, 168, 1, 1] 8080"
  using xor_address_involution [of "SockV4 [192, 168, 1, 1] 8080" example_txn]
  by (simp add: sa_wf_def sa_plain_def example_txn_def)

end
