(* ===== verification/Stun_Service.thy ===== *)
theory Stun_Service
  imports Stun_Message
begin

text \<open>
  The STUN client (\<open>stun/src/client.rs\<close>) and server (\<open>stun/src/server.rs\<close>).  Datagrams, timeouts
  and socket errors are explicit event lists; random transaction ids and name resolution
  are arguments.  Connection slots of the server are a step relation, one
  step per atomic counter operation, so that every interleaving is covered.
\<close>

section \<open>Client\<close>

fun find_error_code :: "attribute list \<Rightarrow> (u16 \<times> bytes) option" where
  "find_error_code [] = None"
| "find_error_code (ErrorCode c r # as) = Some (c, r)"
| "find_error_code (a # as) = find_error_code as"

definition validate_response :: "stun_message \<Rightarrow> stun_message \<Rightarrow> stun_error + socket_addr" where
  "validate_response request response =
     (if txn_id response \<noteq> txn_id request then Inl TransactionMismatch
      else (case msg_type response of
          BindingResponse \<Rightarrow> mapped_address response
        | BindingError \<Rightarrow> (case find_error_code (attrs response) of
              Some (c, r) \<Rightarrow> Inl (ErrorResponse c r)
            | None \<Rightarrow> Inl (ErrorResponse 0 (as_bytes ''error response without ERROR-CODE'')))
        | BindingRequest \<Rightarrow> Inl (InvalidMsg ''request sent as response'')))"

definition UDP_RETRIES_MS :: "nat list" where
  "UDP_RETRIES_MS = [500, 1000, 2000]"

text \<open>What a wait on the query socket can yield: a datagram with its sender, a
  socket error, or the end of the waiting window.\<close>

datatype udp_ev = UdpDatagram bytes socket_addr | UdpFail net_error | WindowEnd

fun await_udp_response ::
  "socket_addr \<Rightarrow> stun_message \<Rightarrow> udp_ev list \<Rightarrow> (stun_error + socket_addr) option poll \<times> udp_ev list" where
  "await_udp_response server request [] = (Pending, [])"
| "await_udp_response server request (WindowEnd # es) = (Ready None, es)"
| "await_udp_response server request (UdpFail e # es) = (Ready (Some (Inl (KaryonNet e))), es)"
| "await_udp_response server request (UdpDatagram d from # es) =
     (if from \<noteq> server then await_udp_response server request es
      else (case stun_decode (take 1500 d) of
          Inr (Some (_, msg)) \<Rightarrow> (case validate_response request msg of
              Inl TransactionMismatch \<Rightarrow> await_udp_response server request es
            | res \<Rightarrow> (Ready (Some res), es))
        | _ \<Rightarrow> await_udp_response server request es))"

text \<open>The retransmission loop of \<open>discover_udp\<close>; \<open>send_err ms\<close> is the error of the send
  that starts the window of \<open>ms\<close> milliseconds.\<close>

fun udp_attempts ::
  "(nat \<Rightarrow> net_error option) \<Rightarrow> socket_addr \<Rightarrow> stun_message \<Rightarrow> nat list \<Rightarrow> udp_ev list
     \<Rightarrow> (stun_error + socket_addr) poll \<times> udp_ev list" where
  "udp_attempts send_err server request [] es = (Ready (Inl StunTimeout), es)"
| "udp_attempts send_err server request (ms # rest) es = (case send_err ms of
      Some e \<Rightarrow> (Ready (Inl (KaryonNet e)), es)
    | None \<Rightarrow> (case await_udp_response server request es of
          (Pending, es') \<Rightarrow> (Pending, es')
        | (Ready (Some res), es') \<Rightarrow> (Ready res, es')
        | (Ready None, es') \<Rightarrow> udp_attempts send_err server request rest es'))"

text \<open>\<open>try_from\<close> is the conversion of the server endpoint, \<open>bind\<close> the error of opening
  the local socket, if any.\<close>

definition discover_udp ::
  "net_error + socket_addr \<Rightarrow> net_error option \<Rightarrow> (nat \<Rightarrow> net_error option) \<Rightarrow> transaction_id \<Rightarrow> udp_ev list
     \<Rightarrow> (stun_error + socket_addr) poll" where
  "discover_udp try_from bind send_err txn es = (case try_from of
      Inl e \<Rightarrow> Ready (Inl (KaryonNet e))
    | Inr server \<Rightarrow> (case bind of
        Some e \<Rightarrow> Ready (Inl (KaryonNet e))
      | None \<Rightarrow> (let request = binding_request txn in
          case stun_encode request of
            Inl e \<Rightarrow> Ready (Inl e)
          | Inr encoded \<Rightarrow> fst (udp_attempts send_err server request UDP_RETRIES_MS es))))"

definition query_stream ::
  "io_error option \<Rightarrow> transaction_id \<Rightarrow> write_ev list \<Rightarrow> read_ev list \<Rightarrow> (stun_error + socket_addr) poll" where
  "query_stream fl txn ws rs = (let request = binding_request txn in
     case send_msg stun_codec_encode stun_into_net fl request ws [] [] of
       (Sent, _) \<Rightarrow> (case recv_msg stun_codec_decode stun_into_net rs [] of
           (Got msg, _) \<Rightarrow> Ready (validate_response request msg)
         | (RecvErr e, _) \<Rightarrow> Ready (Inl (KaryonNet e))
         | (_, _) \<Rightarrow> Pending)
     | (SendErr e, _) \<Rightarrow> Ready (Inl (KaryonNet e))
     | (_, _) \<Rightarrow> Pending)"

section \<open>Server\<close>

definition handle_binding :: "stun_message \<Rightarrow> socket_addr \<Rightarrow> bytes option \<Rightarrow> stun_message" where
  "handle_binding msg source software = (let resp = binding_response msg source in
     case software of Some s \<Rightarrow> resp\<lparr>attrs := attrs resp @ [Software s]\<rparr> | None \<Rightarrow> resp)"

text \<open>One turn of \<open>udp_loop\<close>: the datagram that is sent back, if any.\<close>

definition udp_serve :: "bytes option \<Rightarrow> udp_ev \<Rightarrow> (bytes \<times> socket_addr) option" where
  "udp_serve software ev = (case ev of
      UdpDatagram d source \<Rightarrow> (case stun_decode (take 1500 d) of
          Inr (Some (_, msg)) \<Rightarrow>
            if msg_type msg \<noteq> BindingRequest then None
            else (case stun_encode (handle_binding msg source software) of
                Inr bs \<Rightarrow> Some (bs, source) | Inl _ \<Rightarrow> None)
        | _ \<Rightarrow> None)
    | _ \<Rightarrow> None)"

definition udp_loop :: "bytes option \<Rightarrow> udp_ev list \<Rightarrow> (bytes \<times> socket_addr) list" where
  "udp_loop software evs = List.map_filter (udp_serve software) evs"

text \<open>Bytes a reader has still to see; the stream loop consumes at least a header
  in each turn.\<close>

fun pending_bytes :: "read_ev list \<Rightarrow> nat" where
  "pending_bytes [] = 0"
| "pending_bytes (ReadOk bs # rs) = length bs + pending_bytes rs"
| "pending_bytes (ReadErr e # rs) = pending_bytes rs"

lemma decode_buffered_consumes:
  assumes "\<And>b n m. dec b = Inr (Some (n, m)) \<Longrightarrow> 0 < n"
    and "decode_buffered dec into buf = Some (Got m, buf')"
  shows "length buf' < length buf"
  using assms(2) assms(1) [of buf]
  by (auto simp: decode_buffered_def buffer_advance_def split: sum.splits option.splits if_splits)

lemma recv_loop_consumes:
  assumes "\<And>b n m. dec b = Inr (Some (n, m)) \<Longrightarrow> 0 < n"
    and "recv_loop dec into rs buf = (Got m, buf', rs')"
  shows "length buf' + pending_bytes rs' < length buf + pending_bytes rs"
  using assms(2)
proof (induction rs arbitrary: buf)
  case (Cons r rs)
  obtain bs where r: "r = ReadOk bs" "bs \<noteq> []"
    using Cons.prems by (cases r) (auto split: if_splits)
  show ?case
  proof (cases "decode_buffered dec into (buffer_extend buf bs)")
    case None
    then show ?thesis
      using Cons.IH [of "buffer_extend buf bs"] Cons.prems r by (simp add: buffer_extend_def)
  next
    case (Some x)
    then have "x = (Got m, buf')" "rs' = rs"
      using Cons.prems r by (cases x; simp)+
    then show ?thesis
      using decode_buffered_consumes [of dec, OF assms(1)] Some r by (fastforce simp: buffer_extend_def)
  qed
qed simp

lemma recv_msg_consumes:
  assumes "\<And>b n m. dec b = Inr (Some (n, m)) \<Longrightarrow> 0 < n"
    and "recv_msg dec into rs buf = (Got m, buf', rs')"
  shows "length buf' + pending_bytes rs' < length buf + pending_bytes rs"
  using recv_loop_consumes [of dec, OF assms(1)] decode_buffered_consumes [of dec, OF assms(1)] assms(2)
  by (auto simp: recv_msg_def split: option.splits prod.splits)

lemma stun_codec_decode_pos: "stun_codec_decode b = Inr (Some (n, m)) \<Longrightarrow> 0 < n"
  by (auto simp: stun_codec_decode_def stun_decode_def Let_def res_bind_eq_Inr HEADER_SIZE_def split: if_splits)

lemma stun_recv_consumes:
  assumes "(Got m, buf', rs') = recv_msg stun_codec_decode into rs buf"
  shows "length buf' + pending_bytes rs' < length buf + pending_bytes rs"
  using recv_msg_consumes [of stun_codec_decode, OF stun_codec_decode_pos assms [symmetric]] .

text \<open>\<open>stream_conn_loop\<close> after the peer address is known.  When the events are used
  up the idle timeout closes the stream.  The result is how the task ends
  (\<^term>\<open>Pending\<close> when a response is still being written) and the bytes written.\<close>

function stream_conn_loop ::
  "bytes option \<Rightarrow> socket_addr \<Rightarrow> write_ev list \<Rightarrow> read_ev list \<Rightarrow> buffer \<Rightarrow> buffer \<Rightarrow> bytes
     \<Rightarrow> (stun_error + unit) poll \<times> bytes" where
  "stream_conn_loop software source ws rs rbuf wbuf out =
     (case recv_msg stun_codec_decode stun_into_net rs rbuf of
        (Got msg, rbuf', rs') \<Rightarrow>
          if msg_type msg \<noteq> BindingRequest then stream_conn_loop software source ws rs' rbuf' wbuf out
          else (case send_msg stun_codec_encode stun_into_net None (handle_binding msg source software) ws wbuf out of
              (Sent, wbuf', out', ws') \<Rightarrow> stream_conn_loop software source ws' rs' rbuf' wbuf' out'
            | (SendErr e, wbuf', out', ws') \<Rightarrow> (Ready (Inl (KaryonNet e)), out')
            | (_, wbuf', out', ws') \<Rightarrow> (Pending, out'))
      | _ \<Rightarrow> (Ready (Inr ()), out))"
  by pat_completeness auto
termination
  by (relation "measure (\<lambda>(sw, src, ws, rs, rbuf, wbuf, out). length rbuf + pending_bytes rs)")
    (auto dest: stun_recv_consumes)

declare stream_conn_loop.simps [simp del]

section \<open>Connection slots\<close>

text \<open>The counter, the slots handed out, and the refused connections whose slot
  object is not dropped yet.\<close>

record slots =
  conns :: nat
  held :: nat
  refused :: nat

definition slots_init :: slots where
  "slots_init = \<lparr>conns = 0, held = 0, refused = 0\<rparr>"

inductive slot_step :: "nat \<Rightarrow> slots \<Rightarrow> slots \<Rightarrow> bool" for max_connections :: nat where
  take_slot: "conns s < max_connections \<Longrightarrow>
     slot_step max_connections s (s\<lparr>conns := conns s + 1, held := held s + 1\<rparr>)"
| take_slot_full: "\<not> conns s < max_connections \<Longrightarrow>
     slot_step max_connections s (s\<lparr>conns := conns s + 1, refused := refused s + 1\<rparr>)"
| drop_refused: "0 < refused s \<Longrightarrow>
     slot_step max_connections s (s\<lparr>conns := conns s - 1, refused := refused s - 1\<rparr>)"
| drop_held: "0 < held s \<Longrightarrow>
     slot_step max_connections s (s\<lparr>conns := conns s - 1, held := held s - 1\<rparr>)"

inductive_cases slot_stepE: "slot_step mx s t"

definition slots_inv :: "nat \<Rightarrow> slots \<Rightarrow> bool" where
  "slots_inv max_connections s \<longleftrightarrow> conns s = held s + refused s \<and> held s \<le> max_connections"

interpretation slot_sys: step_invariant "slot_step mx" "slots_inv mx" for mx
  by unfold_locales (auto simp: slots_inv_def elim!: slot_stepE)

section \<open>Lemmas\<close>

lemma binding_request_ok: "length txn = 12 \<Longrightarrow> msg_ok (binding_request txn)"
  by (simp add: msg_ok_def binding_request_def body_bytes_def)

lemma binding_request_frame:
  "length txn = 12 \<Longrightarrow> length (stun_frame (binding_request txn)) = 20"
  by (simp add: stun_frame_length binding_request_ok HEADER_SIZE_def body_bytes_def)
     (simp add: binding_request_def)

lemma binding_request_seen [simp]: "msg_seen (binding_request txn) = binding_request txn"
  by (simp add: msg_seen_def binding_request_def)

definition software_ok :: "bytes option \<Rightarrow> bool" where
  "software_ok software \<longleftrightarrow> (case software of None \<Rightarrow> True | Some s \<Rightarrow> utf8_valid s \<and> length s \<le> 1448)"

lemma attr_bytes_address_length:
  "sa_wf sa \<Longrightarrow> length txn = 12 \<Longrightarrow> length (attr_bytes txn (XorMappedAddress sa)) \<le> 24"
  using xor_address_wf [of sa txn]
  by (auto simp: attr_bytes_def encode_address_def sa_wf_def pad_len_def split: ip_addr.splits)

lemma attr_bytes_software_length:
  "length s \<le> 1448 \<Longrightarrow> length (attr_bytes txn (Software s)) \<le> 1452"
proof -
  have "length (attr_bytes txn (Software s)) = 4 + padded_len (length s)"
    by (simp add: attr_bytes_def padded_eq)
  moreover assume "length s \<le> 1448"
  ultimately show ?thesis by (simp add: padded_len_def)
qed

lemma handle_binding_simps [simp]:
  "msg_type (handle_binding msg source sw) = BindingResponse"
  "txn_id (handle_binding msg source sw) = txn_id msg"
  "attrs (handle_binding msg source sw) =
     XorMappedAddress source # (case sw of None \<Rightarrow> [] | Some s \<Rightarrow> [Software s])"
  by (auto simp: handle_binding_def binding_response_def Let_def split: option.splits)

lemma handle_binding_ok:
  assumes "sa_wf source" "length (txn_id msg) = 12" "software_ok sw"
  shows "msg_ok (handle_binding msg source sw)"
    and "length (stun_frame (handle_binding msg source sw)) \<le> 1500"
proof -
  have b: "length (body_bytes (handle_binding msg source sw)) \<le> 1476"
    using attr_bytes_address_length [OF assms(1,2)] attr_bytes_software_length [of _ "txn_id msg"] assms(3)
    by (fastforce simp: body_bytes_def software_ok_def split: option.splits)
  then show ok: "msg_ok (handle_binding msg source sw)"
    using assms by (auto simp: msg_ok_def software_ok_def split: option.splits)
  show "length (stun_frame (handle_binding msg source sw)) \<le> 1500"
    using b stun_frame_length [OF ok] by (simp add: HEADER_SIZE_def)
qed

lemma validate_handle_binding:
  "txn_id msg = txn_id request \<Longrightarrow>
     validate_response request (msg_seen (handle_binding msg source sw)) = Inr (sa_plain source)"
  by (simp add: validate_response_def mapped_address_def msg_seen_def)

lemma udp_serve_request:
  assumes "sa_wf source" "length txn = 12" "software_ok sw" "stun_encode (binding_request txn) = Inr wire"
  shows "udp_serve sw (UdpDatagram wire source) =
    Some (stun_frame (handle_binding (binding_request txn) source sw), source)"
proof -
  have w: "wire = stun_frame (binding_request txn)"
    using stun_encode_ok [OF binding_request_ok [OF assms(2)]] assms(4) by simp
  then have "stun_decode (take 1500 wire) = Inr (Some (20, binding_request txn))"
    using stun_decode_ok [OF binding_request_ok [OF assms(2)], of "[]"] binding_request_frame [OF assms(2)] by simp
  moreover have "txn_id (binding_request txn) = txn" "msg_type (binding_request txn) = BindingRequest"
    by (simp_all add: binding_request_def)
  ultimately show ?thesis
    using handle_binding_ok [OF assms(1) _ assms(3), of "binding_request txn"] assms(2)
    by (simp add: udp_serve_def stun_encode_ok)
qed

lemma await_skips:
  assumes "list_all (\<lambda>ev. \<exists>d from. ev = UdpDatagram d from \<and> from \<noteq> server) noise"
  shows "await_udp_response server request (noise @ es) = await_udp_response server request es"
  using assms by (induction noise) auto

lemma validate_mismatch: "validate_response r m = Inl TransactionMismatch \<longleftrightarrow> txn_id m \<noteq> txn_id r"
  by (auto simp: validate_response_def mapped_address_def split: message_type.splits option.splits)

lemma await_datagram:
  "await_udp_response server request (UdpDatagram d server # es) = (case stun_decode (take 1500 d) of
      Inr (Some (n, m)) \<Rightarrow> if txn_id m \<noteq> txn_id request then await_udp_response server request es
        else (Ready (Some (validate_response request m)), es)
    | _ \<Rightarrow> await_udp_response server request es)"
proof -
  have "(case v of Inl TransactionMismatch \<Rightarrow> A | res \<Rightarrow> (Ready (Some res), es)) =
      (if v = Inl TransactionMismatch then A else (Ready (Some v), es))"
    for v :: "stun_error + socket_addr" and A
    by (cases v) (auto split: stun_error.splits)
  then show ?thesis
    by (simp add: validate_mismatch cong: sum.case_cong option.case_cong)
qed

lemma await_sound:
  assumes "await_udp_response server request es = (Ready (Some (Inr sa)), rest)"
  shows "\<exists>d n m. UdpDatagram d server \<in> set es \<and> stun_decode (take 1500 d) = Inr (Some (n, m))
    \<and> txn_id m = txn_id request \<and> msg_type m = BindingResponse \<and> mapped_address m = Inr sa"
  using assms
proof (induction es)
  case (Cons ev es)
  consider (skip) "await_udp_response server request es = (Ready (Some (Inr sa)), rest)"
    | (hit) d n m where "ev = UdpDatagram d server" "stun_decode (take 1500 d) = Inr (Some (n, m))"
        "txn_id m = txn_id request" "validate_response request m = Inr sa"
  proof (cases ev)
    case (UdpDatagram d frm)
    show ?thesis
    proof (cases "frm = server")
      case True
      then show ?thesis
        using Cons.prems UdpDatagram that
        by (auto simp: await_datagram simp del: await_udp_response.simps split: sum.splits option.splits if_splits)
    qed (use Cons.prems UdpDatagram that in simp)
  qed (use Cons.prems that in auto)
  then show ?case
  proof cases
    case skip
    then show ?thesis using Cons.IH by auto
  next
    case hit
    then show ?thesis
      by (force simp: validate_response_def split: message_type.splits option.splits)
  qed
qed simp

lemma await_rest: "set (snd (await_udp_response server request es)) \<subseteq> set es"
proof (induction es)
  case (Cons ev es)
  show ?case
  proof (cases ev)
    case (UdpDatagram d frm)
    then show ?thesis
      using Cons by (cases "frm = server")
        (auto simp: await_datagram simp del: await_udp_response.simps(4) split: sum.splits option.splits, auto)
  qed (use Cons in auto)
qed simp

lemma attempts_sound:
  assumes "udp_attempts send_err server req wins es = (Ready (Inr sa), rest)"
  shows "\<exists>d n m. UdpDatagram d server \<in> set es \<and> stun_decode (take 1500 d) = Inr (Some (n, m))
    \<and> txn_id m = txn_id req \<and> msg_type m = BindingResponse \<and> mapped_address m = Inr sa"
  using assms
proof (induction wins arbitrary: es)
  case (Cons w wins)
  have w: "send_err w = None"
    using Cons.prems by (auto split: option.splits)
  obtain p es' where a: "await_udp_response server req es = (p, es')" by fastforce
  then have sub: "set es' \<subseteq> set es" using await_rest [of server req es] by simp
  show ?case
  proof (cases "p = Ready None")
    case True
    then have "udp_attempts send_err server req wins es' = (Ready (Inr sa), rest)"
      using Cons.prems w a by simp
    then show ?thesis using Cons.IH sub by blast
  next
    case False
    then have "p = Ready (Some (Inr sa))"
      using Cons.prems w a by (auto split: poll.splits option.splits)
    then show ?thesis using await_sound a by blast
  qed
qed simp

section \<open>Properties\<close>

text \<open>C22. The service does its job: for a request datagram, with stray datagrams from other
  hosts around it, the server answers the sender, and the client that sent the
  request obtains the address from which the server saw it.\<close>

theorem stun_discovers_source:
  assumes "sa_wf source" "length txn = 12" "software_ok sw"
    and "stun_encode (binding_request txn) = Inr wire"
    and "list_all (\<lambda>ev. \<exists>d from. ev = UdpDatagram d from \<and> from \<noteq> server) noise"
  shows "\<exists>reply. udp_loop sw [UdpDatagram wire source] = [(reply, source)]
    \<and> discover_udp (Inr server) None (\<lambda>_. None) txn (noise @ UdpDatagram reply server # es) = Ready (Inr (sa_plain source))"
proof -
  let ?req = "binding_request txn" and ?reply = "stun_frame (handle_binding (binding_request txn) source sw)"
  have t: "txn_id ?req = txn" by (simp add: binding_request_def)
  note ok = handle_binding_ok [OF assms(1) _ assms(3), of ?req, unfolded t, OF assms(2)]
  have dec: "stun_decode (take 1500 ?reply) =
      Inr (Some (length ?reply, msg_seen (handle_binding ?req source sw)))"
    using stun_decode_ok [OF ok(1), of "[]"] ok(2) by simp
  have "await_udp_response server ?req (noise @ UdpDatagram ?reply server # es) =
      (Ready (Some (Inr (sa_plain source))), es)"
    using dec validate_handle_binding [of ?req ?req source sw] await_skips [OF assms(5)] by simp
  then have "discover_udp (Inr server) None (\<lambda>_. None) txn (noise @ UdpDatagram ?reply server # es) =
      Ready (Inr (sa_plain source))"
    using assms(4) by (simp add: discover_udp_def UDP_RETRIES_MS_def)
  then show ?thesis
    using udp_serve_request [OF assms(1-4)] by (auto simp: udp_loop_def List.map_filter_def)
qed

theorem stun_discovers_source_witness:
  "\<exists>wire reply. stun_encode (binding_request example_txn) = Inr wire
    \<and> udp_loop None [UdpDatagram wire (SockV4 [203, 0, 113, 9] 54321)] = [(reply, SockV4 [203, 0, 113, 9] 54321)]
    \<and> discover_udp (Inr (SockV4 [10, 0, 0, 1] 3478)) None (\<lambda>_. None) example_txn
        [UdpDatagram [1, 2] (SockV4 [6, 6, 6, 6] 1), UdpDatagram reply (SockV4 [10, 0, 0, 1] 3478)]
      = Ready (Inr (SockV4 [203, 0, 113, 9] 54321))"
proof -
  have l: "length example_txn = 12" by (simp add: example_txn_def)
  show ?thesis
    using stun_discovers_source [of "SockV4 [203, 0, 113, 9] 54321" example_txn None _ "SockV4 [10, 0, 0, 1] 3478"
        "[UdpDatagram [1, 2] (SockV4 [6, 6, 6, 6] 1)]" "[]", OF _ l]
      stun_encode_ok [OF binding_request_ok [OF l]]
    by (auto simp: sa_wf_def software_ok_def sa_plain_def)
qed

text \<open>C23. The client trusts only its server: an address it returns comes from a Binding
  Response that arrived from the queried server and carries the transaction id of the
  request.\<close>

theorem discover_authentic:
  assumes "discover_udp (Inr server) bind send_err txn es = Ready (Inr sa)"
  shows "\<exists>d n m. UdpDatagram d server \<in> set es \<and> stun_decode (take 1500 d) = Inr (Some (n, m))
    \<and> txn_id m = txn \<and> msg_type m = BindingResponse \<and> mapped_address m = Inr sa"
proof -
  have "\<exists>rest. udp_attempts send_err server (binding_request txn) UDP_RETRIES_MS es = (Ready (Inr sa), rest)"
    using assms by (auto simp: discover_udp_def Let_def prod_eq_iff split: option.splits sum.splits)
  moreover have "txn_id (binding_request txn) = txn" by (simp add: binding_request_def)
  ultimately show ?thesis using attempts_sound by fastforce
qed

theorem discover_authentic_witness:
  "\<exists>d n m. UdpDatagram d (SockV4 [10, 0, 0, 1] 3478) \<in>
      set [UdpDatagram (stun_frame example_msg) (SockV4 [10, 0, 0, 1] 3478)]
    \<and> stun_decode (take 1500 d) = Inr (Some (n, m)) \<and> txn_id m = example_txn
    \<and> msg_type m = BindingResponse \<and> mapped_address m = Inr (SockV4 [203, 0, 113, 9] 54321)"
proof (rule discover_authentic)
  have l: "length example_txn = 12" by (simp add: example_txn_def)
  have "length (stun_frame example_msg) \<le> 1500"
    using stun_frame_length [OF example_msg_ok]
    by (simp add: HEADER_SIZE_def body_bytes_def example_msg_def attr_bytes_def sa_wf_def
        xor_address_def Let_def encode_error_def encode_address_def pad_len_def u32_to_be_bytes_def)
  moreover have "msg_seen example_msg = example_msg"
    by (simp add: msg_seen_def example_msg_def sa_plain_def)
  ultimately have "stun_decode (take 1500 (stun_frame example_msg)) =
      Inr (Some (length (stun_frame example_msg), example_msg))"
    using stun_decode_ok [OF example_msg_ok, of "[]"] by simp
  then show "discover_udp (Inr (SockV4 [10, 0, 0, 1] 3478)) None (\<lambda>_. None) example_txn
      [UdpDatagram (stun_frame example_msg) (SockV4 [10, 0, 0, 1] 3478)] = Ready (Inr (SockV4 [203, 0, 113, 9] 54321))"
    using stun_encode_ok [OF binding_request_ok [OF l]]
    by (simp add: discover_udp_def UDP_RETRIES_MS_def validate_response_def mapped_address_def)
      (simp add: binding_request_def example_msg_def mapped_address_def Let_def)
qed

text \<open>Connection slots: whatever the interleaving of accepts, refusals and
  closes, the server never serves more streams than \<open>max_connections\<close>, and the counter
  never goes below zero when a slot is dropped.\<close>

lemma slots_bounded:
  assumes "(slot_step max_connections)\<^sup>*\<^sup>* slots_init s"
  shows "held s \<le> max_connections \<and> (0 < held s \<or> 0 < refused s \<longrightarrow> 0 < conns s)"
  using slot_sys.reachable_inv [OF assms] by (auto simp: slots_inv_def slots_init_def)

lemma slots_bounded_witness:
  "held \<lparr>conns = 2, held = 1, refused = 1\<rparr> \<le> 1 \<and> 0 < conns \<lparr>conns = 2, held = 1, refused = 1\<rparr>"
proof -
  have "slot_step 1 slots_init \<lparr>conns = 1, held = 1, refused = 0\<rparr>"
    using take_slot [of slots_init 1] by (simp add: slots_init_def)
  moreover have "slot_step 1 \<lparr>conns = 1, held = 1, refused = 0\<rparr> \<lparr>conns = 2, held = 1, refused = 1\<rparr>"
    using take_slot_full [of "\<lparr>conns = 1, held = 1, refused = 0\<rparr>" 1] by (simp add: numeral_2_eq_2)
  ultimately have "(slot_step 1)\<^sup>*\<^sup>* slots_init \<lparr>conns = 2, held = 1, refused = 1\<rparr>"
    by (rule converse_rtranclp_into_rtranclp [OF _ r_into_rtranclp])
  from slots_bounded [OF this] show ?thesis by simp
qed

end
