(* ===== verification/P2p_Types.thy ===== *)
theory P2p_Types
  imports Net_Addr
begin

text \<open>
  Data shared by the \<open>p2p\<close> crate: errors (\<open>p2p/src/error.rs\<close>), peer addresses and
  endpoint selection (\<open>p2p/src/message.rs\<close>), protocol flags (\<open>p2p/src/protocol/mod.rs\<close>), access control
  (\<open>p2p/src/access_control.rs\<close>, \<open>p2p/src/conn_direction.rs\<close>).
\<close>

section \<open>Errors\<close>

datatype p2p_error =
    P2pIO io_error
  | UnsupportedProtocol string
  | P2pUnsupportedEndpoint string
  | InvalidEndpoint string
  | PeerIDTryFromPublicKey
  | PeerIDTryFromString
  | P2pInvalidMsg string
  | IncompatiblePeer
  | IncompatibleVersion string
  | P2pTimeout
  | ParseError string
  | ConfigError string
  | PeerShutdown
  | InvalidPongMsg
  | PeerAlreadyConnected
  | AccessDenied
  | PeerNotFound string
  | DiscoveryError string
  | LookupError string
  | ChannelSend string
  | ChannelRecv
  | ParseIntError string
  | Base64Decode string
  | P2pBincodeDecode string
  | P2pBincodeEncode string
  | ParseFloatError string
  | SemverError string
  | Yasna string
  | RandError
  | X509Parser string
  | Rcgen string
  | RustlsError string
  | P2pInvalidDnsName string
  | P2pCore core_error
  | P2pNet net_error
  | KaryonEventEmitter string

section \<open>Peer identifiers and addresses\<close>

text \<open>\<open>PeerID\<close> and the routing \<open>Key\<close> are arrays of 32 bytes.\<close>

type_synonym peer_id = bytes

datatype transport = TcpT | TlsT | UdpT | QuicT

record peer_addr =
  pa_addr :: addr
  pa_port :: u16
  pa_protocol :: transport
  pa_priority :: u16

definition to_endpoint :: "peer_addr \<Rightarrow> endpoint" where
  "to_endpoint p = (case pa_protocol p of
      TcpT \<Rightarrow> Tcp (pa_addr p) (pa_port p)
    | TlsT \<Rightarrow> Tls (pa_addr p) (pa_port p)
    | UdpT \<Rightarrow> Udp (pa_addr p) (pa_port p)
    | QuicT \<Rightarrow> Quic (pa_addr p) (pa_port p))"

definition from_endpoint :: "endpoint \<Rightarrow> u16 \<Rightarrow> peer_addr option" where
  "from_endpoint e priority = (case e of
      Tcp a p \<Rightarrow> Some \<lparr>pa_addr = a, pa_port = p, pa_protocol = TcpT, pa_priority = priority\<rparr>
    | Tls a p \<Rightarrow> Some \<lparr>pa_addr = a, pa_port = p, pa_protocol = TlsT, pa_priority = priority\<rparr>
    | Udp a p \<Rightarrow> Some \<lparr>pa_addr = a, pa_port = p, pa_protocol = UdpT, pa_priority = priority\<rparr>
    | Quic a p \<Rightarrow> Some \<lparr>pa_addr = a, pa_port = p, pa_protocol = QuicT, pa_priority = priority\<rparr>
    | _ \<Rightarrow> None)"

text \<open>\<open>Iterator::min_by_key\<close>: the first of the elements with the least key.\<close>

fun min_by_key :: "('a \<Rightarrow> 'k::linorder) \<Rightarrow> 'a list \<Rightarrow> 'a option" where
  "min_by_key f [] = None"
| "min_by_key f (x # xs) = (case min_by_key f xs of
      None \<Rightarrow> Some x
    | Some y \<Rightarrow> if f y < f x then Some y else Some x)"

definition pick_endpoint :: "peer_addr list \<Rightarrow> transport list \<Rightarrow> endpoint option" where
  "pick_endpoint addrs supported =
     map_option to_endpoint (min_by_key pa_priority (filter (\<lambda>a. pa_protocol a \<in> set supported) addrs))"

section \<open>Protocol flags\<close>

type_synonym protocol_id = string
type_synonym protocol_flags = u32

definition REQUIRED :: protocol_flags where "REQUIRED = push_bit 0 1"
definition PREFERRED :: protocol_flags where "PREFERRED = push_bit 1 1"
definition USER :: protocol_flags where "USER = push_bit 16 1"
definition flags_empty :: protocol_flags where "flags_empty = 0"

definition flags_contains :: "protocol_flags \<Rightarrow> protocol_flags \<Rightarrow> bool" where
  "flags_contains self other \<longleftrightarrow> self AND other = other"

section \<open>Access control\<close>

datatype conn_direction = Inbound | Outbound

record peer_candidate =
  cand_peer_id :: peer_id
  cand_remote_endpoint :: endpoint
  cand_negotiated_protocols :: "protocol_id list"

datatype subject = SubjEndpoint endpoint | SubjPeer peer_candidate

datatype action = ActConnect conn_direction | ActLookup conn_direction | ActProbe conn_direction

type_synonym access_control = "subject \<Rightarrow> action \<Rightarrow> bool"

definition allow_all :: access_control where
  "allow_all subj act = True"

section \<open>Lemmas\<close>

lemma min_by_key_None [simp]: "min_by_key f xs = None \<longleftrightarrow> xs = []"
  by (cases xs) (auto split: option.splits if_splits)

lemma min_by_key_Some:
  "min_by_key f xs = Some x \<Longrightarrow> x \<in> set xs \<and> (\<forall>y \<in> set xs. f x \<le> f y)"
  by (induction xs arbitrary: x) (force split: option.splits if_splits)+

lemma from_to_endpoint: "from_endpoint (to_endpoint p) (pa_priority p) = Some p"
  by (cases "pa_protocol p") (auto simp: from_endpoint_def to_endpoint_def)

lemma to_from_endpoint: "from_endpoint e pr = Some p \<Longrightarrow> to_endpoint p = e \<and> pa_priority p = pr"
  by (cases e) (auto simp: from_endpoint_def to_endpoint_def)

section \<open>Properties\<close>

text \<open>Endpoint selection: \<open>pick_endpoint\<close> finds nothing exactly when no address uses a
  supported transport; otherwise it returns an address of the list that uses
  one, and no supported address has a better (lower) priority.\<close>

lemma pick_endpoint_best:
  "(pick_endpoint addrs supported = None \<longleftrightarrow> (\<forall>a \<in> set addrs. pa_protocol a \<notin> set supported))
   \<and> (\<forall>e. pick_endpoint addrs supported = Some e \<longrightarrow>
        (\<exists>a \<in> set addrs. pa_protocol a \<in> set supported \<and> e = to_endpoint a
           \<and> (\<forall>b \<in> set addrs. pa_protocol b \<in> set supported \<longrightarrow> pa_priority a \<le> pa_priority b)))"
  by (auto simp: pick_endpoint_def filter_empty_conv dest!: min_by_key_Some)

lemma pick_endpoint_best_witness:
  "\<exists>a \<in> set [\<lparr>pa_addr = Domain ''x'', pa_port = 1, pa_protocol = UdpT, pa_priority = 7\<rparr>,
             \<lparr>pa_addr = Domain ''y'', pa_port = 2, pa_protocol = TcpT, pa_priority = 3\<rparr>].
     pa_protocol a \<in> set [TcpT] \<and> Tcp (Domain ''y'') 2 = to_endpoint a"
  using pick_endpoint_best [of "[\<lparr>pa_addr = Domain ''x'', pa_port = 1, pa_protocol = UdpT, pa_priority = 7\<rparr>,
             \<lparr>pa_addr = Domain ''y'', pa_port = 2, pa_protocol = TcpT, pa_priority = 3\<rparr>]" "[TcpT]"]
  by (simp add: pick_endpoint_def to_endpoint_def)

end
