(* ===== verification/Kad_Bloom.thy ===== *)
theory Kad_Bloom
  imports P2p_Types
begin

text \<open>
  Protocol bloom filters of Kademlia discovery (\<open>p2p/src/discovery/kademlia/bloom.rs\<close>).
  The hash of the external siphasher crate is the argument \<open>sip\<close>, a function from bytes to
  64 bits; nothing is assumed of it.
\<close>

type_synonym bloom = u128

definition item_mask :: "(bytes \<Rightarrow> u64) \<Rightarrow> bytes \<Rightarrow> u128" where
  "item_mask sip item = (let h = sip item;
       a = unat ((ucast h :: u32) mod 128);
       b = unat ((ucast (drop_bit 32 h) :: u32) mod 128)
     in push_bit a 1 OR push_bit b 1)"

definition bloom_add :: "(bytes \<Rightarrow> u64) \<Rightarrow> bytes \<Rightarrow> bloom \<Rightarrow> bloom" where
  "bloom_add sip item b = b OR item_mask sip item"

definition may_contain :: "(bytes \<Rightarrow> u64) \<Rightarrow> bloom \<Rightarrow> bytes \<Rightarrow> bool" where
  "may_contain sip b item = (let m = item_mask sip item in b AND m = m)"

definition bloom_covers :: "bloom \<Rightarrow> bloom \<Rightarrow> bool" where
  "bloom_covers self other \<longleftrightarrow> self AND other = other"

definition bloom_intersects :: "bloom \<Rightarrow> bloom \<Rightarrow> bool" where
  "bloom_intersects self other \<longleftrightarrow> self AND other \<noteq> 0"

definition bloom_is_empty :: "bloom \<Rightarrow> bool" where
  "bloom_is_empty self \<longleftrightarrow> self = 0"

record local_bloom =
  advertised :: bloom
  required :: bloom
  preferred :: bloom

definition local_bloom_default :: local_bloom where
  "local_bloom_default = \<lparr>advertised = 0, required = 0, preferred = 0\<rparr>"

definition bloom_matches :: "local_bloom \<Rightarrow> bloom \<Rightarrow> bool" where
  "bloom_matches self peer =
     (if \<not> bloom_covers peer (required self) then False
      else if bloom_is_empty (preferred self) then True
      else bloom_intersects peer (preferred self))"

definition bloom_ref_add :: "(bytes \<Rightarrow> u64) \<Rightarrow> bytes \<Rightarrow> protocol_flags \<Rightarrow> local_bloom \<Rightarrow> local_bloom" where
  "bloom_ref_add sip item flags l =
     (if flags = flags_empty then l
      else (let l1 = l\<lparr>advertised := bloom_add sip item (advertised l)\<rparr>;
                l2 = (if flags_contains flags REQUIRED then l1\<lparr>required := bloom_add sip item (required l1)\<rparr> else l1)
            in if flags_contains flags PREFERRED then l2\<lparr>preferred := bloom_add sip item (preferred l2)\<rparr> else l2))"

text \<open>The local bloom of a node is the result of the adds for its protocols.\<close>

definition local_bloom_of :: "(bytes \<Rightarrow> u64) \<Rightarrow> (bytes \<times> protocol_flags) list \<Rightarrow> local_bloom" where
  "local_bloom_of sip items = fold (\<lambda>(i, f). bloom_ref_add sip i f) items local_bloom_default"

section \<open>Lemmas\<close>

lemma bloom_bit_bound: "bit b n \<Longrightarrow> n < 128" for b :: bloom
  by (drule bit_imp_le_length) simp

lemma bloom_covers_bit: "bloom_covers a b \<longleftrightarrow> (\<forall>n. bit b n \<longrightarrow> bit a n)"
  by (auto simp: bloom_covers_def bit_eq_iff bit_simps dest: bloom_bit_bound)

lemma bloom_zero_iff: "b = 0 \<longleftrightarrow> (\<forall>n. \<not> bit b n)" for b :: bloom
  by (auto simp: bit_eq_iff dest: bloom_bit_bound)

lemma bloom_covers_refl [simp]: "bloom_covers a a"
  and bloom_covers_zero [simp]: "bloom_covers a 0"
  by (auto simp: bloom_covers_def)

lemma bloom_covers_trans: "bloom_covers a b \<Longrightarrow> bloom_covers b c \<Longrightarrow> bloom_covers a c"
  by (auto simp: bloom_covers_bit)

lemma bloom_covers_or: "bloom_covers a (b OR c) \<longleftrightarrow> bloom_covers a b \<and> bloom_covers a c"
  by (auto simp: bloom_covers_bit bit_simps)

lemma bloom_add_covers: "bloom_covers (bloom_add sip i b) b" "bloom_covers (bloom_add sip i b) (item_mask sip i)"
  by (auto simp: bloom_covers_bit bloom_add_def bit_simps)

lemma may_contain_covers: "may_contain sip b i \<longleftrightarrow> bloom_covers b (item_mask sip i)"
  by (simp add: may_contain_def bloom_covers_def Let_def)

lemma item_mask_nonzero: "item_mask sip i \<noteq> 0"
proof -
  have "unat ((ucast (sip i) :: u32) mod 128) < 128"
    by (simp add: unat_mod_distrib)
  then have "bit (item_mask sip i) (unat ((ucast (sip i) :: u32) mod 128))"
    by (simp add: item_mask_def Let_def bit_simps)
  then show ?thesis by auto
qed

lemma flag_consts: "REQUIRED = 1" "PREFERRED = 2" "flags_empty = 0"
  by (simp_all add: REQUIRED_def PREFERRED_def flags_empty_def)

lemma flags_contains_nonempty:
  "flags_contains f REQUIRED \<Longrightarrow> f \<noteq> flags_empty" "flags_contains f PREFERRED \<Longrightarrow> f \<noteq> flags_empty"
  by (auto simp: flags_contains_def flag_consts)

lemma bloom_ref_add_fields:
  "advertised (bloom_ref_add sip i f l) = (if f = flags_empty then advertised l else bloom_add sip i (advertised l))"
  "required (bloom_ref_add sip i f l) = (if flags_contains f REQUIRED then bloom_add sip i (required l) else required l)"
  "preferred (bloom_ref_add sip i f l) = (if flags_contains f PREFERRED then bloom_add sip i (preferred l) else preferred l)"
  using flags_contains_nonempty [of f] by (auto simp: bloom_ref_add_def Let_def)

text \<open>Each field covers exactly the masks of the items added to it.\<close>

lemma fold_bloom_bit:
  "bit (advertised (fold (\<lambda>(i, f). bloom_ref_add sip i f) items l)) n \<longleftrightarrow>
     bit (advertised l) n \<or> (\<exists>(i, f) \<in> set items. f \<noteq> flags_empty \<and> bit (item_mask sip i) n)"
  "bit (required (fold (\<lambda>(i, f). bloom_ref_add sip i f) items l)) n \<longleftrightarrow>
     bit (required l) n \<or> (\<exists>(i, f) \<in> set items. flags_contains f REQUIRED \<and> bit (item_mask sip i) n)"
  "bit (preferred (fold (\<lambda>(i, f). bloom_ref_add sip i f) items l)) n \<longleftrightarrow>
     bit (preferred l) n \<or> (\<exists>(i, f) \<in> set items. flags_contains f PREFERRED \<and> bit (item_mask sip i) n)"
  by (induction items arbitrary: l)
    (auto simp: bloom_ref_add_fields bloom_add_def bit_simps split: if_splits)

lemma local_bloom_bit:
  "bit (advertised (local_bloom_of sip items)) n \<longleftrightarrow>
     (\<exists>(i, f) \<in> set items. f \<noteq> flags_empty \<and> bit (item_mask sip i) n)"
  "bit (required (local_bloom_of sip items)) n \<longleftrightarrow>
     (\<exists>(i, f) \<in> set items. flags_contains f REQUIRED \<and> bit (item_mask sip i) n)"
  "bit (preferred (local_bloom_of sip items)) n \<longleftrightarrow>
     (\<exists>(i, f) \<in> set items. flags_contains f PREFERRED \<and> bit (item_mask sip i) n)"
  by (simp_all add: local_bloom_of_def fold_bloom_bit local_bloom_default_def)

lemma bloom_intersects_bit: "bloom_intersects a b \<longleftrightarrow> (\<exists>n. bit a n \<and> bit b n)"
  by (auto simp: bloom_intersects_def bloom_zero_iff bit_simps)

lemma item_mask_bit_ex: "\<exists>n. bit (item_mask sip i) n"
  using item_mask_nonzero [of sip i] by (simp add: bloom_zero_iff)

lemma preferred_empty_iff:
  "bloom_is_empty (preferred (local_bloom_of sip items)) \<longleftrightarrow> (\<forall>(i, f) \<in> set items. \<not> flags_contains f PREFERRED)"
  unfolding bloom_is_empty_def bloom_zero_iff local_bloom_bit using item_mask_bit_ex [of sip] by fastforce

section \<open>Properties\<close>

text \<open>C31. The discovery filter has no false negatives: a peer that advertises every item
  this node requires, and at least one item it prefers whenever it prefers any,
  passes \<open>LocalBloom::matches\<close>, whatever the hash function; and every advertised
  item is found by \<open>may_contain\<close>.\<close>

theorem bloom_no_false_negative:
  assumes "\<forall>(i, f) \<in> set mine. flags_contains f REQUIRED \<longrightarrow> (\<exists>g. (i, g) \<in> set theirs \<and> g \<noteq> flags_empty)"
    and "(\<forall>(i, f) \<in> set mine. \<not> flags_contains f PREFERRED) \<or>
         (\<exists>i f g. (i, f) \<in> set mine \<and> flags_contains f PREFERRED \<and> (i, g) \<in> set theirs \<and> g \<noteq> flags_empty)"
  shows "bloom_matches (local_bloom_of sip mine) (advertised (local_bloom_of sip theirs))
    \<and> (\<forall>(i, g) \<in> set theirs. g \<noteq> flags_empty \<longrightarrow> may_contain sip (advertised (local_bloom_of sip theirs)) i)"
proof -
  have "bloom_covers (advertised (local_bloom_of sip theirs)) (required (local_bloom_of sip mine))"
    unfolding bloom_covers_bit local_bloom_bit using assms(1) by fastforce
  moreover have "bloom_is_empty (preferred (local_bloom_of sip mine))
      \<or> bloom_intersects (advertised (local_bloom_of sip theirs)) (preferred (local_bloom_of sip mine))"
    unfolding preferred_empty_iff bloom_intersects_bit local_bloom_bit
    using assms(2) item_mask_bit_ex [of sip] by fastforce
  ultimately have "bloom_matches (local_bloom_of sip mine) (advertised (local_bloom_of sip theirs))"
    by (auto simp: bloom_matches_def)
  moreover have "\<forall>(i, g) \<in> set theirs. g \<noteq> flags_empty \<longrightarrow> may_contain sip (advertised (local_bloom_of sip theirs)) i"
    unfolding may_contain_covers bloom_covers_bit local_bloom_bit by fastforce
  ultimately show ?thesis by blast
qed

theorem bloom_no_false_negative_witness:
  "bloom_matches (local_bloom_of (\<lambda>b. of_nat (length b)) [([7], 1), ([8, 9], 2)])
     (advertised (local_bloom_of (\<lambda>b. of_nat (length b)) [([8, 9], 2), ([7], 1)]))"
proof -
  have "\<exists>i f g. (i, f) \<in> set [([7], 1), ([8, 9], 2 :: u32)] \<and> flags_contains f PREFERRED
      \<and> (i, g) \<in> set [([8, 9], 2 :: u32), ([7 :: u8], 1)] \<and> g \<noteq> flags_empty"
    by (rule exI [of _ "[8, 9]"]) (auto simp: flags_contains_def flag_consts)
  then show ?thesis
    using bloom_no_false_negative [of "[([7], 1), ([8, 9], 2)]" "[([8, 9], 2), ([7], 1)]" "\<lambda>b. of_nat (length b)"]
    by (auto simp: flag_consts)
qed

text \<open>A preferred item does restrict peer selection: a node that prefers some
  item refuses every peer whose advertised filter shares no bit with its preferred
  items, although the peer meets all its requirements.\<close>

lemma preferred_filters_peers:
  assumes "\<exists>i f. (i, f) \<in> set mine \<and> flags_contains f PREFERRED"
    and "bloom_covers peer (required (local_bloom_of sip mine))"
    and "\<not> bloom_intersects peer (preferred (local_bloom_of sip mine))"
  shows "\<not> bloom_matches (local_bloom_of sip mine) peer"
  using assms preferred_empty_iff [of sip mine] by (auto simp: bloom_matches_def)

lemma preferred_filters_peers_witness:
  "\<not> bloom_matches (local_bloom_of (\<lambda>b. 5) [([1], 2)]) 0"
  by (rule preferred_filters_peers)
    (auto simp: flags_contains_def flag_consts bloom_covers_bit local_bloom_bit bloom_intersects_def)

end
