(* ===== verification/Kad_Table.thy ===== *)
theory Kad_Table
  imports Kad_Bloom "HOL-Library.List_Lexorder"
begin

text \<open>
  The Kademlia routing table: entries and XOR distance
  (\<open>p2p/src/discovery/kademlia/routing_table/entry.rs\<close>), buckets (\<open>bucket.rs\<close>) and the table (\<open>mod.rs\<close>).
  The clock and the random order of \<open>sample\<close> are arguments.  The interface that
  buckets and the table share, a store of peers by key, is the locale \<open>peer_store\<close>.
\<close>

section \<open>Entries\<close>

definition KEY_SIZE :: nat where "KEY_SIZE = 32"

type_synonym key = bytes

record entry =
  e_key :: key
  e_addrs :: "peer_addr list"
  e_discovery_addrs :: "peer_addr list"
  e_protocols :: bloom

record peer_msg =
  pm_peer_id :: peer_id
  pm_addrs :: "peer_addr list"
  pm_discovery_addrs :: "peer_addr list"
  pm_protocols :: bloom

definition primary_addr :: "entry \<Rightarrow> addr option" where
  "primary_addr e = (case e_addrs e of [] \<Rightarrow> None | a # _ \<Rightarrow> Some (pa_addr a))"

definition entry_to_peer_msg :: "entry \<Rightarrow> peer_msg" where
  "entry_to_peer_msg e = \<lparr>pm_peer_id = e_key e, pm_addrs = e_addrs e,
     pm_discovery_addrs = e_discovery_addrs e, pm_protocols = e_protocols e\<rparr>"

definition peer_msg_to_entry :: "peer_msg \<Rightarrow> entry" where
  "peer_msg_to_entry p = \<lparr>e_key = pm_peer_id p, e_addrs = pm_addrs p,
     e_discovery_addrs = pm_discovery_addrs p, e_protocols = pm_protocols p\<rparr>"

definition xor_distance :: "key \<Rightarrow> key \<Rightarrow> key" where
  "xor_distance k k' = (let d = map2 (XOR) k k' in d @ replicate (KEY_SIZE - length d) 0)"

section \<open>Buckets\<close>

type_synonym status_flag = u16

definition CONNECTED_ENTRY :: status_flag where "CONNECTED_ENTRY = 1"
definition DISCONNECTED_ENTRY :: status_flag where "DISCONNECTED_ENTRY = 2"
definition PENDING_ENTRY :: status_flag where "PENDING_ENTRY = 4"
definition UNREACHABLE_ENTRY :: status_flag where "UNREACHABLE_ENTRY = 8"
definition UNSTABLE_ENTRY :: status_flag where "UNSTABLE_ENTRY = 16"
definition INCOMPATIBLE_ENTRY :: status_flag where "INCOMPATIBLE_ENTRY = 32"

lemmas status_flags = CONNECTED_ENTRY_def DISCONNECTED_ENTRY_def PENDING_ENTRY_def UNREACHABLE_ENTRY_def
  UNSTABLE_ENTRY_def INCOMPATIBLE_ENTRY_def

record bucket_entry =
  be_status :: status_flag
  be_entry :: entry
  be_failures :: u32
  be_last_seen :: int

abbreviation be_key :: "bucket_entry \<Rightarrow> key" where
  "be_key e \<equiv> e_key (be_entry e)"

definition is_connected :: "bucket_entry \<Rightarrow> bool" where
  "is_connected e \<longleftrightarrow> be_status e XOR CONNECTED_ENTRY = 0"

definition is_incompatible :: "bucket_entry \<Rightarrow> bool" where
  "is_incompatible e \<longleftrightarrow> be_status e XOR INCOMPATIBLE_ENTRY = 0"

definition is_unreachable :: "bucket_entry \<Rightarrow> bool" where
  "is_unreachable e \<longleftrightarrow> be_status e XOR UNREACHABLE_ENTRY = 0"

definition is_unstable :: "bucket_entry \<Rightarrow> bool" where
  "is_unstable e \<longleftrightarrow> be_status e XOR UNSTABLE_ENTRY = 0"

definition BUCKET_SIZE :: nat where "BUCKET_SIZE = 20"

type_synonym bucket = "bucket_entry list"

definition bucket_add :: "int \<Rightarrow> entry \<Rightarrow> bucket \<Rightarrow> bucket" where
  "bucket_add now e b = b @ [\<lparr>be_status = PENDING_ENTRY, be_entry = e, be_failures = 0, be_last_seen = now\<rparr>]"

fun bucket_remove :: "key \<Rightarrow> bucket \<Rightarrow> bucket" where
  "bucket_remove k [] = []"
| "bucket_remove k (e # es) = (if be_key e = k then es else e # bucket_remove k es)"

definition entry_update :: "int \<Rightarrow> status_flag \<Rightarrow> bucket_entry \<Rightarrow> bucket_entry" where
  "entry_update now flag e = (let
      e1 = e\<lparr>be_status := flag\<rparr>;
      e2 = (if is_unreachable e1 \<or> is_unstable e1 then e1\<lparr>be_failures := be_failures e1 + 1\<rparr> else e1)
    in if \<not> is_unreachable e2 then e2\<lparr>be_last_seen := now\<rparr> else e2)"

fun bucket_update :: "int \<Rightarrow> key \<Rightarrow> status_flag \<Rightarrow> bucket \<Rightarrow> bucket" where
  "bucket_update now k flag [] = []"
| "bucket_update now k flag (e # es) =
     (if be_key e = k then entry_update now flag e # es else e # bucket_update now k flag es)"

definition bucket_contains :: "bucket \<Rightarrow> key \<Rightarrow> bool" where
  "bucket_contains b k = list_ex (\<lambda>e. be_key e = k) b"

section \<open>Table\<close>

definition TABLE_SIZE :: nat where "TABLE_SIZE = 32"
definition DISTANCE_LIMIT :: nat where "DISTANCE_LIMIT = 32"
definition MAX_MATCHED_SUBNET_IN_BUCKET :: nat where "MAX_MATCHED_SUBNET_IN_BUCKET = 1"
definition MAX_MATCHED_SUBNET_IN_TABLE :: nat where "MAX_MATCHED_SUBNET_IN_TABLE = 6"

datatype add_entry_result = Added | Exists | Ignored | Restricted

record routing_table =
  rt_key :: key
  rt_buckets :: "bucket list"

definition rt_new :: "key \<Rightarrow> routing_table" where
  "rt_new k = \<lparr>rt_key = k, rt_buckets = replicate TABLE_SIZE []\<rparr>"

definition leading_zeros :: "u8 \<Rightarrow> nat" where
  "leading_zeros b = length (takeWhile (\<lambda>i. \<not> bit b i) [7, 6, 5, 4, 3, 2, 1, 0])"

fun index_scan :: "nat \<Rightarrow> bytes \<Rightarrow> nat option" where
  "index_scan i [] = None"
| "index_scan i (b # bs) =
     (if b \<noteq> 0 then (let lz = i * 8 + leading_zeros b; bits = KEY_SIZE * 8 - 1 in Some ((bits - lz) div 8))
      else index_scan (Suc i) bs)"

definition bucket_index :: "key \<Rightarrow> key \<Rightarrow> nat option" where
  "bucket_index self k = index_scan 0 (xor_distance self k)"

definition is_loopback_pair :: "addr \<Rightarrow> addr \<Rightarrow> bool" where
  "is_loopback_pair a b = (case (a, b) of (Ip x, Ip y) \<Rightarrow> is_loopback x \<and> is_loopback y | _ \<Rightarrow> False)"

definition subnet_match :: "addr \<Rightarrow> addr \<Rightarrow> bool" where
  "subnet_match a b =
     (if is_loopback_pair a b then False
      else (case (a, b) of
          (Ip (V4 x), Ip (V4 y)) \<Rightarrow> take 3 x = take 3 y
        | (Ip (V6 x), Ip (V6 y)) \<Rightarrow> take 8 x = take 8 y
        | _ \<Rightarrow> False))"

definition entry_matched :: "entry \<Rightarrow> bucket_entry \<Rightarrow> bool" where
  "entry_matched en e = (case (primary_addr (be_entry e), primary_addr en) of
      (Some a, Some b) \<Rightarrow> subnet_match a b | _ \<Rightarrow> False)"

text \<open>The two nested loops of \<open>subnet_restricted\<close>; \<^term>\<open>None\<close> is the early
  return from the inner loop.\<close>

fun scan_bucket :: "bool \<Rightarrow> entry \<Rightarrow> bucket \<Rightarrow> nat \<Rightarrow> nat \<Rightarrow> (nat \<times> nat) option" where
  "scan_bucket same en [] bucket_count table_count = Some (bucket_count, table_count)"
| "scan_bucket same en (e # es) bucket_count table_count = (let
      matched = entry_matched en e;
      bc = (if matched \<and> same then bucket_count + 1 else bucket_count);
      tc = (if matched then table_count + 1 else table_count)
    in if MAX_MATCHED_SUBNET_IN_BUCKET \<le> bc then None else scan_bucket same en es bc tc)"

fun scan_buckets :: "nat \<Rightarrow> nat \<Rightarrow> entry \<Rightarrow> bucket list \<Rightarrow> nat \<Rightarrow> nat \<Rightarrow> bool" where
  "scan_buckets i idx en [] bucket_count table_count = False"
| "scan_buckets i idx en (b # bs) bucket_count table_count =
     (case scan_bucket (i = idx) en b bucket_count table_count of
        None \<Rightarrow> True
      | Some (bc, tc) \<Rightarrow> if MAX_MATCHED_SUBNET_IN_TABLE \<le> tc then True else scan_buckets (Suc i) idx en bs bc tc)"

definition subnet_restricted :: "bucket list \<Rightarrow> nat \<Rightarrow> entry \<Rightarrow> bool" where
  "subnet_restricted bs idx en = scan_buckets 0 idx en bs 0 0"

definition add_entry :: "int \<Rightarrow> entry \<Rightarrow> routing_table \<Rightarrow> add_entry_result \<times> routing_table" where
  "add_entry now en t = (case bucket_index (rt_key t) (e_key en) of
      None \<Rightarrow> (Ignored, t)
    | Some i \<Rightarrow> (let b = rt_buckets t ! i in
        if bucket_contains b (e_key en) then (Exists, t)
        else if subnet_restricted (rt_buckets t) i en then (Restricted, t)
        else if length b < BUCKET_SIZE then
          (Added, t\<lparr>rt_buckets := (rt_buckets t)[i := bucket_add now en b]\<rparr>)
        else (case List.find is_incompatible b of
            Some e \<Rightarrow> (Added, t\<lparr>rt_buckets := (rt_buckets t)[i := bucket_add now en (bucket_remove (be_key e) b)]\<rparr>)
          | None \<Rightarrow> (Ignored, t))))"

definition contains_key :: "routing_table \<Rightarrow> key \<Rightarrow> bool" where
  "contains_key t k = (case bucket_index (rt_key t) k of
      None \<Rightarrow> False | Some i \<Rightarrow> bucket_contains (rt_buckets t ! i) k)"

definition update_entry :: "int \<Rightarrow> key \<Rightarrow> status_flag \<Rightarrow> routing_table \<Rightarrow> routing_table" where
  "update_entry now k flag t = (case bucket_index (rt_key t) k of
      None \<Rightarrow> t
    | Some i \<Rightarrow> t\<lparr>rt_buckets := (rt_buckets t)[i := bucket_update now k flag (rt_buckets t ! i)]\<rparr>)"

definition remove_entry :: "key \<Rightarrow> routing_table \<Rightarrow> routing_table" where
  "remove_entry k t = (case bucket_index (rt_key t) k of
      None \<Rightarrow> t
    | Some i \<Rightarrow> t\<lparr>rt_buckets := (rt_buckets t)[i := bucket_remove k (rt_buckets t ! i)]\<rparr>)"

definition bucket_indexes :: "routing_table \<Rightarrow> key \<Rightarrow> nat list" where
  "bucket_indexes t target = (let bi = (case bucket_index (rt_key t) target of None \<Rightarrow> 0 | Some i \<Rightarrow> i) in
     bi # concat (map (\<lambda>i. (if i \<le> bi \<and> 1 \<le> bi - i then [bi - i] else [])
                          @ (if bi + i < TABLE_SIZE - 1 then [bi + i] else [])) [1..<DISTANCE_LIMIT]))"

text \<open>The labelled double loop of \<open>closest_entries_filtered\<close>; the flag tells whether the
  outer loop was left.\<close>

fun collect_bucket :: "nat \<Rightarrow> local_bloom \<Rightarrow> entry list \<Rightarrow> bucket \<Rightarrow> entry list \<times> bool" where
  "collect_bucket mx loc acc [] = (acc, False)"
| "collect_bucket mx loc acc (e # es) =
     (if is_unreachable e \<or> is_unstable e then collect_bucket mx loc acc es
      else if \<not> bloom_matches loc (e_protocols (be_entry e)) then collect_bucket mx loc acc es
      else (let acc' = acc @ [be_entry e] in
        if length acc' = mx then (acc', True) else collect_bucket mx loc acc' es))"

fun collect_buckets :: "nat \<Rightarrow> local_bloom \<Rightarrow> bucket list \<Rightarrow> entry list \<Rightarrow> nat list \<Rightarrow> entry list" where
  "collect_buckets mx loc bs acc [] = acc"
| "collect_buckets mx loc bs acc (i # is) = (case collect_bucket mx loc acc (bs ! i) of
      (acc', stop) \<Rightarrow> if stop then acc' else collect_buckets mx loc bs acc' is)"

definition closest_entries_filtered :: "routing_table \<Rightarrow> key \<Rightarrow> nat \<Rightarrow> local_bloom \<Rightarrow> entry list" where
  "closest_entries_filtered t target mx loc =
     sort_key (\<lambda>e. xor_distance target (e_key e))
       (collect_buckets mx loc (rt_buckets t) [] (bucket_indexes t target))"

definition closest_entries :: "routing_table \<Rightarrow> key \<Rightarrow> nat \<Rightarrow> entry list" where
  "closest_entries t target mx = closest_entries_filtered t target mx local_bloom_default"

definition entries_with_item :: "(bytes \<Rightarrow> u64) \<Rightarrow> routing_table \<Rightarrow> bytes \<Rightarrow> entry list" where
  "entries_with_item sip t item = map be_entry (filter (\<lambda>e. \<not> (is_unreachable e \<or> is_unstable e)
     \<and> may_contain sip (e_protocols (be_entry e)) item) (concat (rt_buckets t)))"

definition has_discovery_ip :: "routing_table \<Rightarrow> ip_addr \<Rightarrow> bool" where
  "has_discovery_ip t ip = list_ex (\<lambda>e. list_ex (\<lambda>a. case pa_addr a of Ip x \<Rightarrow> x = ip | Domain _ \<Rightarrow> False)
     (e_discovery_addrs (be_entry e))) (concat (rt_buckets t))"

definition refresh_candidates :: "routing_table \<Rightarrow> nat \<Rightarrow> bucket_entry list" where
  "refresh_candidates t per_bucket = concat (map (\<lambda>b.
     take per_bucket (filter (\<lambda>e. \<not> is_connected e \<and> \<not> is_incompatible e) b)) (rt_buckets t))"

text \<open>\<open>sample_b\<close> and \<open>sample_e\<close> give the random order in which \<open>sample\<close> visits
  all buckets and all entries of a bucket.\<close>

definition random_ok :: "status_flag \<Rightarrow> local_bloom \<Rightarrow> bucket_entry \<Rightarrow> bool" where
  "random_ok flag loc e \<longleftrightarrow> be_status e AND flag \<noteq> 0 \<and> bloom_matches loc (e_protocols (be_entry e))"

definition random_entry_filtered ::
  "(bucket list \<Rightarrow> bucket list) \<Rightarrow> (bucket \<Rightarrow> bucket) \<Rightarrow> status_flag \<Rightarrow> local_bloom \<Rightarrow> routing_table \<Rightarrow> entry option" where
  "random_entry_filtered sample_b sample_e flag loc t =
     map_option be_entry (List.find (random_ok flag loc)
       (concat (map sample_e (sample_b (rt_buckets t)))))"

definition random_entry ::
  "(bucket list \<Rightarrow> bucket list) \<Rightarrow> (bucket \<Rightarrow> bucket) \<Rightarrow> status_flag \<Rightarrow> routing_table \<Rightarrow> entry option" where
  "random_entry sample_b sample_e flag t = random_entry_filtered sample_b sample_e flag local_bloom_default t"

section \<open>Invariant\<close>

text \<open>The subnet that counts for the limits: a /24 or /64 prefix, none for loopback
  and for domains.\<close>

definition subnet_of :: "addr \<Rightarrow> (bool \<times> bytes) option" where
  "subnet_of a = (case a of
      Ip ip \<Rightarrow> if is_loopback ip then None
        else (case ip of V4 x \<Rightarrow> Some (True, take 3 x) | V6 x \<Rightarrow> Some (False, take 8 x))
    | Domain _ \<Rightarrow> None)"

definition in_subnet :: "bool \<times> bytes \<Rightarrow> bucket_entry \<Rightarrow> bool" where
  "in_subnet s e \<longleftrightarrow> (\<exists>a. primary_addr (be_entry e) = Some a \<and> subnet_of a = Some s)"

definition bucket_inv :: "key \<Rightarrow> nat \<Rightarrow> bucket \<Rightarrow> bool" where
  "bucket_inv self i b \<longleftrightarrow> length b \<le> BUCKET_SIZE \<and> distinct (map be_key b)
     \<and> (\<forall>e \<in> set b. length (be_key e) = KEY_SIZE \<and> bucket_index self (be_key e) = Some i)
     \<and> (\<forall>s. length (filter (in_subnet s) b) \<le> MAX_MATCHED_SUBNET_IN_BUCKET)"

definition table_inv :: "routing_table \<Rightarrow> bool" where
  "table_inv t \<longleftrightarrow> length (rt_key t) = KEY_SIZE \<and> length (rt_buckets t) = TABLE_SIZE
     \<and> (\<forall>i < TABLE_SIZE. bucket_inv (rt_key t) i (rt_buckets t ! i))
     \<and> (\<forall>s. length (filter (in_subnet s) (concat (rt_buckets t))) \<le> MAX_MATCHED_SUBNET_IN_TABLE)"

definition table_keys :: "routing_table \<Rightarrow> key set" where
  "table_keys t = be_key ` set (concat (rt_buckets t))"

datatype table_op = OpAdd int entry | OpRemove key | OpUpdate int key status_flag

fun table_exec :: "table_op \<Rightarrow> routing_table \<Rightarrow> routing_table" where
  "table_exec (OpAdd now e) t = snd (add_entry now e t)"
| "table_exec (OpRemove k) t = remove_entry k t"
| "table_exec (OpUpdate now k f) t = update_entry now k f t"

fun table_op_ok :: "table_op \<Rightarrow> bool" where
  "table_op_ok (OpAdd now e) = (length (e_key e) = KEY_SIZE)"
| "table_op_ok (OpRemove k) = (length k = KEY_SIZE)"
| "table_op_ok (OpUpdate now k f) = (length k = KEY_SIZE)"

section \<open>The peer store contract\<close>

locale peer_store =
  fixes keys :: "'s \<Rightarrow> 'k set" and member :: "'s \<Rightarrow> 'k \<Rightarrow> bool" and del :: "'k \<Rightarrow> 's \<Rightarrow> 's"
    and wf :: "'s \<Rightarrow> bool" and key_ok :: "'k \<Rightarrow> bool"
  assumes member_keys: "wf s \<Longrightarrow> key_ok k \<Longrightarrow> member s k \<longleftrightarrow> k \<in> keys s"
    and del_keys: "wf s \<Longrightarrow> key_ok k \<Longrightarrow> keys (del k s) = keys s - {k}"
    and del_wf: "wf s \<Longrightarrow> key_ok k \<Longrightarrow> wf (del k s)"
begin

lemma member_del: "wf s \<Longrightarrow> key_ok k \<Longrightarrow> key_ok j \<Longrightarrow> member (del k s) j \<longleftrightarrow> member s j \<and> j \<noteq> k"
  by (auto simp: member_keys del_keys del_wf)

lemma fold_del: "wf s \<Longrightarrow> list_all key_ok ks \<Longrightarrow> keys (fold del ks s) = keys s - set ks \<and> wf (fold del ks s)"
  by (induction ks arbitrary: s) (auto simp: del_keys del_wf)

end

section \<open>Distance and bucket index\<close>

lemma xor_distance_wf:
  "length k = KEY_SIZE \<Longrightarrow> length k' = KEY_SIZE \<Longrightarrow> xor_distance k k' = map2 (XOR) k k'"
  by (simp add: xor_distance_def)

lemma xor_distance_comm: "xor_distance k k' = xor_distance k' k"
proof -
  have "map2 (XOR) k k' = map2 (XOR) k' k"
    by (rule nth_equalityI) (auto simp: xor.commute)
  then show ?thesis by (simp add: xor_distance_def)
qed

lemma leading_zeros_less:
  assumes "b \<noteq> 0"
  shows "leading_zeros b < 8"
proof -
  obtain i where i: "bit b i" "i < 8"
    using assms by (auto simp: bit_eq_iff)
  then have "\<exists>x \<in> set [7, 6, 5, 4, 3, 2, 1, 0]. \<not> \<not> bit b x"
    by (auto simp: less_Suc_eq numeral_eq_Suc)
  from takeWhile_shorter [OF this] show ?thesis by (simp add: leading_zeros_def)
qed

text \<open>The index is 31 minus the position of the first byte in which the keys differ.\<close>

lemma index_scan_step:
  assumes "b \<noteq> 0" "i < 32"
  shows "index_scan i (b # bs) = Some (31 - i)"
proof -
  have "255 - (i * 8 + leading_zeros b) = (31 - i) * 8 + (7 - leading_zeros b)"
    using leading_zeros_less [OF assms(1)] assms(2) by simp
  moreover have "\<dots> div 8 = 31 - i" by (simp only: div_mult_self3)
  ultimately show ?thesis using assms(1) by (simp add: KEY_SIZE_def Let_def)
qed

lemma index_scan_spec:
  assumes "i + length bs \<le> 32"
  shows "index_scan i bs = (if list_all (\<lambda>b. b = 0) bs then None
    else Some (31 - (i + length (takeWhile (\<lambda>b. b = 0) bs))))"
  using assms
proof (induction bs arbitrary: i)
  case (Cons b bs)
  then show ?case
    using index_scan_step [of b i bs] Cons.IH [of "Suc i"] by (cases "b = 0") auto
qed simp

lemma xor_zero_iff: "a XOR b = 0 \<longleftrightarrow> a = b" for a b :: "'a::len word"
  by (metis bit.xor_self xor.right_neutral xor.left_commute xor.assoc)

lemma xor_distance_zero:
  assumes "length k = KEY_SIZE" "length k' = KEY_SIZE"
  shows "list_all (\<lambda>b. b = 0) (xor_distance k k') \<longleftrightarrow> k = k'"
  using assms by (auto simp: xor_distance_wf list_all_length xor_zero_iff intro: nth_equalityI)

lemma length_xor_distance: "length k = KEY_SIZE \<Longrightarrow> length k' = KEY_SIZE \<Longrightarrow> length (xor_distance k k') = KEY_SIZE"
  by (simp add: xor_distance_wf)

lemma bucket_index_None:
  "length k = KEY_SIZE \<Longrightarrow> length k' = KEY_SIZE \<Longrightarrow> bucket_index k k' = None \<longleftrightarrow> k = k'"
  using index_scan_spec [of 0 "xor_distance k k'"] xor_distance_zero [of k k'] length_xor_distance [of k k']
  by (simp add: bucket_index_def KEY_SIZE_def)

lemma bucket_index_less:
  "length k = KEY_SIZE \<Longrightarrow> length k' = KEY_SIZE \<Longrightarrow> bucket_index k k' = Some i \<Longrightarrow> i < TABLE_SIZE"
  using index_scan_spec [of 0 "xor_distance k k'"] length_xor_distance [of k k']
  by (auto simp: bucket_index_def TABLE_SIZE_def KEY_SIZE_def split: if_splits)

section \<open>Buckets\<close>

lemma bucket_contains_iff: "bucket_contains b k \<longleftrightarrow> k \<in> be_key ` set b"
  by (auto simp: bucket_contains_def list_ex_iff)

lemma bucket_remove_filter: "distinct (map be_key b) \<Longrightarrow> bucket_remove k b = filter (\<lambda>e. be_key e \<noteq> k) b"
proof (induction b)
  case (Cons e b)
  have "filter (\<lambda>x. be_key x \<noteq> be_key e) b = b"
    using Cons.prems by (intro filter_True) (force simp: image_iff)
  then show ?case using Cons by auto
qed simp

lemma entry_update_entry [simp]: "be_entry (entry_update now f e) = be_entry e"
  by (simp add: entry_update_def Let_def)

lemma bucket_update_entries [simp]: "map be_entry (bucket_update now k f b) = map be_entry b"
  by (induction b) auto

lemma bucket_update_length [simp]: "length (bucket_update now k f b) = length b"
  by (induction b) auto

interpretation bkt: peer_store "\<lambda>b. be_key ` set b" bucket_contains bucket_remove "\<lambda>b. distinct (map be_key b)" "\<lambda>_. True"
  by unfold_locales (auto simp: bucket_contains_iff bucket_remove_filter distinct_map_filter)

text \<open>The invariant of a bucket depends on its entries only, not on their status.\<close>

lemma in_subnet_count:
  "length (filter (in_subnet s) b) = length (filter (\<lambda>en. \<exists>a. primary_addr en = Some a \<and> subnet_of a = Some s) (map be_entry b))"
  by (simp add: filter_map in_subnet_def [abs_def] comp_def)

lemma bucket_inv_alt: "bucket_inv self i b \<longleftrightarrow> (let es = map be_entry b in
    length es \<le> BUCKET_SIZE \<and> distinct (map e_key es)
    \<and> (\<forall>en \<in> set es. length (e_key en) = KEY_SIZE \<and> bucket_index self (e_key en) = Some i)
    \<and> (\<forall>s. length (filter (\<lambda>en. \<exists>a. primary_addr en = Some a \<and> subnet_of a = Some s) es)
          \<le> MAX_MATCHED_SUBNET_IN_BUCKET))"
  unfolding bucket_inv_def in_subnet_count by (simp add: comp_def)

lemma bucket_inv_entries:
  assumes "map be_entry b = map be_entry b'"
  shows "bucket_inv self i b \<longleftrightarrow> bucket_inv self i b'"
  unfolding bucket_inv_alt assms ..

lemma bucket_inv_remove:
  assumes "bucket_inv self i b"
  shows "bucket_inv self i (bucket_remove k b)"
proof -
  have f: "bucket_remove k b = filter (\<lambda>e. be_key e \<noteq> k) b"
    using assms by (simp add: bucket_inv_def bucket_remove_filter)
  have "length (filter (in_subnet s) (filter (\<lambda>e. be_key e \<noteq> k) b)) \<le> MAX_MATCHED_SUBNET_IN_BUCKET" for s
    using assms filter_filter_length_le [of "in_subnet s" "\<lambda>e. be_key e \<noteq> k" b] order_trans
    unfolding bucket_inv_def by blast
  moreover have "length (filter (\<lambda>e. be_key e \<noteq> k) b) \<le> BUCKET_SIZE"
    using assms length_filter_le [of "\<lambda>e. be_key e \<noteq> k" b] unfolding bucket_inv_def by linarith
  ultimately show ?thesis
    using assms unfolding bucket_inv_def f by (simp add: distinct_map_filter del: filter_filter)
qed

lemma bucket_inv_update: "bucket_inv self i b \<Longrightarrow> bucket_inv self i (bucket_update now k f b)"
  using bucket_inv_entries [of b "bucket_update now k f b"] by simp

lemma bucket_inv_add:
  assumes "bucket_inv self i b" "length b < BUCKET_SIZE" "e_key en \<notin> be_key ` set b"
    "length (e_key en) = KEY_SIZE" "bucket_index self (e_key en) = Some i"
    and "\<And>s e. e \<in> set b \<Longrightarrow> in_subnet s e \<Longrightarrow> \<not> (\<exists>a. primary_addr en = Some a \<and> subnet_of a = Some s)"
  shows "bucket_inv self i (bucket_add now en b)"
proof -
  have "length (filter (in_subnet s) (bucket_add now en b)) \<le> 1" for s
  proof (cases "\<exists>a. primary_addr en = Some a \<and> subnet_of a = Some s")
    case True
    then have "\<forall>e \<in> set b. \<not> in_subnet s e" using assms(6) by blast
    then have "filter (in_subnet s) b = []" by (rule filter_False)
    then show ?thesis by (simp add: bucket_add_def)
  next
    case False
    moreover have "length (filter (in_subnet s) b) \<le> 1"
      using assms(1) unfolding bucket_inv_def MAX_MATCHED_SUBNET_IN_BUCKET_def by blast
    ultimately show ?thesis by (auto simp: bucket_add_def in_subnet_def)
  qed
  then show ?thesis
    using assms(1-5) by (auto simp: bucket_inv_def bucket_add_def MAX_MATCHED_SUBNET_IN_BUCKET_def)
qed

section \<open>Subnet limits\<close>

lemma subnet_of_match: "subnet_of a = Some s \<Longrightarrow> subnet_of b = Some s \<Longrightarrow> subnet_match a b"
  by (auto simp: subnet_of_def subnet_match_def is_loopback_pair_def split: addr.splits ip_addr.splits if_splits)

lemma in_subnet_matched:
  "in_subnet s e \<Longrightarrow> primary_addr en = Some a \<Longrightarrow> subnet_of a = Some s \<Longrightarrow> entry_matched en e"
  by (auto simp: in_subnet_def entry_matched_def intro: subnet_of_match)

lemma scan_bucket_spec:
  "scan_bucket same en b 0 tc = (if same \<and> (\<exists>e \<in> set b. entry_matched en e) then None
     else Some (0, tc + length (filter (entry_matched en) b)))"
  by (induction b arbitrary: tc; cases same) (simp_all add: Let_def MAX_MATCHED_SUBNET_IN_BUCKET_def)

lemma scan_buckets_spec:
  "tc < MAX_MATCHED_SUBNET_IN_TABLE \<Longrightarrow> scan_buckets i idx en bs 0 tc \<longleftrightarrow>
     (\<exists>j < length bs. i + j = idx \<and> (\<exists>e \<in> set (bs ! j). entry_matched en e))
     \<or> MAX_MATCHED_SUBNET_IN_TABLE \<le> tc + length (filter (entry_matched en) (concat bs))"
proof (induction bs arbitrary: i tc)
  case (Cons b bs)
  show ?case
    using Cons.prems Cons.IH [of "tc + length (filter (entry_matched en) b)" "Suc i"]
    by (auto simp: scan_bucket_spec less_Suc_eq_0_disj)
qed simp

lemma subnet_restricted_spec:
  assumes "idx < length bs"
  shows "subnet_restricted bs idx en \<longleftrightarrow> (\<exists>e \<in> set (bs ! idx). entry_matched en e)
     \<or> MAX_MATCHED_SUBNET_IN_TABLE \<le> length (filter (entry_matched en) (concat bs))"
  using assms scan_buckets_spec [of 0 0 idx en bs]
  by (auto simp: subnet_restricted_def MAX_MATCHED_SUBNET_IN_TABLE_def)

section \<open>Table operations\<close>

lemma table_bucket:
  assumes "table_inv t" "bucket_index (rt_key t) k = Some i" "length k = KEY_SIZE"
  shows "i < length (rt_buckets t)" "bucket_inv (rt_key t) i (rt_buckets t ! i)" "i < TABLE_SIZE"
  using assms bucket_index_less [of "rt_key t" k i] by (auto simp: table_inv_def)

text \<open>Replacing one bucket keeps the invariant when the bucket does and the subnet
  counts of the table do not rise above the limit.\<close>

lemma table_inv_replace:
  assumes "table_inv t" "i < TABLE_SIZE" "bucket_inv (rt_key t) i b"
    and "\<And>s. length (filter (in_subnet s) b) \<le> length (filter (in_subnet s) (rt_buckets t ! i))
       \<or> length (filter (in_subnet s) b) + length (filter (in_subnet s) (concat (rt_buckets t)))
           \<le> MAX_MATCHED_SUBNET_IN_TABLE + length (filter (in_subnet s) (rt_buckets t ! i))"
  shows "table_inv (t\<lparr>rt_buckets := (rt_buckets t)[i := b]\<rparr>)"
proof -
  let ?c = "\<lambda>s b. length (filter (in_subnet s) b)"
  have i: "i < length (rt_buckets t)" using assms(1,2) by (simp add: table_inv_def)
  have le: "?c s (rt_buckets t ! i) \<le> ?c s (concat (rt_buckets t))" for s
    unfolding length_filter_concat using i by (intro member_le_sum_list) simp_all
  have sum: "?c s (concat ((rt_buckets t)[i := b])) = ?c s (concat (rt_buckets t)) + ?c s b - ?c s (rt_buckets t ! i)" for s
    unfolding length_filter_concat using i by (simp add: map_update sum_list_update)
  have "?c s (concat ((rt_buckets t)[i := b])) \<le> MAX_MATCHED_SUBNET_IN_TABLE" for s
  proof -
    have "?c s (concat (rt_buckets t)) \<le> MAX_MATCHED_SUBNET_IN_TABLE"
      using assms(1) unfolding table_inv_def by blast
    then show ?thesis using sum [of s] le [of s] assms(4) [of s] by linarith
  qed
  then show ?thesis
    using assms(1-3) by (simp add: table_inv_def nth_list_update)
qed

lemma remove_entry_inv:
  assumes "table_inv t" "length k = KEY_SIZE"
  shows "table_inv (remove_entry k t)"
proof (cases "bucket_index (rt_key t) k")
  case (Some i)
  note b = table_bucket [OF assms(1) Some assms(2)]
  have f: "bucket_remove k (rt_buckets t ! i) = filter (\<lambda>e. be_key e \<noteq> k) (rt_buckets t ! i)"
    using b(2) by (simp add: bucket_inv_def bucket_remove_filter)
  have "table_inv (t\<lparr>rt_buckets := (rt_buckets t)[i := bucket_remove k (rt_buckets t ! i)]\<rparr>)"
    using table_inv_replace [OF assms(1) b(3) bucket_inv_remove [OF b(2), of k]] filter_filter_length_le
    unfolding f by blast
  then show ?thesis by (simp add: remove_entry_def Some)
qed (simp add: remove_entry_def assms)

lemma update_entry_inv:
  assumes "table_inv t" "length k = KEY_SIZE"
  shows "table_inv (update_entry now k f t)"
proof (cases "bucket_index (rt_key t) k")
  case (Some i)
  note b = table_bucket [OF assms(1) Some assms(2)]
  have "length (filter (in_subnet s) (bucket_update now k f (rt_buckets t ! i))) =
      length (filter (in_subnet s) (rt_buckets t ! i))" for s
    by (simp add: in_subnet_count)
  then show ?thesis
    using table_inv_replace [OF assms(1) b(3) bucket_inv_update [OF b(2), of now k f]] Some
    by (simp add: update_entry_def)
qed (simp add: update_entry_def assms)

lemma in_subnet_new:
  "in_subnet s \<lparr>be_status = st, be_entry = en, be_failures = fl, be_last_seen = ls\<rparr> \<longleftrightarrow>
     (\<exists>a. primary_addr en = Some a \<and> subnet_of a = Some s)"
  by (simp add: in_subnet_def)

text \<open>The bucket that an insertion starts from: the bucket itself or the bucket
  without an incompatible entry.\<close>

lemma add_bucket_inv:
  assumes inv: "table_inv t" and idx: "bucket_index (rt_key t) (e_key en) = Some i"
    and len: "length (e_key en) = KEY_SIZE" and new: "\<not> bucket_contains (rt_buckets t ! i) (e_key en)"
    and free: "\<not> subnet_restricted (rt_buckets t) i en"
    and base: "b = filter P (rt_buckets t ! i)" "length b < BUCKET_SIZE" "bucket_inv (rt_key t) i b"
  shows "table_inv (t\<lparr>rt_buckets := (rt_buckets t)[i := bucket_add now en b]\<rparr>)"
proof -
  note bi = table_bucket [OF inv idx len]
  have unm: "\<And>e. e \<in> set (rt_buckets t ! i) \<Longrightarrow> \<not> entry_matched en e"
    and few: "length (filter (entry_matched en) (concat (rt_buckets t))) < MAX_MATCHED_SUBNET_IN_TABLE"
    using free subnet_restricted_spec [OF bi(1), of en] by (auto simp: not_le)
  have nob: "filter (in_subnet s) (rt_buckets t ! i) = []" if "primary_addr en = Some a" "subnet_of a = Some s" for s a
    using unm in_subnet_matched [OF _ that] by (intro filter_False) blast
  have "bucket_inv (rt_key t) i (bucket_add now en b)"
  proof (rule bucket_inv_add [OF base(3,2) _ len idx])
    show "e_key en \<notin> be_key ` set b" using new base(1) by (auto simp: bucket_contains_iff)
    show "\<not> (\<exists>a. primary_addr en = Some a \<and> subnet_of a = Some s)" if "e \<in> set b" "in_subnet s e" for s e
    proof
      assume "\<exists>a. primary_addr en = Some a \<and> subnet_of a = Some s"
      then have "e \<notin> set (rt_buckets t ! i)" using nob [of _ s] that(2) filter_empty_conv by metis
      then show False using that(1) base(1) by simp
    qed
  qed
  moreover have "length (filter (in_subnet s) (bucket_add now en b)) \<le> length (filter (in_subnet s) (rt_buckets t ! i))
       \<or> length (filter (in_subnet s) (bucket_add now en b)) + length (filter (in_subnet s) (concat (rt_buckets t)))
           \<le> MAX_MATCHED_SUBNET_IN_TABLE + length (filter (in_subnet s) (rt_buckets t ! i))" for s
  proof (cases "\<exists>a. primary_addr en = Some a \<and> subnet_of a = Some s")
    case True
    then obtain a where a: "primary_addr en = Some a" "subnet_of a = Some s" by blast
    have "length (filter (in_subnet s) xs) \<le> length (filter (entry_matched en) xs)" for xs
      using in_subnet_matched [OF _ a] by (induction xs) auto
    from this [of "concat (rt_buckets t)"] few
    have "length (filter (in_subnet s) (concat (rt_buckets t))) < MAX_MATCHED_SUBNET_IN_TABLE" by linarith
    moreover have "filter (in_subnet s) b = []"
      using nob [OF a] base(1) by (auto simp: filter_empty_conv)
    ultimately show ?thesis using True by (simp add: bucket_add_def in_subnet_new)
  next
    case False
    then show ?thesis
      using filter_filter_length_le [of "in_subnet s" P "rt_buckets t ! i"] base(1)
      by (auto simp add: bucket_add_def in_subnet_new simp del: filter_filter)
  qed
  ultimately show ?thesis using table_inv_replace [OF inv bi(3)] by blast
qed

lemma find_length_remove:
  assumes "List.find Q b = Some e" "distinct (map be_key b)"
  shows "length (bucket_remove (be_key e) b) < length b"
proof -
  have "e \<in> set b" using assms(1) by (auto simp: find_Some_iff in_set_conv_nth)
  then have "length (filter (\<lambda>x. be_key x \<noteq> be_key e) b) < length b"
    by (intro length_filter_less [of e]) auto
  then show ?thesis using assms(2) by (simp add: bucket_remove_filter)
qed

lemma add_entry_inv:
  assumes "table_inv t" "length (e_key en) = KEY_SIZE"
  shows "table_inv (snd (add_entry now en t))"
proof (cases "bucket_index (rt_key t) (e_key en)")
  case (Some i)
  note b = table_bucket [OF assms(1) Some assms(2)]
  note ins = add_bucket_inv [OF assms(1) Some assms(2)]
  have d: "distinct (map be_key (rt_buckets t ! i))" "length (rt_buckets t ! i) \<le> BUCKET_SIZE"
    using b(2) by (simp_all add: bucket_inv_def)
  show ?thesis
    using ins [of "rt_buckets t ! i" "\<lambda>_. True" now] ins [of "bucket_remove _ (rt_buckets t ! i)" _ now]
      b(2) bucket_inv_remove [OF b(2)] find_length_remove [OF _ d(1), of is_incompatible] d(2) assms(1)
    by (auto simp: add_entry_def Some Let_def bucket_remove_filter [OF d(1)] split: option.splits)
qed (simp add: add_entry_def assms)

lemma rt_new_inv: "length k = KEY_SIZE \<Longrightarrow> table_inv (rt_new k)"
  by (auto simp: table_inv_def rt_new_def bucket_inv_def TABLE_SIZE_def)

interpretation tbl_ops: op_invariant table_exec table_inv table_op_ok
proof
  fix p s
  assume "table_op_ok p" "table_inv s"
  then show "table_inv (table_exec p s)"
    by (cases p) (auto simp: add_entry_inv remove_entry_inv update_entry_inv)
qed

lemma contains_key_iff:
  assumes "table_inv t" "length k = KEY_SIZE"
  shows "contains_key t k \<longleftrightarrow> k \<in> table_keys t"
proof
  assume "contains_key t k"
  then obtain i where i: "bucket_index (rt_key t) k = Some i" "k \<in> be_key ` set (rt_buckets t ! i)"
    by (auto simp: contains_key_def bucket_contains_iff split: option.splits)
  then show "k \<in> table_keys t"
    using table_bucket(1) [OF assms(1) i(1) assms(2)]
    by (metis (no_types, lifting) imageE image_eqI in_set_concat_nth table_keys_def)
next
  assume "k \<in> table_keys t"
  then obtain j where j: "j < length (rt_buckets t)" "k \<in> be_key ` set (rt_buckets t ! j)"
    by (auto simp: table_keys_def in_set_concat_nth simp del: set_concat)
  then have "bucket_index (rt_key t) k = Some j"
    using assms(1) by (fastforce simp: table_inv_def bucket_inv_def)
  then show "contains_key t k" using j by (simp add: contains_key_def bucket_contains_iff)
qed

lemma table_keys_update:
  assumes "i < length (rt_buckets t)"
  shows "table_keys (t\<lparr>rt_buckets := (rt_buckets t)[i := b]\<rparr>) =
    be_key ` set b \<union> (\<Union>j \<in> {..<length (rt_buckets t)} - {i}. be_key ` set (rt_buckets t ! j))"
  using set_concat_update [OF assms, of b] by (auto simp: table_keys_def)

lemma table_keys_split:
  assumes "i < length (rt_buckets t)"
  shows "table_keys t = be_key ` set (rt_buckets t ! i)
    \<union> (\<Union>j \<in> {..<length (rt_buckets t)} - {i}. be_key ` set (rt_buckets t ! j))"
  using table_keys_update [OF assms, of "rt_buckets t ! i"] by (simp add: list_update_id)

lemma other_bucket_keys:
  assumes "table_inv t" "bucket_index (rt_key t) k = Some i" "j < length (rt_buckets t)" "j \<noteq> i"
  shows "k \<notin> be_key ` set (rt_buckets t ! j)"
  using assms by (fastforce simp: table_inv_def bucket_inv_def)

lemma remove_entry_keys:
  assumes "table_inv t" "length k = KEY_SIZE"
  shows "table_keys (remove_entry k t) = table_keys t - {k}"
proof (cases "bucket_index (rt_key t) k")
  case None
  then have "\<not> contains_key t k" by (simp add: contains_key_def)
  then show ?thesis using contains_key_iff [OF assms] None by (simp add: remove_entry_def)
next
  case (Some i)
  note b = table_bucket [OF assms(1) Some assms(2)]
  have "be_key ` set (bucket_remove k (rt_buckets t ! i)) = be_key ` set (rt_buckets t ! i) - {k}"
    using b(2) bkt.del_keys [of "rt_buckets t ! i" k] by (simp add: bucket_inv_def)
  moreover have "k \<notin> (\<Union>j \<in> {..<length (rt_buckets t)} - {i}. be_key ` set (rt_buckets t ! j))"
    using other_bucket_keys [OF assms(1) Some] by blast
  ultimately show ?thesis
    unfolding remove_entry_def Some option.case table_keys_update [OF b(1)] table_keys_split [OF b(1)] by blast
qed

interpretation tbl: peer_store table_keys contains_key remove_entry table_inv "\<lambda>k. length k = KEY_SIZE"
  by unfold_locales (auto simp: contains_key_iff remove_entry_keys remove_entry_inv)

section \<open>Lookup of closest entries\<close>

definition lookup_ok :: "local_bloom \<Rightarrow> bucket_entry \<Rightarrow> bool" where
  "lookup_ok loc e \<longleftrightarrow> \<not> is_unreachable e \<and> \<not> is_unstable e \<and> bloom_matches loc (e_protocols (be_entry e))"

lemma collect_bucket_spec:
  assumes "length acc < mx \<or> mx = 0"
  shows "collect_bucket mx loc acc b = (let r = acc @ map be_entry (filter (lookup_ok loc) b) in
    if mx \<noteq> 0 \<and> mx \<le> length r then (take mx r, True) else (r, False))"
  using assms
proof (induction b arbitrary: acc)
  case (Cons e b)
  show ?case
  proof (cases "lookup_ok loc e")
    case True
    then have step: "collect_bucket mx loc acc (e # b) =
        (if length acc + 1 = mx then (acc @ [be_entry e], True) else collect_bucket mx loc (acc @ [be_entry e]) b)"
      by (auto simp: lookup_ok_def Let_def)
    show ?thesis
      unfolding step using Cons.prems True Cons.IH [of "acc @ [be_entry e]"] by (auto simp: Let_def)
  next
    case False
    then have "collect_bucket mx loc acc (e # b) = collect_bucket mx loc acc b"
      by (auto simp: lookup_ok_def)
    then show ?thesis using Cons False by simp
  qed
qed auto

lemma collect_buckets_spec:
  assumes "length acc < mx \<or> mx = 0"
  shows "collect_buckets mx loc bs acc is =
    (let r = acc @ map be_entry (filter (lookup_ok loc) (concat (map ((!) bs) is)))
     in if mx = 0 then r else take mx r)"
  using assms
proof (induction "is" arbitrary: acc)
  case (Cons i "is")
  show ?case
    using Cons.prems Cons.IH [of "acc @ map be_entry (filter (lookup_ok loc) (bs ! i))"]
    by (auto simp: collect_bucket_spec Let_def)
qed auto

lemma bucket_indexes_less:
  assumes "table_inv t" "length target = KEY_SIZE" "i \<in> set (bucket_indexes t target)"
  shows "i < length (rt_buckets t)"
proof -
  have "(case bucket_index (rt_key t) target of None \<Rightarrow> 0 | Some i \<Rightarrow> i) < 32"
    using assms(1,2) bucket_index_less [of "rt_key t" target] by (auto simp: table_inv_def TABLE_SIZE_def split: option.splits)
  then show ?thesis
    using assms by (auto simp: bucket_indexes_def Let_def table_inv_def TABLE_SIZE_def split: if_splits)
qed

text \<open>What a lookup returns, without the loops.\<close>

lemma closest_entries_spec:
  "closest_entries_filtered t target mx loc = sort_key (\<lambda>e. xor_distance target (e_key e))
     (let r = map be_entry (filter (lookup_ok loc) (concat (map ((!) (rt_buckets t)) (bucket_indexes t target))))
      in if mx = 0 then r else take mx r)"
proof -
  have "length ([] :: entry list) < mx \<or> mx = 0" by auto
  from collect_buckets_spec [OF this] show ?thesis by (simp add: closest_entries_filtered_def)
qed

lemma add_entry_cases:
  assumes "add_entry now en t = (r, t')" "bucket_index (rt_key t) (e_key en) = Some i"
  obtains (old) "r = Exists" "t' = t" "bucket_contains (rt_buckets t ! i) (e_key en)"
    | (restricted) "r = Restricted" "t' = t" "\<not> bucket_contains (rt_buckets t ! i) (e_key en)"
    | (full) "r = Ignored" "t' = t" "\<not> bucket_contains (rt_buckets t ! i) (e_key en)"
    | (free) "r = Added" "\<not> bucket_contains (rt_buckets t ! i) (e_key en)"
        "t' = t\<lparr>rt_buckets := (rt_buckets t)[i := bucket_add now en (rt_buckets t ! i)]\<rparr>"
    | (repl) e where "List.find is_incompatible (rt_buckets t ! i) = Some e" "r = Added"
        "\<not> bucket_contains (rt_buckets t ! i) (e_key en)"
        "t' = t\<lparr>rt_buckets := (rt_buckets t)[i := bucket_add now en (bucket_remove (be_key e) (rt_buckets t ! i))]\<rparr>"
proof -
  have eq: "add_entry now en t = (if bucket_contains (rt_buckets t ! i) (e_key en) then (Exists, t)
     else if subnet_restricted (rt_buckets t) i en then (Restricted, t)
     else if length (rt_buckets t ! i) < BUCKET_SIZE
     then (Added, t\<lparr>rt_buckets := (rt_buckets t)[i := bucket_add now en (rt_buckets t ! i)]\<rparr>)
     else (case List.find is_incompatible (rt_buckets t ! i) of
         Some e \<Rightarrow> (Added, t\<lparr>rt_buckets := (rt_buckets t)[i := bucket_add now en (bucket_remove (be_key e) (rt_buckets t ! i))]\<rparr>)
       | None \<Rightarrow> (Ignored, t)))"
    by (simp add: add_entry_def assms(2) Let_def)
  show thesis
  proof (cases "bucket_contains (rt_buckets t ! i) (e_key en)")
    case True
    then show thesis using eq assms(1) old by simp
  next
    case new: False
    show thesis
    proof (cases "subnet_restricted (rt_buckets t) i en")
      case True
      then show thesis using eq assms(1) restricted new by simp
    next
      case False
      then show thesis
        using eq assms(1) new free full repl
        by (cases "List.find is_incompatible (rt_buckets t ! i)") (auto split: if_splits)
    qed
  qed
qed

lemma add_keys_free:
  assumes "table_inv t" "length (e_key en) = KEY_SIZE" "bucket_index (rt_key t) (e_key en) = Some i"
  shows "table_keys (t\<lparr>rt_buckets := (rt_buckets t)[i := bucket_add now en (rt_buckets t ! i)]\<rparr>) =
    insert (e_key en) (table_keys t - {})"
proof -
  note b = table_bucket [OF assms(1,3,2)]
  show ?thesis
    unfolding table_keys_update [OF b(1)] table_keys_split [OF b(1)] bucket_add_def by simp
qed

lemma add_keys_replace:
  assumes "table_inv t" "length (e_key en) = KEY_SIZE" "bucket_index (rt_key t) (e_key en) = Some i"
    and "List.find is_incompatible (rt_buckets t ! i) = Some e"
  shows "table_keys (t\<lparr>rt_buckets := (rt_buckets t)[i := bucket_add now en (bucket_remove (be_key e) (rt_buckets t ! i))]\<rparr>) =
    insert (e_key en) (table_keys t - {be_key e}) \<and> e \<in> set (concat (rt_buckets t)) \<and> is_incompatible e"
proof -
  note b = table_bucket [OF assms(1,3,2)]
  have e: "e \<in> set (rt_buckets t ! i)" "is_incompatible e"
    using assms(4) by (auto simp: find_Some_iff in_set_conv_nth)
  have r: "be_key ` set (bucket_remove (be_key e) (rt_buckets t ! i)) = be_key ` set (rt_buckets t ! i) - {be_key e}"
    using b(2) bkt.del_keys [of "rt_buckets t ! i"] by (simp add: bucket_inv_def)
  have "bucket_index (rt_key t) (be_key e) = Some i"
    using b(2) e(1) by (simp add: bucket_inv_def)
  then have "be_key e \<notin> (\<Union>j \<in> {..<length (rt_buckets t)} - {i}. be_key ` set (rt_buckets t ! j))"
    using other_bucket_keys [OF assms(1)] by blast
  with r have "table_keys (t\<lparr>rt_buckets := (rt_buckets t)[i := bucket_add now en (bucket_remove (be_key e) (rt_buckets t ! i))]\<rparr>) =
      insert (e_key en) (table_keys t - {be_key e})"
    unfolding table_keys_update [OF b(1)] table_keys_split [OF b(1)] bucket_add_def by auto
  moreover have "e \<in> set (concat (rt_buckets t))"
    using e(1) b(1) in_set_concat_nth by metis
  ultimately show ?thesis using e(2) by blast
qed

section \<open>Properties\<close>

text \<open>C5. The routing table invariant: from an empty table, every sequence of
  insertions, removals and status updates keeps 32 buckets of at most 20
  entries, every entry in the bucket of its key, no key twice, at most one
  entry per subnet in a bucket and at most six in the table.\<close>

theorem table_always_inv:
  assumes "length self = KEY_SIZE" "list_all table_op_ok ops"
  shows "table_inv (fold table_exec ops (rt_new self))"
  by (rule tbl_ops.fold_inv [OF assms(2) rt_new_inv [OF assms(1)]])

definition example_entry :: "u8 \<Rightarrow> entry" where
  "example_entry n = \<lparr>e_key = n # replicate 31 0,
     e_addrs = [\<lparr>pa_addr = Ip (V4 [10, 0, n, 1]), pa_port = 1, pa_protocol = TcpT, pa_priority = 0\<rparr>],
     e_discovery_addrs = [], e_protocols = 0\<rparr>"

theorem table_always_inv_witness:
  "table_inv (fold table_exec [OpAdd 0 (example_entry 1), OpUpdate 5 (1 # replicate 31 0) UNSTABLE_ENTRY,
     OpRemove (2 # replicate 31 0)] (rt_new (replicate 32 0)))"
  by (rule table_always_inv) (simp_all add: KEY_SIZE_def example_entry_def)

text \<open>Bucket placement: a key has no bucket exactly when it is the table's own
  key; otherwise its bucket is 31 minus the number of leading bytes it shares
  with the own key, hence in range.\<close>

lemma bucket_index_spec:
  assumes "length self = KEY_SIZE" "length k = KEY_SIZE"
  shows "bucket_index self k = (if k = self then None
    else Some (31 - length (takeWhile (\<lambda>(a, b). a = b) (zip self k))))
    \<and> (\<forall>i. bucket_index self k = Some i \<longrightarrow> i < TABLE_SIZE)"
proof -
  have "takeWhile (\<lambda>b. b = 0) (map2 (XOR) xs ys) = map2 (XOR) (map fst (takeWhile (\<lambda>(a, b). a = b) (zip xs ys)))
      (map snd (takeWhile (\<lambda>(a, b). a = b) (zip xs ys)))" for xs ys :: bytes
    by (induction xs ys rule: list_induct2') (auto simp: xor_zero_iff)
  then have "length (takeWhile (\<lambda>b. b = 0) (xor_distance self k)) = length (takeWhile (\<lambda>(a, b). a = b) (zip self k))"
    using assms by (simp add: xor_distance_wf)
  then show ?thesis
    using index_scan_spec [of 0 "xor_distance self k"] xor_distance_zero [OF assms] length_xor_distance [OF assms]
      bucket_index_less [OF assms]
    by (auto simp: bucket_index_def KEY_SIZE_def)
qed

lemma bucket_index_spec_witness:
  "bucket_index (replicate 32 0) (0 # 7 # replicate 30 0) = Some 30"
proof -
  have "(0 # 7 # replicate 30 0 :: u8 list) \<noteq> replicate 32 0" by code_simp
  moreover have "length (takeWhile (\<lambda>(a, b). a = b) (zip (replicate 32 (0 :: u8)) (0 # 7 # replicate 30 0))) = 1"
    by code_simp
  ultimately show ?thesis
    using bucket_index_spec [of "replicate 32 0" "0 # 7 # replicate 30 0"] by (simp add: KEY_SIZE_def)
qed

text \<open>Insertion: the answer says what happened.  \<^term>\<open>Exists\<close> exactly when the
  key is already there; on \<^term>\<open>Added\<close> the key is there afterwards and at most one
  other key is gone, namely one marked incompatible in a full bucket; every other
  answer leaves the table unchanged.\<close>

lemma add_entry_spec:
  assumes "table_inv t" "length (e_key en) = KEY_SIZE" "add_entry now en t = (r, t')"
  shows "(r = Exists \<longleftrightarrow> contains_key t (e_key en))
    \<and> (r \<noteq> Added \<longrightarrow> t' = t)
    \<and> (r = Added \<longrightarrow> contains_key t' (e_key en)
         \<and> (\<exists>gone. table_keys t' = insert (e_key en) (table_keys t - gone)
              \<and> (\<forall>k \<in> gone. \<exists>e \<in> set (concat (rt_buckets t)). be_key e = k \<and> is_incompatible e)))"
proof (cases "bucket_index (rt_key t) (e_key en)")
  case None
  then show ?thesis using assms by (auto simp: add_entry_def contains_key_def)
next
  case (Some i)
  have inv': "table_inv t'" using add_entry_inv [OF assms(1,2), of now] assms(3) by simp
  have c: "contains_key t (e_key en) \<longleftrightarrow> bucket_contains (rt_buckets t ! i) (e_key en)"
    by (simp add: contains_key_def Some)
  from assms(3) Some show ?thesis
  proof (cases rule: add_entry_cases)
    case free
    then show ?thesis
      using add_keys_free [OF assms(1,2) Some, of now] contains_key_iff [OF inv' assms(2)] c by blast
  next
    case (repl e)
    then show ?thesis
      using add_keys_replace [OF assms(1,2) Some repl(1), of now] contains_key_iff [OF inv' assms(2)] c by blast
  qed (use c in auto)
qed

lemma add_entry_spec_witness:
  "\<exists>t'. add_entry 0 (example_entry 1) (rt_new (replicate 32 0)) = (Added, t') \<and> contains_key t' (1 # replicate 31 0)"
proof -
  obtain r t' where a: "add_entry 0 (example_entry 1) (rt_new (replicate 32 0)) = (r, t')" by fastforce
  have "fst (add_entry 0 (example_entry 1) (rt_new (replicate 32 0))) = Added" by code_simp
  then have "r = Added" using a by simp
  then show ?thesis
    using add_entry_spec [OF rt_new_inv _ a] a by (simp add: KEY_SIZE_def example_entry_def)
qed

text \<open>C34. The subnet check with its early exits decides exactly the stated limits: an
  entry is restricted when its own bucket holds an entry of the same subnet or when
  the whole table holds six.\<close>

theorem subnet_restricted_iff:
  assumes "idx < length bs"
  shows "subnet_restricted bs idx en \<longleftrightarrow>
    MAX_MATCHED_SUBNET_IN_BUCKET \<le> length (filter (entry_matched en) (bs ! idx))
    \<or> MAX_MATCHED_SUBNET_IN_TABLE \<le> length (filter (entry_matched en) (concat bs))"
proof -
  have "(\<exists>e \<in> set xs. P e) \<longleftrightarrow> 1 \<le> length (filter P xs)" for P :: "bucket_entry \<Rightarrow> bool" and xs
    by (induction xs) auto
  then show ?thesis
    using subnet_restricted_spec [OF assms, of en] by (simp add: MAX_MATCHED_SUBNET_IN_BUCKET_def)
qed

theorem subnet_restricted_iff_witness:
  "subnet_restricted [bucket_add 0 (example_entry 1) []] 0 (example_entry 1)"
  using subnet_restricted_iff [of 0 "[bucket_add 0 (example_entry 1) []]" "example_entry 1"]
  by (simp add: bucket_add_def entry_matched_def primary_addr_def example_entry_def subnet_match_def
      is_loopback_pair_def MAX_MATCHED_SUBNET_IN_BUCKET_def)



text \<open>Which buckets a lookup visits: the bucket of the target and the buckets
  1 to 30, each once.  The first and the last bucket are therefore searched only when
  they are the target's own, although the last one holds every key whose first
  byte differs.\<close>

lemma bucket_indexes_visited:
  assumes "table_inv t" "length target = KEY_SIZE"
  shows "set (bucket_indexes t target) =
    insert (case bucket_index (rt_key t) target of None \<Rightarrow> 0 | Some i \<Rightarrow> i) {1..30}"
proof -
  define b where "b = (case bucket_index (rt_key t) target of None \<Rightarrow> 0 | Some i \<Rightarrow> i)"
  have b: "b < 32"
    using bucket_indexes_less [OF assms, of b] assms(1) by (simp add: b_def bucket_indexes_def Let_def table_inv_def TABLE_SIZE_def)
  have eq: "set (bucket_indexes t target) = insert b
      (\<Union>i \<in> {1..<32}. (if i \<le> b \<and> 1 \<le> b - i then {b - i} else {}) \<union> (if b + i < 31 then {b + i} else {}))"
    by (auto simp: bucket_indexes_def Let_def TABLE_SIZE_def DISTANCE_LIMIT_def simp flip: b_def split: if_splits)
  have "x \<in> set (bucket_indexes t target)" if "1 \<le> x" "x \<le> 30" for x
  proof -
    consider "x = b" | "x < b" | "b < x" by linarith
    then show ?thesis
    proof cases
      case 2
      then have "b - x \<in> {1..<32}" "b - x \<le> b \<and> 1 \<le> b - (b - x)" "b - (b - x) = x" using that b by auto
      then show ?thesis unfolding eq by (intro insertI2 UN_I [of "b - x"]) auto
    next
      case 3
      then have "x - b \<in> {1..<32}" "b + (x - b) < 31" "b + (x - b) = x" using that by auto
      then show ?thesis unfolding eq by (intro insertI2 UN_I [of "x - b"]) auto
    qed (simp add: eq)
  qed
  moreover have "x = b \<or> 1 \<le> x \<and> x \<le> 30" if "x \<in> set (bucket_indexes t target)" for x
    using that b unfolding eq by (auto split: if_splits)
  moreover have "b \<in> set (bucket_indexes t target)" unfolding eq by simp
  ultimately have "set (bucket_indexes t target) = insert b {1..30}"
    by (intro set_eqI) (metis atLeastAtMost_iff insert_iff)
  then show ?thesis unfolding b_def .
qed

lemma bucket_indexes_visited_witness:
  "31 \<notin> set (bucket_indexes (rt_new (replicate 32 0)) (0 # 7 # replicate 30 0))"
proof -
  have "bucket_index (replicate 32 0) (0 # 7 # replicate 30 0) = Some 30" by code_simp
  then show ?thesis
    using bucket_indexes_visited [OF rt_new_inv [of "replicate 32 0"], of "0 # 7 # replicate 30 0"]
    by (simp add: KEY_SIZE_def rt_new_def)
qed

text \<open>Removal: removing keys leaves a well-formed table with exactly the other
  keys, and a removed key is not found again.\<close>

lemma remove_entries_spec:
  assumes "table_inv t" "list_all (\<lambda>k. length k = KEY_SIZE) ks" "length j = KEY_SIZE"
  shows "table_keys (fold remove_entry ks t) = table_keys t - set ks
    \<and> (contains_key (fold remove_entry ks t) j \<longleftrightarrow> contains_key t j \<and> j \<notin> set ks)"
  using tbl.fold_del [OF assms(1,2)] tbl.member_keys [OF _ assms(3)] assms(1) by auto

lemma remove_entries_spec_witness:
  "\<not> contains_key (fold remove_entry [1 # replicate 31 0] (snd (add_entry 0 (example_entry 1) (rt_new (replicate 32 0)))))
     (1 # replicate 31 0)"
  using remove_entries_spec [OF add_entry_inv [OF rt_new_inv [of "replicate 32 0"], of "example_entry 1" 0],
      of "[1 # replicate 31 0]" "1 # replicate 31 0"]
  by (simp add: KEY_SIZE_def example_entry_def)

text \<open>Random choice: for any order in which \<open>sample\<close> visits all buckets and entries,
  a returned entry is in the table, has one of the wanted states and passes the
  filter; and nothing is returned only when the table has no such entry.\<close>

lemma random_entry_spec:
  assumes "set (sample_b (rt_buckets t)) = set (rt_buckets t)" "\<And>b. set (sample_e b) = set b"
  shows "case random_entry_filtered sample_b sample_e flag loc t of
      None \<Rightarrow> \<forall>e \<in> set (concat (rt_buckets t)). \<not> random_ok flag loc e
    | Some en \<Rightarrow> \<exists>e \<in> set (concat (rt_buckets t)). be_entry e = en \<and> random_ok flag loc e"
proof -
  have "set (concat (map sample_e (sample_b (rt_buckets t)))) = set (concat (rt_buckets t))"
    using assms(1,2) by simp
  then show ?thesis
    by (auto simp: random_entry_filtered_def find_None_iff find_Some_iff split: option.splits
        simp del: set_concat)
qed

lemma random_entry_spec_witness:
  "case random_entry_filtered rev rev PENDING_ENTRY local_bloom_default (rt_new (replicate 32 0)) of
      None \<Rightarrow> \<forall>e \<in> set (concat (rt_buckets (rt_new (replicate 32 0)))). \<not> random_ok PENDING_ENTRY local_bloom_default e
    | Some en \<Rightarrow> \<exists>e \<in> set (concat (rt_buckets (rt_new (replicate 32 0)))). be_entry e = en
        \<and> random_ok PENDING_ENTRY local_bloom_default e"
  by (rule random_entry_spec) simp_all

end
