(* ===== verification/P2p_Handshake.thy ===== *)
theory P2p_Handshake
  imports P2p_Types Net_Codec
begin

text \<open>
  Versions (\<open>p2p/src/version.rs\<close>), the wire envelope and its codec (\<open>p2p/src/message.rs\<close>,
  \<open>p2p/src/codec.rs\<close>, \<open>p2p/src/util.rs\<close>) and the handshake of two peers
  (\<open>p2p/src/handshake.rs\<close>).  The semver library and the binary codec are arguments;
  a hash map is the list of its pairs in iteration order.
\<close>

section \<open>Versions\<close>

text \<open>A version requirement of the semver library, named by its text.\<close>

type_synonym version_req = string

record semver_api =
  req_parse :: "string \<Rightarrow> string + version_req"
  req_to_string :: "version_req \<Rightarrow> string"
  req_matches :: "version_req \<Rightarrow> u64 \<times> u64 \<times> u64 \<Rightarrow> bool"

record version_int =
  major :: u64
  minor :: u64
  patch :: u64

record version =
  ver_v :: version_int
  ver_req :: version_req

text \<open>\<open>str::split\<close> and \<open>u64::from_str\<close> of the standard library.\<close>

fun split_str :: "string \<Rightarrow> string \<Rightarrow> string \<Rightarrow> string list" where
  "split_str sep cur [] = [cur]"
| "split_str sep cur (c # s) =
     (if sep \<noteq> [] \<and> take (length sep) (c # s) = sep then cur # split_str sep [] (drop (length sep - 1) s)
      else split_str sep (cur @ [c]) s)"

fun digits_u64 :: "string \<Rightarrow> nat \<Rightarrow> string + u64" where
  "digits_u64 [] acc = Inr (of_nat acc)"
| "digits_u64 (c # s) acc = (case to_digit 10 c of
      None \<Rightarrow> Inl ''invalid digit found in string''
    | Some d \<Rightarrow> if 2 ^ 64 \<le> acc * 10 + d then Inl ''number too large to fit in target type''
        else digits_u64 s (acc * 10 + d))"

definition parse_u64 :: "string \<Rightarrow> string + u64" where
  "parse_u64 s = (case s of
      [] \<Rightarrow> Inl ''cannot parse integer from empty string''
    | c # r \<Rightarrow> digits_u64 (if c = CHR ''+'' \<and> r \<noteq> [] then r else s) 0)"

definition version_int_from_str :: "string \<Rightarrow> p2p_error + version_int" where
  "version_int_from_str s = (let v = split_str ''.'' [] s in
     if length v < 2 \<or> length v > 3 then Inl (ParseError (''Invalid version'' @ s))
     else res_bind (map_err ParseIntError (parse_u64 (v ! 0))) (\<lambda>mj.
          res_bind (map_err ParseIntError (parse_u64 (v ! 1))) (\<lambda>mi.
          res_bind (map_err ParseIntError (parse_u64 (if 2 < length v then v ! 2 else ''0''))) (\<lambda>pa.
            Inr \<lparr>major = mj, minor = mi, patch = pa\<rparr>))))"

definition version_from_str :: "semver_api \<Rightarrow> string \<Rightarrow> p2p_error + version" where
  "version_from_str S s = (let v = split_str '', '' [] s in
     if v = [] \<or> length v > 2 then Inl (ParseError (''Invalid version'' @ s))
     else res_bind (version_int_from_str (v ! 0)) (\<lambda>vi.
          res_bind (map_err SemverError (req_parse S (if length v > 1 then v ! 1 else v ! 0))) (\<lambda>r.
            Inr \<lparr>ver_v = vi, ver_req = r\<rparr>)))"

definition version_int_display :: "version_int \<Rightarrow> string" where
  "version_int_display v =
     show_nat (unat (major v)) @ ''.'' @ show_nat (unat (minor v)) @ ''.'' @ show_nat (unat (patch v))"

definition to_semver :: "version_int \<Rightarrow> u64 \<times> u64 \<times> u64" where
  "to_semver v = (major v, minor v, patch v)"

definition version_match :: "semver_api \<Rightarrow> version_req \<Rightarrow> version_int \<Rightarrow> bool" where
  "version_match S r v = req_matches S r (to_semver v)"

section \<open>Wire envelope\<close>

datatype peer_net_cmd = CmdVersion | CmdVerack | CmdProtocol | CmdShutdown

fun cmd_debug :: "peer_net_cmd \<Rightarrow> string" where
  "cmd_debug CmdVersion = ''Version''"
| "cmd_debug CmdVerack = ''Verack''"
| "cmd_debug CmdProtocol = ''Protocol''"
| "cmd_debug CmdShutdown = ''Shutdown''"

record peer_net_msg_header =
  command :: peer_net_cmd

record peer_net_msg =
  header :: peer_net_msg_header
  payload :: bytes

record protocol_msg =
  pm_protocol_id :: protocol_id
  pm_payload :: bytes

datatype shutdown_msg = ShutdownMsg u8

text \<open>\<open>encode\<close> and \<open>decode\<close> of \<open>util.rs\<close> over the external binary codec of a type.\<close>

type_synonym 'a bin_enc = "'a \<Rightarrow> string + bytes"
type_synonym 'a bin_dec = "bytes \<Rightarrow> string + ('a \<times> nat)"

definition p2p_encode :: "'a bin_enc \<Rightarrow> 'a \<Rightarrow> p2p_error + bytes" where
  "p2p_encode enc src = map_err P2pBincodeEncode (enc src)"

definition p2p_decode :: "'a bin_dec \<Rightarrow> bytes \<Rightarrow> p2p_error + ('a \<times> nat)" where
  "p2p_decode dec src = map_err P2pBincodeDecode (dec src)"

definition peer_net_msg_new :: "'a bin_enc \<Rightarrow> peer_net_cmd \<Rightarrow> 'a \<Rightarrow> p2p_error + peer_net_msg" where
  "peer_net_msg_new enc cmd t =
     res_bind (p2p_encode enc t) (\<lambda>p. Inr \<lparr>header = \<lparr>command = cmd\<rparr>, payload = p\<rparr>)"

text \<open>The codec of the data plane: a bincode envelope inside the length codec.
  \<open>show_err\<close> is the text of an error.\<close>

definition peer_net_encode ::
  "peer_net_msg bin_enc \<Rightarrow> (u32 \<Rightarrow> string + bytes) \<Rightarrow> (p2p_error \<Rightarrow> string) \<Rightarrow> peer_net_msg \<Rightarrow> buffer \<Rightarrow> net_error + nat \<times> buffer" where
  "peer_net_encode enc enc32 show_err src dst =
     res_bind (map_err (\<lambda>e. IO (IoMsg Other (show_err e))) (p2p_encode enc src))
       (\<lambda>bs. length_encode enc32 MAX_BUFFER_SIZE bs dst)"

definition peer_net_decode ::
  "peer_net_msg bin_dec \<Rightarrow> (bytes \<Rightarrow> string + u32) \<Rightarrow> (p2p_error \<Rightarrow> string) \<Rightarrow> buffer \<Rightarrow> net_error + (nat \<times> peer_net_msg) option" where
  "peer_net_decode dec dec32 show_err src =
     res_bind (length_decode dec32 MAX_BUFFER_SIZE src) (\<lambda>r. case r of
        Some (n, s) \<Rightarrow>
          res_bind (map_err (\<lambda>e. IO (IoMsg Other (show_err e))) (p2p_decode dec s))
            (\<lambda>(m, _). Inr (Some (n, m)))
      | None \<Rightarrow> Inr None)"

section \<open>Handshake\<close>

record wire_version =
  wv_v :: version_int
  wv_req :: string

definition wire_version_from :: "semver_api \<Rightarrow> version \<Rightarrow> wire_version" where
  "wire_version_from S v = \<lparr>wv_v = ver_v v, wv_req = req_to_string S (ver_req v)\<rparr>"

record ver_msg =
  vm_peer_id :: peer_id
  vm_version :: wire_version
  vm_protocols :: "(protocol_id \<times> wire_version) list"

record ver_ack_msg =
  ack_peer_id :: peer_id
  ack :: bool

record protocol_meta =
  meta_version :: version
  meta_flags :: protocol_flags

record handshake_params =
  own_id :: peer_id
  config_version :: version
  hp_protocols :: "(protocol_id \<times> protocol_meta) list"
  timeout_secs :: u64
  verified_peer_id :: "peer_id option"

text \<open>The binary codecs of the two handshake messages, and the semver library.\<close>

record hs_api =
  ver_enc :: "ver_msg bin_enc"
  ver_dec :: "ver_msg bin_dec"
  vack_enc :: "ver_ack_msg bin_enc"
  vack_dec :: "ver_ack_msg bin_dec"
  hs_semver :: semver_api

definition mutual_match :: "semver_api \<Rightarrow> version \<Rightarrow> wire_version \<Rightarrow> bool" where
  "mutual_match S ours theirs = (case req_parse S (wv_req theirs) of
      Inl _ \<Rightarrow> False
    | Inr their_req \<Rightarrow> version_match S (ver_req ours) (wv_v theirs) \<and> version_match S their_req (ver_v ours))"

definition protocols_intersection ::
  "semver_api \<Rightarrow> (protocol_id \<times> protocol_meta) list \<Rightarrow> (protocol_id \<times> wire_version) list \<Rightarrow> protocol_id list" where
  "protocols_intersection S our their = map fst (filter (\<lambda>(name, theirs). case map_of our name of
      Some m \<Rightarrow> mutual_match S (meta_version m) theirs
    | None \<Rightarrow> False) their)"

definition validate_version_msg ::
  "hs_api \<Rightarrow> peer_net_msg \<Rightarrow> handshake_params \<Rightarrow> p2p_error + peer_id \<times> protocol_id list" where
  "validate_version_msg A msg p = res_bind (p2p_decode (ver_dec A) (payload msg)) (\<lambda>(vermsg, _).
     if \<not> mutual_match (hs_semver A) (config_version p) (vm_version vermsg)
     then Inl (IncompatibleVersion ''system version'')
     else if (case verified_peer_id p of Some vpid \<Rightarrow> vpid \<noteq> vm_peer_id vermsg | None \<Rightarrow> False)
     then Inl IncompatiblePeer
     else (let shared = protocols_intersection (hs_semver A) (hp_protocols p) (vm_protocols vermsg) in
       if shared = [] then Inl IncompatiblePeer
       else if list_ex (\<lambda>(id, meta). flags_contains (meta_flags meta) REQUIRED \<and> id \<notin> set shared) (hp_protocols p)
       then Inl IncompatiblePeer
       else Inr (vm_peer_id vermsg, shared)))"

definition validate_verack_msg :: "hs_api \<Rightarrow> peer_net_msg \<Rightarrow> peer_id \<Rightarrow> p2p_error + unit" where
  "validate_verack_msg A msg pid = res_bind (p2p_decode (vack_dec A) (payload msg)) (\<lambda>(verack, _).
     if \<not> ack verack \<or> ack_peer_id verack \<noteq> pid then Inl IncompatiblePeer else Inr ())"

text \<open>Sending either yields the message that went out or the error of the writer;
  \<open>werr\<close> is the transport error of a write, if any.\<close>

definition send_vermsg :: "hs_api \<Rightarrow> handshake_params \<Rightarrow> net_error option \<Rightarrow> p2p_error + peer_net_msg" where
  "send_vermsg A p werr =
     (let vermsg = \<lparr>vm_peer_id = own_id p, vm_version = wire_version_from (hs_semver A) (config_version p),
                    vm_protocols = map (\<lambda>(k, m). (k, wire_version_from (hs_semver A) (meta_version m))) (hp_protocols p)\<rparr>
      in res_bind (peer_net_msg_new (ver_enc A) CmdVersion vermsg) (\<lambda>m.
           case werr of None \<Rightarrow> Inr m | Some e \<Rightarrow> Inl (P2pNet e)))"

definition send_verack :: "hs_api \<Rightarrow> peer_id \<Rightarrow> bool \<Rightarrow> net_error option \<Rightarrow> p2p_error + peer_net_msg" where
  "send_verack A oid b werr =
     res_bind (peer_net_msg_new (vack_enc A) CmdVerack \<lparr>ack_peer_id = oid, ack = b\<rparr>) (\<lambda>m.
       case werr of None \<Rightarrow> Inr m | Some e \<Rightarrow> Inl (P2pNet e))"

text \<open>A receive under the handshake timeout: a message, a transport error, or the
  timeout, which also fires when nothing more arrives.\<close>

datatype hs_ev = HsMsg peer_net_msg | HsErr net_error | HsTimeout

fun hs_recv :: "hs_ev list \<Rightarrow> (p2p_error + peer_net_msg) \<times> hs_ev list" where
  "hs_recv [] = (Inl (P2pCore CoreTimeout), [])"
| "hs_recv (HsMsg m # es) = (Inr m, es)"
| "hs_recv (HsErr e # es) = (Inl (P2pNet e), es)"
| "hs_recv (HsTimeout # es) = (Inl (P2pCore CoreTimeout), es)"

definition verack_answer :: "p2p_error + 'a \<Rightarrow> bool option" where
  "verack_answer r = (case r of Inr _ \<Rightarrow> Some True
     | Inl (IncompatibleVersion _) \<Rightarrow> Some False | Inl IncompatiblePeer \<Rightarrow> Some False | Inl _ \<Rightarrow> None)"

text \<open>The whole handshake: its result and the messages sent.\<close>

definition handshake ::
  "hs_api \<Rightarrow> handshake_params \<Rightarrow> (peer_net_cmd \<Rightarrow> net_error option) \<Rightarrow> hs_ev list
     \<Rightarrow> (p2p_error + peer_id \<times> protocol_id list) \<times> peer_net_msg list" where
  "handshake A p werr es = (case send_vermsg A p (werr CmdVersion) of
      Inl e \<Rightarrow> (Inl e, [])
    | Inr m1 \<Rightarrow> (case hs_recv es of
        (Inl e, _) \<Rightarrow> (Inl e, [m1])
      | (Inr msg, es1) \<Rightarrow>
          (let result = (if command (header msg) = CmdVersion then validate_version_msg A msg p
                 else Inl (P2pInvalidMsg (''unexpected msg found '' @ cmd_debug (command (header msg)))))
           in case (case verack_answer result of None \<Rightarrow> Inr []
                | Some b \<Rightarrow> res_bind (send_verack A (own_id p) b (werr CmdVerack)) (\<lambda>m. Inr [m])) of
              Inl e \<Rightarrow> (Inl e, [m1])
            | Inr m2 \<Rightarrow> (res_bind result (\<lambda>(pid, shared). res_bind (fst (hs_recv es1)) (\<lambda>msg.
                  if command (header msg) = CmdVerack
                  then res_bind (validate_verack_msg A msg pid) (\<lambda>_. Inr (pid, shared))
                  else Inl (P2pInvalidMsg (''unexpected msg found '' @ cmd_debug (command (header msg)))))),
                m1 # m2))))"

section \<open>Version round trip\<close>

lemma show_nat_nonempty [simp]: "show_nat n \<noteq> []"
  by (simp add: show_nat.simps [of n])

lemma digit_char_code: "d < 10 \<Longrightarrow> (of_char (digit_char d) :: nat) = 48 + d"
  by simp

lemma digit_char_not_sep: "d < 10 \<Longrightarrow> digit_char d \<noteq> CHR ''.''" "d < 10 \<Longrightarrow> digit_char d \<noteq> CHR ''+''"
  using digit_char_code [of d] by (auto simp del: digit_char.simps)

declare digit_char.simps [simp del]

lemma show_nat_chars: "c \<in> set (show_nat n) \<Longrightarrow> \<exists>d < 10. c = digit_char d"
proof (induction n rule: show_nat.induct)
  case (1 n)
  have "\<exists>d < 10. digit_char (n mod 10) = digit_char d" by (rule exI [of _ "n mod 10"]) simp
  with 1 show ?case by (subst (asm) (2) show_nat.simps) (auto split: if_splits)
qed

lemma show_nat_no_sep: "CHR ''.'' \<notin> set (show_nat n)" "CHR ''+'' \<notin> set (show_nat n)"
  using show_nat_chars digit_char_not_sep by metis+

lemma digits_u64_show_aux:
  "n < 2 ^ 64 \<Longrightarrow> digits_u64 (show_nat n @ s) 0 = digits_u64 s n"
proof (induction n arbitrary: s rule: show_nat.induct)
  case (1 n)
  show ?case
  proof (cases "n < 10")
    case True
    then show ?thesis by (simp add: show_nat.simps [of n])
  next
    case False
    have "n div 10 < 2 ^ 64" using 1 by simp
    with 1 False show ?thesis by (subst show_nat.simps) simp
  qed
qed

lemma parse_u64_show: "parse_u64 (show_nat (unat w)) = Inr w"
proof -
  have "unat w < 2 ^ 64" using unsigned_less [of w] by simp
  then have "digits_u64 (show_nat (unat w)) 0 = Inr w"
    using digits_u64_show_aux [of "unat w" "[]"] by simp
  moreover have "hd (show_nat (unat w)) \<noteq> CHR ''+''"
    using show_nat_no_sep(2) [of "unat w"] hd_in_set [OF show_nat_nonempty, of "unat w"] by metis
  ultimately show ?thesis by (auto simp: parse_u64_def split: list.splits)
qed

lemma split_dot_none: "CHR ''.'' \<notin> set s \<Longrightarrow> split_str ''.'' cur s = [cur @ s]"
  by (induction s arbitrary: cur) auto

lemma split_dot: "CHR ''.'' \<notin> set s \<Longrightarrow> split_str ''.'' cur (s @ CHR ''.'' # r) = (cur @ s) # split_str ''.'' [] r"
  by (induction s arbitrary: cur) auto

section \<open>Two honest peers\<close>

text \<open>What the code relies on of the libraries, for the messages of one node:
  the requirement text parses back, and the binary codecs invert each other, up to the
  iteration order of the decoded hash map.\<close>

definition own_vermsg :: "hs_api \<Rightarrow> handshake_params \<Rightarrow> ver_msg" where
  "own_vermsg A p = \<lparr>vm_peer_id = own_id p, vm_version = wire_version_from (hs_semver A) (config_version p),
     vm_protocols = map (\<lambda>(k, m). (k, wire_version_from (hs_semver A) (meta_version m))) (hp_protocols p)\<rparr>"

definition vermsg_law :: "hs_api \<Rightarrow> handshake_params \<Rightarrow> bool" where
  "vermsg_law A p \<longleftrightarrow> (\<exists>b m n. ver_enc A (own_vermsg A p) = Inr b \<and> ver_dec A b = Inr (m, n)
     \<and> vm_peer_id m = own_id p \<and> vm_version m = vm_version (own_vermsg A p)
     \<and> mset (vm_protocols m) = mset (vm_protocols (own_vermsg A p)))"

definition verack_law :: "hs_api \<Rightarrow> handshake_params \<Rightarrow> bool" where
  "verack_law A p \<longleftrightarrow> (\<forall>a. \<exists>b n. vack_enc A \<lparr>ack_peer_id = own_id p, ack = a\<rparr> = Inr b
     \<and> vack_dec A b = Inr (\<lparr>ack_peer_id = own_id p, ack = a\<rparr>, n))"

definition semver_law :: "semver_api \<Rightarrow> bool" where
  "semver_law S \<longleftrightarrow> (\<forall>r. req_parse S (req_to_string S r) = Inr r)"

text \<open>The outcome the two nodes should reach.\<close>

definition mutual :: "semver_api \<Rightarrow> version \<Rightarrow> version \<Rightarrow> bool" where
  "mutual S a b \<longleftrightarrow> version_match S (ver_req a) (ver_v b) \<and> version_match S (ver_req b) (ver_v a)"

definition shared_protocols :: "semver_api \<Rightarrow> handshake_params \<Rightarrow> handshake_params \<Rightarrow> protocol_id set" where
  "shared_protocols S p q = {id. \<exists>m m'. map_of (hp_protocols p) id = Some m \<and> map_of (hp_protocols q) id = Some m'
     \<and> mutual S (meta_version m) (meta_version m')}"

definition accepts_peer :: "semver_api \<Rightarrow> handshake_params \<Rightarrow> handshake_params \<Rightarrow> bool" where
  "accepts_peer S p q \<longleftrightarrow> mutual S (config_version p) (config_version q)
     \<and> verified_peer_id p \<in> {None, Some (own_id q)} \<and> shared_protocols S p q \<noteq> {}
     \<and> (\<forall>(id, m) \<in> set (hp_protocols p). flags_contains (meta_flags m) REQUIRED \<longrightarrow> id \<in> shared_protocols S p q)"

definition wf_params :: "handshake_params \<Rightarrow> bool" where
  "wf_params p \<longleftrightarrow> distinct (map fst (hp_protocols p))"

lemma mutual_sym: "mutual S a b = mutual S b a"
  by (auto simp: mutual_def)

lemma shared_sym: "shared_protocols S p q = shared_protocols S q p"
  by (auto simp: shared_protocols_def mutual_sym)

lemma mutual_match_wire: "semver_law S \<Longrightarrow> mutual_match S a (wire_version_from S b) = mutual S a b"
  by (simp add: mutual_match_def wire_version_from_def semver_law_def mutual_def)

lemma intersection_set:
  assumes S: "semver_law S" and q: "wf_params q"
    and m: "mset l = mset (map (\<lambda>(k, m). (k, wire_version_from S (meta_version m))) (hp_protocols q))"
  shows "set (protocols_intersection S (hp_protocols p) l) = shared_protocols S p q"
proof -
  have "set l = (\<lambda>(k, m). (k, wire_version_from S (meta_version m))) ` set (hp_protocols q)"
    using arg_cong [OF m, of set_mset] by simp
  moreover have "(k, m) \<in> set (hp_protocols q) \<longleftrightarrow> map_of (hp_protocols q) k = Some m" for k m
    using q by (simp add: wf_params_def)
  ultimately have l: "(k, w) \<in> set l \<longleftrightarrow>
      (\<exists>m. map_of (hp_protocols q) k = Some m \<and> w = wire_version_from S (meta_version m))" for k w
    by auto
  have "id \<in> set (protocols_intersection S (hp_protocols p) l) \<longleftrightarrow>
      (\<exists>w m. (id, w) \<in> set l \<and> map_of (hp_protocols p) id = Some m \<and> mutual_match S (meta_version m) w)" for id
    unfolding protocols_intersection_def by (force split: option.splits)
  then show ?thesis
    unfolding shared_protocols_def l by (auto simp: mutual_match_wire [OF S])
qed

lemma validate_honest:
  assumes S: "semver_law (hs_semver A)" and q: "wf_params q" and v: "vermsg_law A q"
    and s: "send_vermsg A q None = Inr msg"
  shows "if accepts_peer (hs_semver A) p q
    then \<exists>sh. validate_version_msg A msg p = Inr (own_id q, sh) \<and> set sh = shared_protocols (hs_semver A) p q
    else verack_answer (validate_version_msg A msg p) = Some False"
proof -
  obtain b m n where b: "ver_enc A (own_vermsg A q) = Inr b" "ver_dec A b = Inr (m, n)"
      "vm_peer_id m = own_id q" "vm_version m = wire_version_from (hs_semver A) (config_version q)"
      "mset (vm_protocols m) = mset (map (\<lambda>(k, m). (k, wire_version_from (hs_semver A) (meta_version m))) (hp_protocols q))"
    using v by (auto simp: vermsg_law_def own_vermsg_def)
  have msg: "payload msg = b"
    using s b(1) by (auto simp: send_vermsg_def own_vermsg_def peer_net_msg_new_def p2p_encode_def map_err_def Let_def)
  let ?sh = "protocols_intersection (hs_semver A) (hp_protocols p) (vm_protocols m)"
  have sh: "set ?sh = shared_protocols (hs_semver A) p q"
    by (rule intersection_set [OF S q b(5)])
  have e: "?sh = [] \<longleftrightarrow> shared_protocols (hs_semver A) p q = {}"
    using sh by (metis set_empty)
  show ?thesis
    using b(3)
    by (auto simp: validate_version_msg_def accepts_peer_def p2p_decode_def map_err_def msg b(2,4) list_ex_iff e sh
        mutual_match_wire [OF S] Let_def verack_answer_def split: option.splits)
qed

lemma verack_honest:
  assumes "verack_law A q" "send_verack A (own_id q) a None = Inr msg"
  shows "command (header msg) = CmdVerack
    \<and> validate_verack_msg A msg (own_id q) = (if a then Inr () else Inl IncompatiblePeer)"
proof -
  obtain b n where "vack_enc A \<lparr>ack_peer_id = own_id q, ack = a\<rparr> = Inr b"
      "vack_dec A b = Inr (\<lparr>ack_peer_id = own_id q, ack = a\<rparr>, n)"
    using assms(1) unfolding verack_law_def by blast
  then show ?thesis
    using assms(2) by (auto simp: send_verack_def peer_net_msg_new_def p2p_encode_def map_err_def
        validate_verack_msg_def p2p_decode_def)
qed

lemma send_vermsg_ok:
  "vermsg_law A p \<Longrightarrow> \<exists>m. send_vermsg A p None = Inr m \<and> command (header m) = CmdVersion"
  by (auto simp: send_vermsg_def vermsg_law_def own_vermsg_def peer_net_msg_new_def p2p_encode_def map_err_def Let_def)

lemma send_verack_ok: "verack_law A p \<Longrightarrow> \<exists>m. send_verack A (own_id p) a None = Inr m"
  unfolding verack_law_def
  by (drule spec [of _ a]) (auto simp: send_verack_def peer_net_msg_new_def p2p_encode_def map_err_def)

text \<open>One side against an honest peer: it sends its version, then the verdict on the
  version of the peer, and succeeds when it accepts and the peer sends a positive verdict.\<close>

lemma handshake_side:
  assumes S: "semver_law (hs_semver A)" and q: "wf_params q" and v: "vermsg_law A p" "vermsg_law A q"
    and a: "verack_law A p" and w: "werr = (\<lambda>_. None)"
    and m: "send_vermsg A p None = Inr mp" "send_vermsg A q None = Inr mq"
    and k: "send_verack A (own_id p) (accepts_peer (hs_semver A) p q) None = Inr kp"
    and es: "es = HsMsg mq # es1"
  shows "snd (handshake A p werr es) = [mp, kp]
    \<and> (\<not> accepts_peer (hs_semver A) p q \<longrightarrow> (\<exists>e. fst (handshake A p werr es) = Inl e))
    \<and> (accepts_peer (hs_semver A) p q \<longrightarrow> (\<exists>sh. set sh = shared_protocols (hs_semver A) p q
        \<and> fst (handshake A p werr es) = res_bind (fst (hs_recv es1)) (\<lambda>msg.
            if command (header msg) = CmdVerack then res_bind (validate_verack_msg A msg (own_id q)) (\<lambda>_. Inr (own_id q, sh))
            else Inl (P2pInvalidMsg (''unexpected msg found '' @ cmd_debug (command (header msg)))))))"
proof -
  have c: "command (header mq) = CmdVersion" using send_vermsg_ok [OF v(2)] m(2) by auto
  note h = validate_honest [OF S q v(2) m(2), of p]
  show ?thesis
  proof (cases "accepts_peer (hs_semver A) p q")
    case True
    with h obtain sh where sh: "validate_version_msg A mq p = Inr (own_id q, sh)" "set sh = shared_protocols (hs_semver A) p q"
      by auto
    have "verack_answer (Inr (own_id q, sh) :: p2p_error + peer_id \<times> protocol_id list) = Some True"
      by (simp add: verack_answer_def)
    moreover from sh True k have "handshake A p werr es = (res_bind (fst (hs_recv es1)) (\<lambda>msg.
            if command (header msg) = CmdVerack then res_bind (validate_verack_msg A msg (own_id q)) (\<lambda>_. Inr (own_id q, sh))
            else Inl (P2pInvalidMsg (''unexpected msg found '' @ cmd_debug (command (header msg))))), [mp, kp])"
      using calculation by (simp add: handshake_def w m(1) es c)
    ultimately show ?thesis using True sh(2) by auto
  next
    case False
    with h have f: "verack_answer (validate_version_msg A mq p) = Some False" by simp
    then obtain e where "validate_version_msg A mq p = Inl e"
      by (cases "validate_version_msg A mq p") (auto simp: verack_answer_def)
    with False f k have "handshake A p werr es = (Inl e, [mp, kp])" by (simp add: handshake_def w m(1) es c)
    with False show ?thesis by simp
  qed
qed

lemma handshake_first:
  "send_vermsg A p None = Inr m \<Longrightarrow> \<exists>ms. snd (handshake A p (\<lambda>_. None) es) = m # ms"
  by (auto simp: handshake_def Let_def split: sum.splits prod.splits)

section \<open>The data-plane codec is a framed codec\<close>

text \<open>Messages the binary codec carries: it encodes them within the frame limit
  and decodes the bytes back.\<close>

definition peer_msg_ok :: "peer_net_msg bin_enc \<Rightarrow> peer_net_msg bin_dec \<Rightarrow> peer_net_msg \<Rightarrow> bool" where
  "peer_msg_ok enc dec m \<longleftrightarrow> (\<exists>b n. enc m = Inr b \<and> dec b = Inr (m, n) \<and> length b \<le> MAX_BUFFER_SIZE)"

definition peer_msg_frame :: "peer_net_msg bin_enc \<Rightarrow> (u32 \<Rightarrow> string + bytes) \<Rightarrow> peer_net_msg \<Rightarrow> bytes" where
  "peer_msg_frame enc enc32 m = (case enc m of Inr b \<Rightarrow> length_frame enc32 b | Inl _ \<Rightarrow> [])"

lemma peer_codec_framed:
  assumes "bincode_u32 enc32 dec32"
  shows "framed_codec (peer_net_encode enc enc32 se) (peer_net_decode dec dec32 se)
    (peer_msg_ok enc dec) (peer_msg_frame enc enc32) id"
proof
  fix m :: peer_net_msg and dst rest :: buffer and k :: nat
  assume "peer_msg_ok enc dec m"
  then obtain b n where b: "enc m = Inr b" "dec b = Inr (m, n)" "length b \<le> MAX_BUFFER_SIZE"
    by (auto simp: peer_msg_ok_def)
  then have ok: "length_ok MAX_BUFFER_SIZE b" by (simp add: length_ok_def MAX_BUFFER_SIZE_def)
  note f = framed_codec.enc_frame [OF length_codec_framed [OF assms] ok]
    framed_codec.dec_frame [OF length_codec_framed [OF assms] ok]
    framed_codec.dec_partial [OF length_codec_framed [OF assms] ok]
  show "\<exists>n. peer_net_encode enc enc32 se m dst = Inr (n, dst @ peer_msg_frame enc enc32 m)"
    using f(1) b by (simp add: peer_net_encode_def peer_msg_frame_def p2p_encode_def map_err_def)
  show "peer_net_decode dec dec32 se (peer_msg_frame enc enc32 m @ rest) =
      Inr (Some (length (peer_msg_frame enc enc32 m), id m))"
    using f(2) b by (simp add: peer_net_decode_def peer_msg_frame_def p2p_decode_def map_err_def)
  show "peer_net_decode dec dec32 se (take k (peer_msg_frame enc enc32 m)) = Inr None"
    if "k < length (peer_msg_frame enc enc32 m)"
    using f(3) that b by (simp add: peer_net_decode_def peer_msg_frame_def)
qed

section \<open>Properties\<close>

text \<open>C2. The handshake of two honest nodes agrees: when each side receives what the
  other side sends, either both succeed, each with the identity of the other and with the same
  set of protocols (those both have in mutually accepted versions), or both fail; and
  they succeed exactly when each side accepts the other, that is the
  system versions match mutually, a transport identity matches the claimed one, some
  protocol is shared and every protocol a side requires is shared.\<close>

theorem handshake_agreement:
  assumes S: "semver_law (hs_semver A)" and wf: "wf_params p" "wf_params q"
    and v: "vermsg_law A p" "vermsg_law A q" and a: "verack_law A p" "verack_law A q"
    and rp: "handshake A p (\<lambda>_. None) (map HsMsg outq) = (rp, outp)"
    and rq: "handshake A q (\<lambda>_. None) (map HsMsg outp) = (rq, outq)"
  shows "if accepts_peer (hs_semver A) p q \<and> accepts_peer (hs_semver A) q p
    then \<exists>sp sq. rp = Inr (own_id q, sp) \<and> rq = Inr (own_id p, sq)
      \<and> set sp = shared_protocols (hs_semver A) p q \<and> set sq = shared_protocols (hs_semver A) p q
    else (\<exists>e. rp = Inl e) \<and> (\<exists>e. rq = Inl e)"
proof -
  let ?S = "hs_semver A"
  obtain mp mq where m: "send_vermsg A p None = Inr mp" "send_vermsg A q None = Inr mq"
    using send_vermsg_ok v by metis
  obtain kp kq where k: "send_verack A (own_id p) (accepts_peer ?S p q) None = Inr kp"
      "send_verack A (own_id q) (accepts_peer ?S q p) None = Inr kq"
    using send_verack_ok a by metis
  obtain ep eq where e: "map HsMsg outq = HsMsg mq # eq" "map HsMsg outp = HsMsg mp # ep"
    using handshake_first [OF m(1), of "map HsMsg outq"] handshake_first [OF m(2), of "map HsMsg outp"] rp rq by auto
  note sp = handshake_side [OF S wf(2) v a(1) refl m k(1) e(1)]
    and sq = handshake_side [OF S wf(1) v(2,1) a(2) refl m(2,1) k(2) e(2)]
  have o: "outp = [mp, kp]" "outq = [mq, kq]" using sp sq rp rq by simp_all
  then have "eq = [HsMsg kq]" "ep = [HsMsg kp]" using e by simp_all
  then show ?thesis
    using sp sq rp rq verack_honest [OF a(1) k(1)] verack_honest [OF a(2) k(2)] shared_sym [of ?S q p]
    by auto
qed

definition ex_semver :: semver_api where
  "ex_semver = \<lparr>req_parse = Inr, req_to_string = (\<lambda>r. r), req_matches = (\<lambda>r v. r = ''*'')\<rparr>"

definition ex_version :: version where
  "ex_version = \<lparr>ver_v = \<lparr>major = 0, minor = 2, patch = 0\<rparr>, ver_req = ''*''\<rparr>"

definition ex_params :: "u8 \<Rightarrow> protocol_id list \<Rightarrow> handshake_params" where
  "ex_params i ps = \<lparr>own_id = replicate 32 i, config_version = ex_version,
     hp_protocols = map (\<lambda>p. (p, \<lparr>meta_version = ex_version, meta_flags = PREFERRED\<rparr>)) ps,
     timeout_secs = 2, verified_peer_id = None\<rparr>"

definition ex_protocols :: "u8 \<Rightarrow> protocol_id list" where
  "ex_protocols i = (if i = 1 then [''ping'', ''chat''] else [''files'', ''ping''])"

definition ex_hs_api :: hs_api where
  "ex_hs_api = \<lparr>ver_enc = (\<lambda>m. Inr (vm_peer_id m)),
     ver_dec = (\<lambda>b. Inr (\<lparr>vm_peer_id = b, vm_version = \<lparr>wv_v = ver_v ex_version, wv_req = ''*''\<rparr>,
        vm_protocols = map (\<lambda>p. (p, \<lparr>wv_v = ver_v ex_version, wv_req = ''*''\<rparr>)) (ex_protocols (hd b))\<rparr>, 0)),
     vack_enc = (\<lambda>a. Inr (ack_peer_id a @ [if ack a then 1 else 0])),
     vack_dec = (\<lambda>b. Inr (\<lparr>ack_peer_id = butlast b, ack = last b = 1\<rparr>, 0)), hs_semver = ex_semver\<rparr>"

lemma ex_laws: "i \<in> {1, 2} \<Longrightarrow> vermsg_law ex_hs_api (ex_params i (ex_protocols i)) \<and> verack_law ex_hs_api (ex_params i (ex_protocols i))
    \<and> wf_params (ex_params i (ex_protocols i))"
  by (auto simp: vermsg_law_def verack_law_def own_vermsg_def ex_hs_api_def ex_params_def ex_protocols_def
      wire_version_from_def ex_semver_def ex_version_def wf_params_def numeral_eq_Suc)

theorem handshake_agreement_witness:
  "\<exists>outp outq sp sq. set sp = {''ping''} \<and> set sq = {''ping''}
    \<and> handshake ex_hs_api (ex_params 1 (ex_protocols 1)) (\<lambda>_. None) (map HsMsg outq) = (Inr (replicate 32 2, sp), outp)
    \<and> handshake ex_hs_api (ex_params 2 (ex_protocols 2)) (\<lambda>_. None) (map HsMsg outp) = (Inr (replicate 32 1, sq), outq)"
proof -
  let ?p = "ex_params 1 (ex_protocols 1)" and ?q = "ex_params 2 (ex_protocols 2)"
  define outp where "outp = snd (handshake ex_hs_api ?p (\<lambda>_. None) (map HsMsg (snd (handshake ex_hs_api ?q (\<lambda>_. None)
     (map HsMsg (snd (handshake ex_hs_api ?p (\<lambda>_. None) [])))))))"
  define outq where "outq = snd (handshake ex_hs_api ?q (\<lambda>_. None) (map HsMsg outp))"
  have o: "snd (handshake ex_hs_api ?p (\<lambda>_. None) (map HsMsg outq)) = outp"
    unfolding outq_def outp_def by code_simp
  have S: "semver_law (hs_semver ex_hs_api)" by (simp add: semver_law_def ex_hs_api_def ex_semver_def)
  have sh: "shared_protocols (hs_semver ex_hs_api) ?p ?q = {''ping''}"
    by (auto simp: shared_protocols_def ex_params_def ex_protocols_def mutual_def version_match_def
        ex_hs_api_def ex_semver_def ex_version_def split: if_splits)
  have acc: "accepts_peer (hs_semver ex_hs_api) ?p ?q" "accepts_peer (hs_semver ex_hs_api) ?q ?p"
    using sh shared_sym [of "hs_semver ex_hs_api" ?q ?p]
    by (auto simp: accepts_peer_def ex_params_def ex_protocols_def mutual_def version_match_def flags_contains_def
        REQUIRED_def PREFERRED_def ex_hs_api_def ex_semver_def ex_version_def)
  have "\<exists>sp sq. fst (handshake ex_hs_api ?p (\<lambda>_. None) (map HsMsg outq)) = Inr (own_id ?q, sp)
      \<and> fst (handshake ex_hs_api ?q (\<lambda>_. None) (map HsMsg outp)) = Inr (own_id ?p, sq)
      \<and> set sp = {''ping''} \<and> set sq = {''ping''}"
    using handshake_agreement [OF S, of ?p ?q outq _ outp] ex_laws acc sh o
    by (metis (no_types, lifting) insertI1 insertI2 outq_def prod.collapse)
  moreover have "own_id ?p = replicate 32 1" "own_id ?q = replicate 32 2" by (simp_all add: ex_params_def)
  ultimately show ?thesis using o outq_def by (metis prod.collapse)
qed

lemma handshake_success:
  assumes "handshake A p werr es = (Inr (pid, shared), out)"
  shows "verified_peer_id p \<in> {None, Some pid} \<and> shared \<noteq> [] \<and> set shared \<subseteq> fst ` set (hp_protocols p)
    \<and> (\<forall>(id, m) \<in> set (hp_protocols p). flags_contains (meta_flags m) REQUIRED \<longrightarrow> id \<in> set shared)
    \<and> (\<exists>m1 m2 rest vm n va n'. es = HsMsg m1 # HsMsg m2 # rest
         \<and> command (header m1) = CmdVersion \<and> ver_dec A (payload m1) = Inr (vm, n) \<and> vm_peer_id vm = pid
         \<and> command (header m2) = CmdVerack \<and> vack_dec A (payload m2) = Inr (va, n') \<and> ack va \<and> ack_peer_id va = pid)"
proof -
  obtain m1 es1 where 1: "es = HsMsg m1 # es1" "command (header m1) = CmdVersion"
      "validate_version_msg A m1 p = Inr (pid, shared)"
      and r: "res_bind (fst (hs_recv es1)) (\<lambda>msg.
          if command (header msg) = CmdVerack then res_bind (validate_verack_msg A msg pid) (\<lambda>_. Inr (pid, shared))
          else Inl (P2pInvalidMsg (''unexpected msg found '' @ cmd_debug (command (header msg))))) = Inr (pid, shared)"
    using assms
    by (cases es rule: hs_recv.cases)
       (auto simp: handshake_def Let_def res_bind_eq_Inr split: sum.splits if_splits)
  obtain m2 rest where 2: "es1 = HsMsg m2 # rest" "command (header m2) = CmdVerack"
      "validate_verack_msg A m2 pid = Inr ()"
    using r by (cases es1 rule: hs_recv.cases) (auto simp: res_bind_eq_Inr split: if_splits)
  obtain vm n where v: "ver_dec A (payload m1) = Inr (vm, n)"
    using 1(3) by (auto simp: validate_version_msg_def p2p_decode_def map_err_def res_bind_eq_Inr split: sum.splits)
  have "set (protocols_intersection (hs_semver A) (hp_protocols p) (vm_protocols vm)) \<subseteq> fst ` set (hp_protocols p)"
    by (force simp: protocols_intersection_def dest: map_of_SomeD split: option.splits)
  with 1(3) v have "vm_peer_id vm = pid" "verified_peer_id p \<in> {None, Some pid}" "shared \<noteq> []" "set shared \<subseteq> fst ` set (hp_protocols p)"
      "\<forall>(id, m) \<in> set (hp_protocols p). flags_contains (meta_flags m) REQUIRED \<longrightarrow> id \<in> set shared"
    by (auto simp: validate_version_msg_def p2p_decode_def map_err_def Let_def list_ex_iff
        split: if_splits option.splits)
  moreover obtain va n' where "vack_dec A (payload m2) = Inr (va, n')" "ack va" "ack_peer_id va = pid"
    using 2(3) by (auto simp: validate_verack_msg_def p2p_decode_def map_err_def res_bind_eq_Inr split: sum.splits if_splits)
  ultimately show ?thesis using 1 2 v by blast
qed

text \<open>C3. Whatever the remote side sends, a handshake that succeeds has established
  the following: the identity is the one of the remote version message and of its positive
  verdict, it is the identity the secure transport verified, if any; the negotiated
  protocols are non-empty, all are local protocols, and every local protocol
  marked as required is among them.\<close>

theorem handshake_sound:
  assumes "handshake A p werr es = (Inr (pid, shared), out)"
  shows "verified_peer_id p \<in> {None, Some pid} \<and> shared \<noteq> [] \<and> set shared \<subseteq> fst ` set (hp_protocols p)
    \<and> (\<forall>(id, m) \<in> set (hp_protocols p). flags_contains (meta_flags m) REQUIRED \<longrightarrow> id \<in> set shared)
    \<and> (\<exists>m1 m2 rest vm n va n'. es = HsMsg m1 # HsMsg m2 # rest
         \<and> command (header m1) = CmdVersion \<and> ver_dec A (payload m1) = Inr (vm, n) \<and> vm_peer_id vm = pid
         \<and> command (header m2) = CmdVerack \<and> vack_dec A (payload m2) = Inr (va, n') \<and> ack va \<and> ack_peer_id va = pid)"
  by (rule handshake_success [OF assms])

definition ex_msg :: "peer_net_cmd \<Rightarrow> bytes \<Rightarrow> peer_net_msg" where
  "ex_msg c p = \<lparr>header = \<lparr>command = c\<rparr>, payload = p\<rparr>"

theorem handshake_sound_witness:
  "set [''ping''] \<subseteq> fst ` set (hp_protocols (ex_params 1 (ex_protocols 1)))"
proof -
  let ?h = "handshake ex_hs_api (ex_params 1 (ex_protocols 1)) (\<lambda>_. None)
     [HsMsg (ex_msg CmdVersion (replicate 32 2)), HsMsg (ex_msg CmdVerack (replicate 32 2 @ [1]))]"
  have "fst ?h = Inr (replicate 32 2, [''ping''])" by code_simp
  then have "?h = (Inr (replicate 32 2, [''ping'']), snd ?h)" by (metis prod.collapse)
  from handshake_sound [OF this] show ?thesis by simp
qed

text \<open>Version numbers survive printing and parsing: every version prints to a
  string that \<open>from_str\<close> reads back as the same three 64-bit numbers.\<close>

lemma version_display_roundtrip: "version_int_from_str (version_int_display v) = Inr v"
proof -
  have "split_str ''.'' [] (version_int_display v) =
      [show_nat (unat (major v)), show_nat (unat (minor v)), show_nat (unat (patch v))]"
    by (simp add: version_int_display_def split_dot split_dot_none show_nat_no_sep)
  then show ?thesis by (simp add: version_int_from_str_def parse_u64_show map_err_def)
qed

end
