(* ===== verification/Core_Async.thy ===== *)
theory Core_Async
  imports Net_Addr
begin

text \<open>
  Asynchronous primitives of \<open>core/src/async_util\<close>: \<open>select\<close> (\<open>select.rs\<close>), \<open>timeout\<close> (\<open>timeout.rs\<close>),
  exponential backoff (\<open>backoff.rs\<close>) and the condition variable (\<open>condvar.rs\<close>).  A future is
  seen through the outcome of one poll.  Tasks are named by numbers, which also
  stand for their wakers; the iteration order of a hash map is an argument.
\<close>

section \<open>Select and timeout\<close>

datatype ('a, 'b) either = Left 'a | Right 'b

definition select :: "'a poll \<Rightarrow> 'b poll \<Rightarrow> ('a, 'b) either poll" where
  "select p1 p2 = (case p1 of
      Ready t \<Rightarrow> Ready (Left t)
    | Pending \<Rightarrow> (case p2 of Ready t \<Rightarrow> Ready (Right t) | Pending \<Rightarrow> Pending))"

definition timeout :: "unit poll \<Rightarrow> 'a poll \<Rightarrow> (core_error + 'a) poll" where
  "timeout sleep fut = (case select sleep fut of
      Ready (Left _) \<Rightarrow> Ready (Inl CoreTimeout)
    | Ready (Right res) \<Rightarrow> Ready (Inr res)
    | Pending \<Rightarrow> Pending)"

section \<open>Backoff\<close>

record backoff =
  base_delay :: nat
  max_delay :: nat
  retries :: nat
  stop :: bool

definition backoff_new :: "nat \<Rightarrow> nat \<Rightarrow> backoff" where
  "backoff_new base mx = \<lparr>base_delay = base, max_delay = mx, retries = 0, stop = False\<rparr>"

text \<open>\<open>sleep\<close> up to the delay it waits for; \<^term>\<open>None\<close> is an arithmetic overflow of the
  64-bit power or product, or of the 32-bit counter.\<close>

definition backoff_sleep :: "backoff \<Rightarrow> (nat \<times> backoff) option" where
  "backoff_sleep b =
     (if stop b then Some (max_delay b, b)
      else if 2 ^ 64 \<le> (2 :: nat) ^ retries b \<or> 2 ^ 64 \<le> base_delay b * 2 ^ retries b \<or> 2 ^ 32 \<le> retries b + 1 then None
      else let delay = min (base_delay b * 2 ^ retries b) (max_delay b)
        in Some (delay, b\<lparr>stop := stop b \<or> delay = max_delay b, retries := retries b + 1\<rparr>))"

definition backoff_reset :: "backoff \<Rightarrow> backoff" where
  "backoff_reset b = b\<lparr>retries := 0, stop := False\<rparr>"

fun backoff_delays :: "nat \<Rightarrow> backoff \<Rightarrow> nat list option" where
  "backoff_delays 0 b = Some []"
| "backoff_delays (Suc n) b = (case backoff_sleep b of
      None \<Rightarrow> None
    | Some (d, b') \<Rightarrow> map_option (Cons d) (backoff_delays n b'))"

section \<open>Condition variable\<close>

type_synonym waiter_id = nat
type_synonym task = nat

text \<open>\<open>wakers i = Some None\<close> is a waiter that was signalled and not yet polled.\<close>

record wakers =
  waiters :: "waiter_id \<rightharpoonup> task option"
  next_id :: waiter_id

definition wakers_new :: wakers where
  "wakers_new = \<lparr>waiters = Map.empty, next_id = 0\<rparr>"

definition wakers_put :: "task option \<Rightarrow> wakers \<Rightarrow> waiter_id \<times> wakers" where
  "wakers_put w ws = (next_id ws, \<lparr>waiters = (waiters ws)(next_id ws \<mapsto> w), next_id = next_id ws + 1\<rparr>)"

definition wakers_delete :: "waiter_id \<Rightarrow> wakers \<Rightarrow> wakers" where
  "wakers_delete i ws = ws\<lparr>waiters := (waiters ws)(i := None)\<rparr>"

text \<open>\<open>wake\<close> over the ids in iteration order; it also returns the tasks it wakes.\<close>

fun wake :: "bool \<Rightarrow> waiter_id list \<Rightarrow> wakers \<Rightarrow> wakers \<times> task list" where
  "wake one [] ws = (ws, [])"
| "wake one (i # is) ws = (case waiters ws i of
      Some (Some w) \<Rightarrow>
        (let ws' = ws\<lparr>waiters := (waiters ws)(i \<mapsto> None)\<rparr>
         in if one then (ws', [w]) else (case wake one is ws' of (ws'', l) \<Rightarrow> (ws'', w # l)))
    | _ \<Rightarrow> wake one is ws)"

record cv_await =
  aw_id :: "waiter_id option"
  aw_guard :: bool

definition await_new :: cv_await where
  "await_new = \<lparr>aw_id = None, aw_guard = True\<rparr>"

definition await_poll :: "task \<Rightarrow> cv_await \<Rightarrow> wakers \<Rightarrow> unit poll \<times> cv_await \<times> wakers" where
  "await_poll t a ws =
     (if aw_guard a then (case wakers_put (Some t) ws of (i, ws') \<Rightarrow> (Pending, \<lparr>aw_id = Some i, aw_guard = False\<rparr>, ws'))
      else (case aw_id a of
          None \<Rightarrow> (Ready (), a, ws)
        | Some i \<Rightarrow> (case waiters ws i of
            None \<Rightarrow> (Ready (), a\<lparr>aw_id := None\<rparr>, ws)
          | Some (Some w) \<Rightarrow> (Pending, a, ws\<lparr>waiters := (waiters ws)(i \<mapsto> Some t)\<rparr>)
          | Some None \<Rightarrow> (Ready (), a\<lparr>aw_id := None\<rparr>, wakers_delete i ws))))"

definition await_drop :: "waiter_id list \<Rightarrow> cv_await \<Rightarrow> wakers \<Rightarrow> wakers \<times> task list" where
  "await_drop ord a ws = (case aw_id a of
      None \<Rightarrow> (ws, [])
    | Some i \<Rightarrow> (case waiters ws i of
        Some None \<Rightarrow> wake True ord (wakers_delete i ws)
      | _ \<Rightarrow> (wakers_delete i ws, [])))"

text \<open>Waiters that are signalled and waiters that are not.\<close>

definition signalled :: "wakers \<Rightarrow> waiter_id set" where
  "signalled ws = {i. waiters ws i = Some None}"

definition sleeping :: "wakers \<Rightarrow> waiter_id set" where
  "sleeping ws = {i. \<exists>w. waiters ws i = Some (Some w)}"

definition iterates :: "waiter_id list \<Rightarrow> wakers \<Rightarrow> bool" where
  "iterates ord ws \<longleftrightarrow> distinct ord \<and> set ord = dom (waiters ws)"

definition wakers_wf :: "wakers \<Rightarrow> bool" where
  "wakers_wf ws \<longleftrightarrow> finite (dom (waiters ws)) \<and> (\<forall>i \<in> dom (waiters ws). i < next_id ws)"

section \<open>Lemmas\<close>

lemma wake_skip: "i \<notin> sleeping ws \<Longrightarrow> wake one (i # is) ws = wake one is ws"
  by (auto simp: sleeping_def split: option.splits)

lemma wake_hit:
  assumes "waiters ws i = Some (Some w)"
  shows "wake True (i # is) ws = (ws\<lparr>waiters := (waiters ws)(i \<mapsto> None)\<rparr>, [w])"
    and "fst (wake False (i # is) ws) = fst (wake False is (ws\<lparr>waiters := (waiters ws)(i \<mapsto> None)\<rparr>))"
  using assms by (auto simp: Let_def split: prod.splits)

declare wake.simps(2) [simp del]

lemma wake_none: "sleeping ws \<inter> set ord = {} \<Longrightarrow> wake one ord ws = (ws, [])"
  by (induction ord) (auto simp: wake_skip)

lemma wake_one:
  "sleeping ws \<inter> set ord \<noteq> {} \<Longrightarrow>
   \<exists>i w. i \<in> set ord \<and> waiters ws i = Some (Some w) \<and> wake True ord ws = (ws\<lparr>waiters := (waiters ws)(i \<mapsto> None)\<rparr>, [w])"
proof (induction ord)
  case (Cons i "is")
  show ?case
  proof (cases "i \<in> sleeping ws")
    case True
    then obtain w where "waiters ws i = Some (Some w)" by (auto simp: sleeping_def)
    then show ?thesis using wake_hit(1) by fastforce
  next
    case False
    then have "sleeping ws \<inter> set is \<noteq> {}" using Cons.prems by auto
    from Cons.IH [OF this] show ?thesis using False by (auto simp: wake_skip)
  qed
qed simp

lemma wake_all:
  "waiters (fst (wake False ord ws)) = (\<lambda>i. if i \<in> set ord \<and> waiters ws i \<noteq> None then Some None else waiters ws i)"
proof (induction ord arbitrary: ws)
  case (Cons i "is")
  show ?case
  proof (cases "i \<in> sleeping ws")
    case True
    then obtain w where "waiters ws i = Some (Some w)" by (auto simp: sleeping_def)
    then show ?thesis by (auto simp: wake_hit(2) Cons.IH fun_eq_iff)
  next
    case False
    have "waiters ws i = None \<or> waiters ws i = Some None"
      using False by (cases "waiters ws i") (auto simp: sleeping_def)
    then show ?thesis using False by (auto simp: wake_skip Cons.IH fun_eq_iff)
  qed
qed (auto simp: fun_eq_iff)

lemma wake_all_signals:
  assumes "iterates ord ws"
  shows "sleeping (fst (wake False ord ws)) = {} \<and> signalled (fst (wake False ord ws)) = dom (waiters ws)"
  using assms by (auto simp: sleeping_def signalled_def iterates_def wake_all)

text \<open>The state of a backoff after \<open>k\<close> sleeps.\<close>

definition backoff_at :: "nat \<Rightarrow> backoff \<Rightarrow> bool" where
  "backoff_at k b \<longleftrightarrow> (if stop b then max_delay b \<le> base_delay b * 2 ^ k
     else retries b = k \<and> (k = 0 \<or> base_delay b * 2 ^ (k - 1) < max_delay b))"

definition backoff_ok :: "backoff \<Rightarrow> bool" where
  "backoff_ok b \<longleftrightarrow> 0 < base_delay b \<and> base_delay b < 2 ^ 64 \<and> max_delay b < 2 ^ 63"

lemma backoff_at_small:
  assumes "backoff_ok b" "backoff_at k b" "\<not> stop b"
  shows "k < 64" "base_delay b * 2 ^ k < 2 ^ 64"
proof -
  have "k < 64 \<and> base_delay b * 2 ^ k < 2 ^ 64"
  proof (cases k)
    case (Suc j)
    then have "base_delay b * 2 ^ j < 2 ^ 63" using assms by (auto simp: backoff_ok_def backoff_at_def)
    moreover have "(2 :: nat) ^ j \<le> base_delay b * 2 ^ j" using assms by (simp add: backoff_ok_def)
    ultimately have "(2 :: nat) ^ j < 2 ^ 63" by linarith
    then have "j < 63" by (rule power_less_imp_less_exp [rotated]) simp
    moreover have "base_delay b * 2 ^ k = 2 * (base_delay b * 2 ^ j)" using Suc by simp
    ultimately show ?thesis using Suc \<open>base_delay b * 2 ^ j < 2 ^ 63\<close> by simp
  qed (use assms in \<open>simp add: backoff_ok_def\<close>)
  then show "k < 64" "base_delay b * 2 ^ k < 2 ^ 64" by auto
qed

lemma backoff_step:
  assumes "backoff_ok b" "backoff_at k b"
  shows "\<exists>b'. backoff_sleep b = Some (min (base_delay b * 2 ^ k) (max_delay b), b') \<and> backoff_ok b' \<and> backoff_at (Suc k) b'
    \<and> base_delay b' = base_delay b \<and> max_delay b' = max_delay b"
proof (cases "stop b")
  case True
  then show ?thesis using assms by (auto simp: backoff_sleep_def backoff_at_def min_def)
next
  case False
  note small = backoff_at_small [OF assms False]
  have "\<not> 2 ^ 64 \<le> (2 :: nat) ^ k" using power_increasing_iff [of "2 :: nat" 64 k] small(1) by linarith
  moreover have "retries b = k" using assms(2) False by (simp add: backoff_at_def)
  ultimately have "backoff_sleep b = Some (min (base_delay b * 2 ^ k) (max_delay b),
      b\<lparr>stop := min (base_delay b * 2 ^ k) (max_delay b) = max_delay b, retries := Suc k\<rparr>)"
    using small False by (simp add: backoff_sleep_def Let_def)
  then show ?thesis
    using assms(1) by (auto simp: backoff_at_def backoff_ok_def min_def split: if_splits)
qed

lemma backoff_delays_at:
  "backoff_ok b \<Longrightarrow> backoff_at k b \<Longrightarrow>
   backoff_delays n b = Some (map (\<lambda>j. min (base_delay b * 2 ^ j) (max_delay b)) [k..<k + n])"
proof (induction n arbitrary: b k)
  case (Suc n)
  obtain b' where b': "backoff_sleep b = Some (min (base_delay b * 2 ^ k) (max_delay b), b')" "backoff_ok b'"
      "backoff_at (Suc k) b'" "base_delay b' = base_delay b" "max_delay b' = max_delay b"
    using backoff_step [OF Suc.prems] by auto
  then show ?case using Suc.IH [OF b'(2,3)] by (simp add: upt_rec [of k])
qed simp

section \<open>Properties\<close>

text \<open>Exponential backoff: from a fresh backoff with a positive base and a maximum
  below \<open>2^63\<close> no sleep ever overflows, and the \<open>k\<close>-th delay is the base doubled
  \<open>k\<close> times, capped at the maximum, for as many sleeps as are made.\<close>

lemma backoff_spec:
  assumes "0 < base" "base < 2 ^ 64" "mx < 2 ^ 63"
  shows "backoff_delays n (backoff_new base mx) = Some (map (\<lambda>k. min (base * 2 ^ k) mx) [0..<n])"
  using backoff_delays_at [of "backoff_new base mx" 0 n] assms
  by (simp add: backoff_ok_def backoff_at_def backoff_new_def)

lemma backoff_spec_witness: "backoff_delays 6 (backoff_new 100 1000) = Some [100, 200, 400, 800, 1000, 1000]"
proof -
  have "[0..<6] = [0, 1, 2, 3, 4, 5 :: nat]" by (simp add: upt_rec)
  then show ?thesis using backoff_spec [of 100 1000 6] by simp
qed

text \<open>A condition variable loses no signal among its waiters: \<open>signal\<close> marks exactly one
  waiter that was not signalled before, if there is one, and wakes the task polled
  last for it; \<open>broadcast\<close> marks all; and when a signalled waiter is dropped
  before it runs, its signal goes to another sleeping waiter if there is one.\<close>

lemma condvar_signal_kept:
  assumes "iterates ord ws"
  shows "(if sleeping ws = {} then wake True ord ws = (ws, [])
     else \<exists>i \<in> sleeping ws. \<exists>w. waiters ws i = Some (Some w) \<and> snd (wake True ord ws) = [w]
        \<and> signalled (fst (wake True ord ws)) = insert i (signalled ws)
        \<and> sleeping (fst (wake True ord ws)) = sleeping ws - {i})
    \<and> sleeping (fst (wake False ord ws)) = {} \<and> signalled (fst (wake False ord ws)) = dom (waiters ws)
    \<and> (aw_id a = Some i \<and> i \<in> signalled ws \<longrightarrow>
        (if sleeping ws = {} then signalled (fst (await_drop ord a ws)) = signalled ws - {i}
         else \<exists>j \<in> sleeping ws. signalled (fst (await_drop ord a ws)) = insert j (signalled ws - {i})
            \<and> sleeping (fst (await_drop ord a ws)) = sleeping ws - {j}))"
proof (intro conjI impI)
  have o: "sleeping ws \<inter> set ord = sleeping ws" using assms by (auto simp: iterates_def sleeping_def)
  show "if sleeping ws = {} then wake True ord ws = (ws, [])
     else \<exists>i \<in> sleeping ws. \<exists>w. waiters ws i = Some (Some w) \<and> snd (wake True ord ws) = [w]
        \<and> signalled (fst (wake True ord ws)) = insert i (signalled ws)
        \<and> sleeping (fst (wake True ord ws)) = sleeping ws - {i}"
  proof (cases "sleeping ws = {}")
    case False
    then obtain i w where "waiters ws i = Some (Some w)" "wake True ord ws = (ws\<lparr>waiters := (waiters ws)(i \<mapsto> None)\<rparr>, [w])"
      using wake_one [of ws ord] o by auto
    then show ?thesis using False by (auto simp: sleeping_def signalled_def intro!: bexI [of _ i])
  qed (simp add: wake_none)
  show "sleeping (fst (wake False ord ws)) = {}" "signalled (fst (wake False ord ws)) = dom (waiters ws)"
    using wake_all_signals [OF assms] by auto
  assume i: "aw_id a = Some i \<and> i \<in> signalled ws"
  have s: "sleeping (wakers_delete i ws) = sleeping ws" "signalled (wakers_delete i ws) = signalled ws - {i}"
    using i by (auto simp: wakers_delete_def sleeping_def signalled_def)
  have d: "await_drop ord a ws = wake True ord (wakers_delete i ws)"
    using i by (simp add: await_drop_def signalled_def)
  show "if sleeping ws = {} then signalled (fst (await_drop ord a ws)) = signalled ws - {i}
         else \<exists>j \<in> sleeping ws. signalled (fst (await_drop ord a ws)) = insert j (signalled ws - {i})
            \<and> sleeping (fst (await_drop ord a ws)) = sleeping ws - {j}"
  proof (cases "sleeping ws = {}")
    case False
    then obtain j w where j: "waiters (wakers_delete i ws) j = Some (Some w)"
        "wake True ord (wakers_delete i ws) = ((wakers_delete i ws)\<lparr>waiters := (waiters (wakers_delete i ws))(j \<mapsto> None)\<rparr>, [w])"
      using wake_one [of "wakers_delete i ws" ord] o s by auto
    then have "signalled (fst (await_drop ord a ws)) = insert j (signalled (wakers_delete i ws))"
        "sleeping (fst (await_drop ord a ws)) = sleeping (wakers_delete i ws) - {j}" "j \<in> sleeping (wakers_delete i ws)"
      by (auto simp: d sleeping_def signalled_def)
    then show ?thesis using False s by auto
  qed (use d s wake_none [of "wakers_delete i ws" ord True] in auto)
qed

lemma condvar_signal_kept_witness:
  "sleeping (fst (wake True [0, 1] \<lparr>waiters = [0 \<mapsto> Some 7, 1 \<mapsto> Some 8], next_id = 2\<rparr>))
     \<noteq> sleeping \<lparr>waiters = [0 \<mapsto> Some 7, 1 \<mapsto> Some 8], next_id = 2\<rparr>"
proof -
  let ?ws = "\<lparr>waiters = [0 \<mapsto> Some 7, 1 \<mapsto> Some 8], next_id = 2\<rparr>"
  have "iterates [0, 1] ?ws" by (auto simp: iterates_def)
  moreover have "0 \<in> sleeping ?ws" by (simp add: sleeping_def)
  ultimately show ?thesis
    using condvar_signal_kept [of "[0, 1]" ?ws await_new 0] by (auto split: if_splits)
qed

end
