(* ===== verification/Core_Queue.thy ===== *)
theory Core_Queue
  imports Core_Async
begin

text \<open>
  The bounded queue of \<open>core/src/async_util/async_queue.rs\<close> as a concurrent system: any number of
  tasks call \<open>push\<close> and \<open>recv\<close>, each step is what one task does between two
  suspension points, and a task can be cancelled wherever the code awaits.
  The condition variables are those of \<open>Core_Async\<close>.
\<close>

section \<open>Sequential queue operations\<close>

text \<open>What \<open>push\<close> and \<open>recv\<close> do once they hold the lock; \<^term>\<open>None\<close> means that they wait.\<close>

definition aq_new :: "nat \<Rightarrow> 'a list option" where
  "aq_new capacity = (if capacity > 0 then Some [] else None)"

definition aq_push :: "nat \<Rightarrow> 'a \<Rightarrow> 'a list \<Rightarrow> 'a list option" where
  "aq_push capacity x q = (if length q \<ge> capacity then None else Some (q @ [x]))"

definition aq_recv :: "'a list \<Rightarrow> ('a \<times> 'a list) option" where
  "aq_recv q = (case q of [] \<Rightarrow> None | x # r \<Rightarrow> Some (x, r))"

section \<open>Concurrent system\<close>

datatype 'a qop = Push 'a | Recv

text \<open>A task waits for the lock, holds it, or waits on a condition variable.  The flag
  of the first two says that the task was woken by a signal in this call.\<close>

datatype 'a tstate = Want "'a qop" bool | Holding "'a qop" bool | Waiting "'a qop" cv_await

record 'a qsys =
  items :: "'a list"
  owner :: "task option"
  not_empty :: wakers
  not_full :: wakers
  tasks :: "task \<rightharpoonup> 'a tstate"
  pushed :: "'a list"
  received :: "'a list"

definition qsys_init :: "'a qsys" where
  "qsys_init = \<lparr>items = [], owner = None, not_empty = wakers_new, not_full = wakers_new,
     tasks = Map.empty, pushed = [], received = []\<rparr>"

text \<open>\<open>relock\<close> says whether a task may be cancelled while it waits for the lock after
  a signal has woken it.\<close>

inductive qstep :: "bool \<Rightarrow> nat \<Rightarrow> 'a qsys \<Rightarrow> 'a qsys \<Rightarrow> bool" for relock :: bool and capacity :: nat where
  start: "tasks s t = None \<Longrightarrow> qstep relock capacity s (s\<lparr>tasks := (tasks s)(t \<mapsto> Want op False)\<rparr>)"
| acquire: "tasks s t = Some (Want op b) \<Longrightarrow> owner s = None \<Longrightarrow>
    qstep relock capacity s (s\<lparr>owner := Some t, tasks := (tasks s)(t \<mapsto> Holding op b)\<rparr>)"
| push_ok: "tasks s t = Some (Holding (Push x) b) \<Longrightarrow> aq_push capacity x (items s) = Some q \<Longrightarrow> iterates ord (not_empty s) \<Longrightarrow>
    qstep relock capacity s (s\<lparr>items := q, owner := None, not_empty := fst (wake True ord (not_empty s)),
      tasks := (tasks s)(t := None), pushed := pushed s @ [x]\<rparr>)"
| push_wait: "tasks s t = Some (Holding (Push x) b) \<Longrightarrow> aq_push capacity x (items s) = None \<Longrightarrow>
    await_poll t await_new (not_full s) = (Pending, a, ws) \<Longrightarrow>
    qstep relock capacity s (s\<lparr>owner := None, not_full := ws, tasks := (tasks s)(t \<mapsto> Waiting (Push x) a)\<rparr>)"
| recv_ok: "tasks s t = Some (Holding Recv b) \<Longrightarrow> aq_recv (items s) = Some (x, q) \<Longrightarrow> iterates ord (not_full s) \<Longrightarrow>
    qstep relock capacity s (s\<lparr>items := q, owner := None, not_full := fst (wake True ord (not_full s)),
      tasks := (tasks s)(t := None), received := received s @ [x]\<rparr>)"
| recv_wait: "tasks s t = Some (Holding Recv b) \<Longrightarrow> aq_recv (items s) = None \<Longrightarrow>
    await_poll t await_new (not_empty s) = (Pending, a, ws) \<Longrightarrow>
    qstep relock capacity s (s\<lparr>owner := None, not_empty := ws, tasks := (tasks s)(t \<mapsto> Waiting Recv a)\<rparr>)"
| push_woken: "tasks s t = Some (Waiting (Push x) a) \<Longrightarrow> await_poll t a (not_full s) = (Ready (), a', ws) \<Longrightarrow>
    qstep relock capacity s (s\<lparr>not_full := ws, tasks := (tasks s)(t \<mapsto> Want (Push x) True)\<rparr>)"
| recv_woken: "tasks s t = Some (Waiting Recv a) \<Longrightarrow> await_poll t a (not_empty s) = (Ready (), a', ws) \<Longrightarrow>
    qstep relock capacity s (s\<lparr>not_empty := ws, tasks := (tasks s)(t \<mapsto> Want Recv True)\<rparr>)"
| push_cancel: "tasks s t = Some (Waiting (Push x) a) \<Longrightarrow> iterates ord (wakers_delete (the (aw_id a)) (not_full s)) \<Longrightarrow>
    qstep relock capacity s (s\<lparr>not_full := fst (await_drop ord a (not_full s)), tasks := (tasks s)(t := None)\<rparr>)"
| recv_cancel: "tasks s t = Some (Waiting Recv a) \<Longrightarrow> iterates ord (wakers_delete (the (aw_id a)) (not_empty s)) \<Longrightarrow>
    qstep relock capacity s (s\<lparr>not_empty := fst (await_drop ord a (not_empty s)), tasks := (tasks s)(t := None)\<rparr>)"
| lock_cancel: "tasks s t = Some (Want op b) \<Longrightarrow> \<not> b \<or> relock \<Longrightarrow>
    qstep relock capacity s (s\<lparr>tasks := (tasks s)(t := None)\<rparr>)"

inductive_cases qstepE: "qstep relock capacity s s'"

section \<open>First in, first out\<close>

definition fifo_inv :: "nat \<Rightarrow> 'a qsys \<Rightarrow> bool" where
  "fifo_inv capacity s \<longleftrightarrow> pushed s = received s @ items s \<and> length (items s) \<le> capacity
     \<and> (\<forall>t op b. tasks s t = Some (Holding op b) \<longrightarrow> owner s = Some t)"

lemma aq_push_Some: "aq_push c x q = Some q' \<longleftrightarrow> length q < c \<and> q' = q @ [x]"
  by (auto simp: aq_push_def)

lemma aq_recv_Some: "aq_recv q = Some (x, q') \<longleftrightarrow> q = x # q'"
  by (auto simp: aq_recv_def split: list.splits)

lemma aq_recv_None: "aq_recv q = None \<longleftrightarrow> q = []"
  by (auto simp: aq_recv_def split: list.splits)

interpretation fifo_sys: step_invariant "qstep relock capacity" "fifo_inv capacity" for relock capacity
proof
  fix s s' :: "'a qsys"
  assume i: "fifo_inv capacity s" and st: "qstep relock capacity s s'"
  have h: "tasks s t = Some (Holding op b) \<Longrightarrow> owner s = Some t" for t op b
    using i by (simp add: fifo_inv_def)
  from st show "fifo_inv capacity s'"
    using i by cases (auto simp: fifo_inv_def aq_push_Some aq_recv_Some split: if_splits dest: h)
qed

section \<open>Wake-ups of receivers\<close>

text \<open>Receivers that a signal has woken and that have not finished their call.\<close>

definition woken_of :: "(task \<rightharpoonup> 'a tstate) \<Rightarrow> task set" where
  "woken_of m = {t. m t = Some (Want Recv True) \<or> m t = Some (Holding Recv True)}"

definition recv_wf :: "(task \<rightharpoonup> 'a tstate) \<Rightarrow> wakers \<Rightarrow> bool" where
  "recv_wf m ws \<longleftrightarrow> finite (dom m) \<and> wakers_wf ws
     \<and> (\<forall>t a. m t = Some (Waiting Recv a) \<longrightarrow> \<not> aw_guard a \<and> (\<exists>i. aw_id a = Some i \<and> i \<in> dom (waiters ws)))
     \<and> (\<forall>t t' a a'. m t = Some (Waiting Recv a) \<longrightarrow> m t' = Some (Waiting Recv a') \<longrightarrow> aw_id a = aw_id a' \<longrightarrow> t = t')"

definition wake_inv :: "'a qsys \<Rightarrow> bool" where
  "wake_inv s \<longleftrightarrow> recv_wf (tasks s) (not_empty s)
     \<and> (sleeping (not_empty s) \<noteq> {} \<longrightarrow>
          length (items s) \<le> card (signalled (not_empty s)) + card (woken_of (tasks s)))"

lemma woken_of_upd:
  "woken_of (m(t := x)) = (if x = Some (Want Recv True) \<or> x = Some (Holding Recv True) then insert t (woken_of m) else woken_of m - {t})"
  by (auto simp: woken_of_def)

lemma finite_woken: "finite (dom m) \<Longrightarrow> finite (woken_of m)"
  by (rule finite_subset [of _ "dom m"]) (auto simp: woken_of_def)

lemma finite_signalled: "wakers_wf ws \<Longrightarrow> finite (signalled ws)"
  by (rule finite_subset [of _ "dom (waiters ws)"]) (auto simp: signalled_def wakers_wf_def)

lemma wake_one_cases:
  assumes "iterates ord ws"
  obtains "sleeping ws = {}" "fst (wake True ord ws) = ws"
  | i where "i \<in> sleeping ws" "fst (wake True ord ws) = ws\<lparr>waiters := (waiters ws)(i \<mapsto> None)\<rparr>"
      "signalled (fst (wake True ord ws)) = insert i (signalled ws)" "sleeping (fst (wake True ord ws)) = sleeping ws - {i}"
      "i \<notin> signalled ws"
proof (cases "sleeping ws = {}")
  case True
  with that(1) show ?thesis by (simp add: wake_none)
next
  case False
  then have "sleeping ws \<inter> set ord \<noteq> {}" using assms by (auto simp: iterates_def sleeping_def)
  then obtain i w where "waiters ws i = Some (Some w)" "wake True ord ws = (ws\<lparr>waiters := (waiters ws)(i \<mapsto> None)\<rparr>, [w])"
    using wake_one by blast
  then show ?thesis by (intro that(2) [of i]) (auto simp: sleeping_def signalled_def)
qed

lemma wake_one_wf:
  assumes "iterates ord ws"
  shows "wakers_wf (fst (wake True ord ws)) = wakers_wf ws" "dom (waiters (fst (wake True ord ws))) = dom (waiters ws)"
proof -
  have d: "dom (waiters (fst (wake True ord ws))) = dom (waiters ws)" "next_id (fst (wake True ord ws)) = next_id ws"
    using assms by (cases rule: wake_one_cases; auto simp: sleeping_def)+
  then show "wakers_wf (fst (wake True ord ws)) = wakers_wf ws" "dom (waiters (fst (wake True ord ws))) = dom (waiters ws)"
    by (simp_all add: wakers_wf_def)
qed

text \<open>Tasks whose state does not concern receivers do not matter for the invariant.\<close>

lemma recv_wf_other:
  assumes "recv_wf m ws" "\<And>a. x \<noteq> Some (Waiting Recv a)"
  shows "recv_wf (m(t := x)) ws"
proof -
  have "finite (dom (m(t := x)))" using assms(1) by (simp add: recv_wf_def)
  then show ?thesis using assms unfolding recv_wf_def by (auto split: if_splits)
qed

lemma recv_wf_waiters:
  assumes "recv_wf m ws" "wakers_wf ws'" "dom (waiters ws') = dom (waiters ws)"
  shows "recv_wf m ws'"
  using assms by (simp add: recv_wf_def)

text \<open>Registering a receiver, taking its signal, and dropping it.\<close>

lemma recv_register:
  assumes "recv_wf m ws" "await_poll t await_new ws = (Pending, a, ws')"
  shows "recv_wf (m(t \<mapsto> Waiting Recv a)) ws'"
proof -
  have a: "a = \<lparr>aw_id = Some (next_id ws), aw_guard = False\<rparr>"
      "ws' = \<lparr>waiters = (waiters ws)(next_id ws \<mapsto> Some t), next_id = next_id ws + 1\<rparr>"
    using assms(2) by (auto simp: await_poll_def await_new_def wakers_put_def)
  have w: "wakers_wf ws'" using assms(1) by (auto simp: a recv_wf_def wakers_wf_def less_Suc_eq)
  have n: "next_id ws \<notin> dom (waiters ws)" using assms(1) by (auto simp: recv_wf_def wakers_wf_def)
  have "aw_id b \<noteq> Some (next_id ws)" if "m u = Some (Waiting Recv b)" for u b
    using assms(1) n that unfolding recv_wf_def by (metis option.inject)
  then show ?thesis
    using assms(1) w unfolding recv_wf_def a by (auto split: if_splits) (metis domI)+
qed

lemma recv_remove:
  assumes m: "recv_wf m ws" and t: "m t = Some (Waiting Recv a)" "aw_id a = Some i"
    and x: "\<And>b. x \<noteq> Some (Waiting Recv b)"
  shows "recv_wf (m(t := x)) (wakers_delete i ws)"
proof -
  have "aw_id b \<noteq> Some i" if "m u = Some (Waiting Recv b)" "u \<noteq> t" for u b
    using m t that unfolding recv_wf_def by metis
  moreover have "wakers_wf (wakers_delete i ws)"
    using m by (auto simp: recv_wf_def wakers_wf_def wakers_delete_def)
  ultimately show ?thesis
    using m x unfolding recv_wf_def wakers_delete_def by (auto split: if_splits) (metis domI)+
qed

lemma recv_poll_ready:
  assumes "recv_wf m ws" "m t = Some (Waiting Recv a)" "await_poll t a ws = (Ready (), a', ws')"
  obtains i where "aw_id a = Some i" "i \<in> signalled ws" "ws' = wakers_delete i ws"
proof -
  obtain i where "aw_id a = Some i" "i \<in> dom (waiters ws)" "\<not> aw_guard a"
    using assms(1,2) unfolding recv_wf_def by metis
  then show ?thesis using assms(3) that [of i]
    by (auto simp: await_poll_def signalled_def split: option.splits)
qed

lemma delete_sets: "i \<in> signalled ws \<Longrightarrow> signalled (wakers_delete i ws) = signalled ws - {i} \<and> sleeping (wakers_delete i ws) = sleeping ws"
  by (auto simp: wakers_delete_def signalled_def sleeping_def)

lemma wake_inv_recv_woken:
  assumes "wake_inv s" "tasks s t = Some (Waiting Recv a)" "await_poll t a (not_empty s) = (Ready (), a', ws)"
  shows "wake_inv (s\<lparr>not_empty := ws, tasks := (tasks s)(t \<mapsto> Want Recv True)\<rparr>)"
proof -
  have wf: "recv_wf (tasks s) (not_empty s)" using assms(1) by (simp add: wake_inv_def)
  obtain i where i: "aw_id a = Some i" "i \<in> signalled (not_empty s)" "ws = wakers_delete i (not_empty s)"
    by (rule recv_poll_ready [OF wf assms(2,3)])
  have f: "finite (signalled (not_empty s))" "finite (woken_of (tasks s))"
    using wf finite_signalled finite_woken by (auto simp: recv_wf_def)
  have "t \<notin> woken_of (tasks s)" using assms(2) by (simp add: woken_of_def)
  then have "card (woken_of ((tasks s)(t \<mapsto> Want Recv True))) = Suc (card (woken_of (tasks s)))"
    using f(2) by (simp add: woken_of_upd)
  moreover have "card (signalled (not_empty s)) = Suc (card (signalled ws))" "sleeping ws = sleeping (not_empty s)"
    using card.remove [OF f(1) i(2)] delete_sets [OF i(2)] by (simp_all add: i(3))
  moreover have "recv_wf ((tasks s)(t \<mapsto> Want Recv True)) ws"
    unfolding i(3) by (rule recv_remove [OF wf assms(2) i(1)]) simp
  ultimately show ?thesis using assms(1) by (simp add: wake_inv_def)
qed

lemma wake_inv_recv_cancel:
  assumes "wake_inv s" "tasks s t = Some (Waiting Recv a)" "iterates ord (wakers_delete (the (aw_id a)) (not_empty s))"
  shows "wake_inv (s\<lparr>not_empty := fst (await_drop ord a (not_empty s)), tasks := (tasks s)(t := None)\<rparr>)"
proof -
  let ?ws = "not_empty s"
  have wf: "recv_wf (tasks s) ?ws" using assms(1) by (simp add: wake_inv_def)
  obtain i where i: "aw_id a = Some i" "i \<in> dom (waiters ?ws)" using wf assms(2) unfolding recv_wf_def by metis
  have rw: "recv_wf ((tasks s)(t := None)) (wakers_delete i ?ws)" by (rule recv_remove [OF wf assms(2) i(1)]) simp
  have f: "finite (signalled ?ws)" using wf finite_signalled by (auto simp: recv_wf_def)
  have w: "woken_of ((tasks s)(t := None)) = woken_of (tasks s)" using assms(2) by (auto simp: woken_of_def)
  show ?thesis
  proof (cases "i \<in> signalled ?ws")
    case True
    then have d: "await_drop ord a ?ws = wake True ord (wakers_delete i ?ws)"
      using i(1) by (simp add: await_drop_def signalled_def)
    have o: "iterates ord (wakers_delete i ?ws)" using assms(3) i(1) by simp
    have "recv_wf ((tasks s)(t := None)) (fst (await_drop ord a ?ws))"
      unfolding d by (rule recv_wf_waiters [OF rw]) (use rw wake_one_wf [OF o] in \<open>simp_all add: recv_wf_def\<close>)
    moreover have "sleeping (fst (await_drop ord a ?ws)) \<noteq> {} \<longrightarrow>
        sleeping ?ws \<noteq> {} \<and> card (signalled (fst (await_drop ord a ?ws))) = card (signalled ?ws)"
      using o
    proof (cases rule: wake_one_cases)
      case 1
      then show ?thesis using delete_sets [OF True] by (simp add: d)
    next
      case (2 j)
      have "card (insert j (signalled ?ws - {i})) = card (signalled ?ws)"
        using 2(5) f card.remove [OF f True] delete_sets [OF True] by (metis card_insert_disjoint finite_Diff)
      then show ?thesis using 2 delete_sets [OF True] by (auto simp: d)
    qed
    ultimately show ?thesis using assms(1) w by (simp add: wake_inv_def)
  next
    case False
    with i have d: "await_drop ord a ?ws = (wakers_delete i ?ws, [])"
      by (auto simp: await_drop_def signalled_def split: option.splits)
    have "signalled (wakers_delete i ?ws) = signalled ?ws" "sleeping (wakers_delete i ?ws) \<subseteq> sleeping ?ws"
      using False by (auto simp: wakers_delete_def signalled_def sleeping_def split: if_splits)
    then show ?thesis using assms(1) rw w d by (auto simp: wake_inv_def)
  qed
qed

lemma wake_inv_push_ok:
  assumes "wake_inv s" "tasks s t = Some (Holding (Push x) b)" "iterates ord (not_empty s)"
  shows "wake_inv (s\<lparr>items := items s @ [x], owner := None, not_empty := fst (wake True ord (not_empty s)),
      tasks := (tasks s)(t := None), pushed := pushed s @ [x]\<rparr>)"
proof -
  let ?ws' = "fst (wake True ord (not_empty s))"
  have wf: "recv_wf (tasks s) (not_empty s)" using assms(1) by (simp add: wake_inv_def)
  have "recv_wf ((tasks s)(t := None)) ?ws'"
    by (rule recv_wf_waiters [OF recv_wf_other [OF wf]]) (use wf wake_one_wf [OF assms(3)] in \<open>auto simp: recv_wf_def\<close>)
  moreover have "woken_of ((tasks s)(t := None)) = woken_of (tasks s)" using assms(2) by (auto simp: woken_of_def)
  moreover have "sleeping ?ws' \<noteq> {} \<longrightarrow> sleeping (not_empty s) \<noteq> {} \<and> card (signalled ?ws') = Suc (card (signalled (not_empty s)))"
    using assms(3)
  proof (cases rule: wake_one_cases)
    case (2 i)
    then show ?thesis using wf finite_signalled by (auto simp: recv_wf_def)
  qed simp
  ultimately show ?thesis using assms(1) by (simp add: wake_inv_def)
qed

lemma wake_inv_step:
  assumes "wake_inv s" "qstep False capacity s s'"
  shows "wake_inv s'"
  using assms(2)
proof cases
  case (recv_ok t b x q ord)
  have f: "finite (woken_of (tasks s))" using assms(1) finite_woken by (auto simp: wake_inv_def recv_wf_def)
  have "card (woken_of (tasks s)) \<le> Suc (card (woken_of ((tasks s)(t := None))))"
    using f by (simp add: woken_of_upd card_Diff_singleton_if) linarith
  then show ?thesis
    using assms(1) recv_ok by (auto simp: wake_inv_def recv_wf_other aq_recv_Some)
next
  case (push_ok t x b q ord)
  then show ?thesis using wake_inv_push_ok [OF assms(1), of t x b ord] by (simp add: aq_push_Some)
next
  case (recv_wait t b a ws)
  then show ?thesis using assms(1) recv_register [of "tasks s" "not_empty s" t a ws]
    by (simp add: wake_inv_def aq_recv_None)
next
  case (recv_woken t a a' ws)
  then show ?thesis using wake_inv_recv_woken [OF assms(1)] by simp
next
  case (recv_cancel t a ord)
  then show ?thesis using wake_inv_recv_cancel [OF assms(1)] by simp
next
  case (acquire t op b)
  have "woken_of ((tasks s)(t \<mapsto> Holding op b)) = woken_of (tasks s)" using acquire by (auto simp: woken_of_def)
  then show ?thesis using assms(1) acquire by (simp add: wake_inv_def recv_wf_other)
next
  case (start t op)
  then show ?thesis using assms(1)
    by (simp add: wake_inv_def recv_wf_other woken_of_upd) (simp add: woken_of_def)
next
  case (push_wait t x b a ws)
  then show ?thesis using assms(1)
    by (simp add: wake_inv_def recv_wf_other woken_of_upd) (simp add: woken_of_def)
next
  case (push_woken t x a a' ws)
  then show ?thesis using assms(1)
    by (simp add: wake_inv_def recv_wf_other woken_of_upd) (simp add: woken_of_def)
next
  case (push_cancel t x a ord)
  then show ?thesis using assms(1)
    by (simp add: wake_inv_def recv_wf_other woken_of_upd) (simp add: woken_of_def)
next
  case (lock_cancel t op b)
  then show ?thesis using assms(1)
    by (simp add: wake_inv_def recv_wf_other woken_of_upd) (simp add: woken_of_def)
qed

interpretation wake_sys: step_invariant "qstep False capacity" wake_inv for capacity
  by unfold_locales (rule wake_inv_step)

section \<open>A run with a cancelled receiver\<close>

text \<open>Two receivers wait, an item is pushed, and the receiver that got the signal
  is cancelled while it waits for the lock again.\<close>

definition ex_await :: "nat \<Rightarrow> cv_await" where
  "ex_await i = \<lparr>aw_id = Some i, aw_guard = False\<rparr>"

definition ex_state :: "'a list \<Rightarrow> task option \<Rightarrow> wakers \<Rightarrow> (task \<rightharpoonup> 'a tstate) \<Rightarrow> 'a list \<Rightarrow> 'a qsys" where
  "ex_state q o' ws m p = \<lparr>items = q, owner = o', not_empty = ws, not_full = wakers_new, tasks = m, pushed = p, received = []\<rparr>"

lemma ex_state_sel [simp]:
  "items (ex_state q o' ws m p) = q" "owner (ex_state q o' ws m p) = o'" "not_empty (ex_state q o' ws m p) = ws"
  "tasks (ex_state q o' ws m p) = m" "pushed (ex_state q o' ws m p) = p" "received (ex_state q o' ws m p) = []"
  by (simp_all add: ex_state_def)

lemma ex_receiver:
  assumes "m t = None"
  shows "(qstep r c)\<^sup>*\<^sup>* (ex_state [] None ws m p)
    (ex_state [] None \<lparr>waiters = (waiters ws)(next_id ws \<mapsto> Some t), next_id = next_id ws + 1\<rparr> (m(t \<mapsto> Waiting Recv (ex_await (next_id ws)))) p)"
proof -
  let ?s1 = "ex_state [] None ws (m(t \<mapsto> Want Recv False)) p"
  let ?s2 = "ex_state [] (Some t) ws (m(t \<mapsto> Holding Recv False)) p"
  have "qstep r c (ex_state [] None ws m p) ?s1"
    using qstep.start [of "ex_state [] None ws m p" t r c Recv] assms by (simp add: ex_state_def)
  moreover have "qstep r c ?s1 ?s2"
    using qstep.acquire [of ?s1 t Recv False r c] by (simp add: ex_state_def)
  moreover have "qstep r c ?s2 (ex_state [] None \<lparr>waiters = (waiters ws)(next_id ws \<mapsto> Some t), next_id = next_id ws + 1\<rparr>
      (m(t \<mapsto> Waiting Recv (ex_await (next_id ws)))) p)"
    using qstep.recv_wait [of ?s2 t False "ex_await (next_id ws)" _ r c]
    by (simp add: ex_state_def aq_recv_def await_poll_def await_new_def wakers_put_def ex_await_def)
  ultimately show ?thesis by (meson converse_rtranclp_into_rtranclp rtranclp.rtrancl_refl)
qed

lemma ex_two_receivers:
  "(qstep r c)\<^sup>*\<^sup>* (qsys_init :: 'a qsys) (ex_state [] None \<lparr>waiters = [0 \<mapsto> Some 1, 1 \<mapsto> Some 2], next_id = 2\<rparr>
     [1 \<mapsto> Waiting Recv (ex_await 0), 2 \<mapsto> Waiting Recv (ex_await 1)] [])"
proof -
  let ?w1 = "\<lparr>waiters = [0 \<mapsto> Some 1], next_id = 1\<rparr>" and ?m1 = "[1 :: nat \<mapsto> Waiting Recv (ex_await 0)] :: nat \<rightharpoonup> 'a tstate"
  have e: "(qsys_init :: 'a qsys) = ex_state [] None wakers_new Map.empty []" by (simp add: qsys_init_def ex_state_def)
  have "(qstep r c)\<^sup>*\<^sup>* qsys_init (ex_state [] None ?w1 ?m1 [])"
    unfolding e using ex_receiver [of "Map.empty :: nat \<rightharpoonup> 'a tstate" 1 r c wakers_new "[]"] by (simp add: wakers_new_def)
  moreover have "(qstep r c)\<^sup>*\<^sup>* (ex_state [] None ?w1 ?m1 [])
     (ex_state [] None \<lparr>waiters = [0 \<mapsto> Some 1, 1 \<mapsto> Some 2], next_id = 2\<rparr> (?m1(2 \<mapsto> Waiting Recv (ex_await 1))) [])"
    using ex_receiver [of ?m1 2 r c ?w1 "[]"] by (simp del: One_nat_def)
  ultimately show ?thesis by (rule rtranclp_trans)
qed

lemma ex_push:
  assumes "0 < c"
  shows "(qstep r c)\<^sup>*\<^sup>* qsys_init (ex_state [x] None \<lparr>waiters = [0 \<mapsto> None, 1 \<mapsto> Some 2], next_id = 2\<rparr>
     [1 \<mapsto> Waiting Recv (ex_await 0), 2 \<mapsto> Waiting Recv (ex_await 1)] [x])"
proof -
  let ?ws = "\<lparr>waiters = [0 \<mapsto> Some 1, 1 \<mapsto> Some 2], next_id = 2\<rparr>"
  let ?m = "[1 :: nat \<mapsto> Waiting Recv (ex_await 0), 2 \<mapsto> Waiting Recv (ex_await 1)]"
  let ?s1 = "ex_state [] None ?ws (?m(3 \<mapsto> Want (Push x) False)) []"
  let ?s2 = "ex_state [] (Some 3) ?ws (?m(3 \<mapsto> Holding (Push x) False)) []"
  let ?s3 = "ex_state [x] None \<lparr>waiters = [0 \<mapsto> None, 1 \<mapsto> Some 2], next_id = 2\<rparr> ?m [x]"
  have "qstep r c (ex_state [] None ?ws ?m []) ?s1"
    using qstep.start [of "ex_state [] None ?ws ?m []" 3 r c "Push x"] by (simp add: ex_state_def)
  moreover have "qstep r c ?s1 ?s2"
    using qstep.acquire [of ?s1 3 "Push x" False r c] by (simp add: ex_state_def)
  moreover have "qstep r c ?s2 ?s3"
  proof -
    have "iterates [0, 1] ?ws" by (auto simp: iterates_def)
    moreover have "fst (wake True [0, 1] ?ws) = \<lparr>waiters = [0 \<mapsto> None, 1 \<mapsto> Some 2], next_id = 2\<rparr>"
      by (simp add: wake.simps(2) fun_upd_twist)
    moreover have "(?m(3 \<mapsto> Holding (Push x) False))(3 := None) = ?m" by (simp add: fun_eq_iff)
    ultimately show ?thesis
      using qstep.push_ok [of ?s2 3 x False c "[x]" "[0, 1]" r] assms by (simp add: ex_state_def aq_push_def)
  qed
  ultimately show ?thesis
    using ex_two_receivers [of r c, where 'a = 'a] by (meson rtranclp.rtrancl_into_rtrancl)
qed

section \<open>Properties\<close>

text \<open>C14. The concurrent queue is a bounded first-in first-out queue in every interleaving of any number
  of producers and consumers, cancellations included: what was received is a prefix of what was
  pushed, in the same order, the rest is in the queue, and the queue never holds more than
  its capacity.\<close>

theorem queue_fifo:
  assumes "(qstep relock capacity)\<^sup>*\<^sup>* qsys_init s"
  shows "pushed s = received s @ items s \<and> length (items s) \<le> capacity"
  using fifo_sys.reachable_inv [OF assms] by (simp add: fifo_inv_def qsys_init_def)

theorem queue_fifo_witness:
  "\<exists>s :: nat qsys. (qstep True 1)\<^sup>*\<^sup>* qsys_init s \<and> items s = [5] \<and> pushed s = received s @ items s \<and> length (items s) \<le> 1"
  using queue_fifo [OF ex_push [of 1 True "5 :: nat"]] ex_push [of 1 True "5 :: nat"] by fastforce

text \<open>C15. No wake-up of a receiver is lost as long as woken receivers run on: if the queue
  holds an item while a receiver sleeps, then some receiver has been signalled, or has been woken
  and has not finished its call, so that the item will be taken.  Waiting receivers
  may be cancelled at any time.\<close>

theorem queue_no_lost_wakeup:
  fixes s :: "'a qsys"
  assumes "(qstep False capacity)\<^sup>*\<^sup>* qsys_init s" and "items s \<noteq> []" and "sleeping (not_empty s) \<noteq> {}"
  shows "signalled (not_empty s) \<noteq> {} \<or> woken_of (tasks s) \<noteq> {}"
proof -
  have "wake_inv (qsys_init :: 'a qsys)"
    by (simp add: wake_inv_def qsys_init_def recv_wf_def wakers_wf_def wakers_new_def)
  then have "wake_inv s" using wake_sys.reachable_inv [OF assms(1)] by simp
  then show ?thesis using assms(2,3) by (auto simp: wake_inv_def)
qed

theorem queue_no_lost_wakeup_witness: "signalled \<lparr>waiters = [0 \<mapsto> None, 1 \<mapsto> Some 2], next_id = 2\<rparr> \<noteq> {}"
proof -
  have "1 \<in> sleeping \<lparr>waiters = [0 \<mapsto> None, 1 \<mapsto> Some 2], next_id = 2\<rparr>" by (simp add: sleeping_def)
  moreover have "woken_of [1 \<mapsto> Waiting Recv (ex_await 0), 2 \<mapsto> (Waiting Recv (ex_await 1) :: nat tstate)] = {}"
    by (auto simp: woken_of_def split: if_splits)
  ultimately show ?thesis using queue_no_lost_wakeup [OF ex_push [of 1 False "5 :: nat"]] by auto
qed

text \<open>The condition variable passes a signal on only while its waiter is still in the list: a receiver that is cancelled
  after its signal, while it waits for the lock again, takes the signal with it.
  There is a run after which an item is in the queue, the lock is free, and the only task
  left is a receiver that sleeps without a signal.\<close>

lemma queue_relock_cancel_loses_signal:
  "\<exists>s a i. (qstep True 1)\<^sup>*\<^sup>* qsys_init s \<and> items s = [x] \<and> owner s = None \<and> tasks s = [2 \<mapsto> Waiting Recv a]
     \<and> aw_id a = Some i \<and> i \<in> sleeping (not_empty s) \<and> signalled (not_empty s) = {}"
proof -
  let ?m = "[1 :: nat \<mapsto> Waiting Recv (ex_await 0), 2 \<mapsto> Waiting Recv (ex_await 1)]"
  let ?s0 = "ex_state [x] None \<lparr>waiters = [0 \<mapsto> None, 1 \<mapsto> Some 2], next_id = 2\<rparr> ?m [x]"
  let ?s1 = "ex_state [x] None \<lparr>waiters = [1 \<mapsto> Some 2], next_id = 2\<rparr> (?m(1 \<mapsto> Want Recv True)) [x]"
  let ?s2 = "ex_state [x] None \<lparr>waiters = [1 \<mapsto> Some 2], next_id = 2\<rparr> [2 \<mapsto> Waiting Recv (ex_await 1)] [x]"
  have "await_poll 1 (ex_await 0) (not_empty ?s0) = (Ready (), \<lparr>aw_id = None, aw_guard = False\<rparr>, \<lparr>waiters = [1 \<mapsto> Some 2], next_id = 2\<rparr>)"
    by (simp add: await_poll_def ex_await_def wakers_delete_def fun_upd_twist)
  then have "qstep True 1 ?s0 ?s1"
    using qstep.recv_woken [of ?s0 1 "ex_await 0" _ _ True 1] by (simp add: ex_state_def)
  moreover have "qstep True 1 ?s1 ?s2"
  proof -
    have "(?m(1 \<mapsto> Want Recv True))(1 := None) = [2 \<mapsto> Waiting Recv (ex_await 1)]" by (simp add: fun_eq_iff)
    then show ?thesis using qstep.lock_cancel [of ?s1 1 Recv True True 1] by (simp add: ex_state_def)
  qed
  ultimately have "(qstep True 1)\<^sup>*\<^sup>* qsys_init ?s2"
    using ex_push [of 1 True x] by (meson rtranclp.rtrancl_into_rtrancl zero_less_one)
  moreover have "1 \<in> sleeping (not_empty ?s2)" "signalled (not_empty ?s2) = {}" "aw_id (ex_await 1) = Some 1"
    by (auto simp: sleeping_def signalled_def ex_await_def split: if_splits)
  ultimately show ?thesis using ex_state_sel by metis
qed

end
