(* ===== verification/Core_Tasks.thy ===== *)
theory Core_Tasks
  imports Core_Async
begin

text \<open>
  \<open>CondWait\<close> (\<open>core/src/async_util/condwait.rs\<close>) and task groups (\<open>core/src/async_util/task_group.rs\<close>).
  A task group is a step relation over its handlers, the phase of every spawned
  task, its two flags, and the running \<open>cancel\<close> calls; steps of
  different tasks interleave freely.
\<close>

section \<open>CondWait\<close>

record cond_wait =
  cw_condvar :: wakers
  cw_w :: bool

definition cond_wait_new :: cond_wait where
  "cond_wait_new = \<lparr>cw_condvar = wakers_new, cw_w = False\<rparr>"

text \<open>The loop of \<open>wait\<close> with the lock held: return, or register and sleep.\<close>

definition cw_wait :: "task \<Rightarrow> cond_wait \<Rightarrow> unit poll \<times> cond_wait" where
  "cw_wait t c = (if cw_w c then (Ready (), c)
     else (case await_poll t await_new (cw_condvar c) of (_, _, ws) \<Rightarrow> (Pending, c\<lparr>cw_condvar := ws\<rparr>)))"

definition cw_signal :: "waiter_id list \<Rightarrow> cond_wait \<Rightarrow> cond_wait" where
  "cw_signal ord c = c\<lparr>cw_w := True, cw_condvar := fst (wake True ord (cw_condvar c))\<rparr>"

definition cw_broadcast :: "waiter_id list \<Rightarrow> cond_wait \<Rightarrow> cond_wait" where
  "cw_broadcast ord c = c\<lparr>cw_w := True, cw_condvar := fst (wake False ord (cw_condvar c))\<rparr>"

definition cw_reset :: "cond_wait \<Rightarrow> cond_wait" where
  "cw_reset c = c\<lparr>cw_w := False\<rparr>"

section \<open>Task groups\<close>

datatype 'r task_result = Completed 'r | Cancelled

text \<open>The body of a spawned task: waiting in \<open>select\<close>, in its callback, after
  the callback with \<open>cancel_flag\<close> signalled, ended, or panicked with the signal of the
  panic guard still to be sent.\<close>

datatype 'r phase = Polling | InCallback "'r task_result" | Signalled | Ended | Panicked | PanicEnded

type_synonym task_id = nat

text \<open>\<open>stops\<close> and \<open>flags\<close> are the ids whose \<open>stop_signal\<close> and \<open>cancel_flag\<close> are set;
  \<open>calls\<close> holds, per \<open>cancel\<close> call, the handlers still to cancel and whether
  the first one was told to stop; \<open>callbacks\<close> is the history of callback runs and \<open>taken\<close>
  that of the handlers each \<open>cancel\<close> call drained.\<close>

record 'r group =
  handlers :: "task_id set"
  next_task :: task_id
  phases :: "task_id \<rightharpoonup> 'r phase"
  stops :: "task_id set"
  flags :: "task_id set"
  calls :: "nat \<rightharpoonup> task_id list \<times> bool"
  callbacks :: "(task_id \<times> 'r task_result) list"
  taken :: "nat \<rightharpoonup> task_id list"

definition group_new :: "'r group" where
  "group_new = \<lparr>handlers = {}, next_task = 0, phases = Map.empty, stops = {}, flags = {}, calls = Map.empty, callbacks = [],
     taken = Map.empty\<rparr>"

text \<open>\<open>spawn_then\<close>: the id and the group with the new task.\<close>

definition spawn_then :: "'r group \<Rightarrow> task_id \<times> 'r group" where
  "spawn_then g = (next_task g, g\<lparr>handlers := insert (next_task g) (handlers g), next_task := next_task g + 1,
     phases := (phases g)(next_task g \<mapsto> Polling)\<rparr>)"

definition remove_from_group :: "task_id \<Rightarrow> 'r group \<Rightarrow> 'r group" where
  "remove_from_group i g = g\<lparr>handlers := handlers g - {i}\<rparr>"

text \<open>The body of the spawned task: the outcome of its \<open>select\<close>, which prefers the
  stop signal, the callback with the signal that it has run, and the self removal.\<close>

definition select_result :: "'r group \<Rightarrow> task_id \<Rightarrow> 'r \<Rightarrow> 'r task_result" where
  "select_result g i r = (if i \<in> stops g then Cancelled else Completed r)"

definition run_callback :: "task_id \<Rightarrow> 'r task_result \<Rightarrow> 'r group \<Rightarrow> 'r group" where
  "run_callback i res g = g\<lparr>phases := (phases g)(i \<mapsto> Signalled), flags := insert i (flags g), callbacks := callbacks g @ [(i, res)]\<rparr>"

text \<open>The panic guard removes the task at once and signals from a new task.\<close>

definition panic_guard_drop :: "task_id \<Rightarrow> 'r group \<Rightarrow> 'r group" where
  "panic_guard_drop i g = remove_from_group i (g\<lparr>phases := (phases g)(i \<mapsto> Panicked)\<rparr>)"

text \<open>\<open>cancel\<close> of the group drains the handlers; \<open>cancel\<close> of a handler signals the stop,
  then waits for the flag.\<close>

definition group_cancel :: "nat \<Rightarrow> task_id list \<Rightarrow> 'r group \<Rightarrow> 'r group" where
  "group_cancel c ids g = g\<lparr>handlers := {}, calls := (calls g)(c \<mapsto> (ids, False)), taken := (taken g)(c \<mapsto> ids)\<rparr>"

definition handler_cancel :: "nat \<Rightarrow> 'r group \<Rightarrow> 'r group option" where
  "handler_cancel c g = (case calls g c of
      Some (i # ids, False) \<Rightarrow> Some (g\<lparr>stops := insert i (stops g), calls := (calls g)(c \<mapsto> (i # ids, True))\<rparr>)
    | Some (i # ids, True) \<Rightarrow> (if i \<in> flags g then Some (g\<lparr>calls := (calls g)(c \<mapsto> (ids, False))\<rparr>) else None)
    | _ \<Rightarrow> None)"

inductive gstep :: "'r group \<Rightarrow> 'r group \<Rightarrow> bool" where
  spawn: "gstep g (snd (spawn_then g))"
| selected: "phases g i = Some Polling \<Longrightarrow> gstep g (g\<lparr>phases := (phases g)(i \<mapsto> InCallback (select_result g i r))\<rparr>)"
| callback: "phases g i = Some (InCallback res) \<Longrightarrow> gstep g (run_callback i res g)"
| remove_self: "phases g i = Some Signalled \<Longrightarrow> gstep g (remove_from_group i (g\<lparr>phases := (phases g)(i \<mapsto> Ended)\<rparr>))"
| panic: "phases g i = Some Polling \<or> (\<exists>res. phases g i = Some (InCallback res)) \<Longrightarrow> gstep g (panic_guard_drop i g)"
| panic_signal: "phases g i = Some Panicked \<Longrightarrow>
     gstep g (g\<lparr>phases := (phases g)(i \<mapsto> PanicEnded), flags := insert i (flags g)\<rparr>)"
| cancel: "calls g c = None \<Longrightarrow> distinct ids \<Longrightarrow> set ids = handlers g \<Longrightarrow> gstep g (group_cancel c ids g)"
| cancel_handler: "handler_cancel c g = Some h \<Longrightarrow> gstep g h"

lemmas gstep_defs = spawn_then_def remove_from_group_def select_result_def run_callback_def panic_guard_drop_def group_cancel_def

lemma handler_cancel_Some:
  "handler_cancel c g = Some h \<longleftrightarrow>
     (\<exists>i ids. calls g c = Some (i # ids, False) \<and> h = g\<lparr>stops := insert i (stops g), calls := (calls g)(c \<mapsto> (i # ids, True))\<rparr>)
   \<or> (\<exists>i ids. calls g c = Some (i # ids, True) \<and> i \<in> flags g \<and> h = g\<lparr>calls := (calls g)(c \<mapsto> (ids, False))\<rparr>)"
  by (auto simp: handler_cancel_def split: option.splits prod.splits list.splits bool.splits if_splits)

text \<open>A task that has run its callback or panicked is over.\<close>

definition over :: "'r group \<Rightarrow> task_id \<Rightarrow> bool" where
  "over g i \<longleftrightarrow> phases g i \<in> {Some Signalled, Some Ended, Some PanicEnded}"

definition ids_inv :: "'r group \<Rightarrow> bool" where
  "ids_inv g \<longleftrightarrow> (\<forall>i. phases g i \<noteq> None \<longleftrightarrow> i < next_task g) \<and> (\<forall>i \<in> handlers g. phases g i \<noteq> None)"

definition flags_inv :: "'r group \<Rightarrow> bool" where
  "flags_inv g \<longleftrightarrow> (\<forall>i. i \<in> flags g \<longleftrightarrow> over g i)"

definition calls_inv :: "'r group \<Rightarrow> bool" where
  "calls_inv g \<longleftrightarrow> (\<forall>c ids b. calls g c = Some (ids, b) \<longrightarrow>
     (\<forall>i \<in> set ids. phases g i \<noteq> None) \<and> (b \<longrightarrow> ids \<noteq> [] \<and> hd ids \<in> stops g))"

definition callbacks_inv :: "'r group \<Rightarrow> bool" where
  "callbacks_inv g \<longleftrightarrow> distinct (map fst (callbacks g))
     \<and> (\<forall>i. i \<in> fst ` set (callbacks g) \<longleftrightarrow> phases g i \<in> {Some Signalled, Some Ended})"

definition taken_inv :: "'r group \<Rightarrow> bool" where
  "taken_inv g \<longleftrightarrow> (\<forall>c ids b. calls g c = Some (ids, b) \<longrightarrow> (\<exists>d. taken g c = Some (d @ ids) \<and> set d \<subseteq> flags g))"

definition group_inv :: "'r group \<Rightarrow> bool" where
  "group_inv g \<longleftrightarrow> ids_inv g \<and> flags_inv g \<and> calls_inv g \<and> callbacks_inv g \<and> taken_inv g"

lemma ids_inv_step: "ids_inv g \<Longrightarrow> gstep g h \<Longrightarrow> ids_inv h"
  by (erule gstep.cases) (auto simp: ids_inv_def less_Suc_eq gstep_defs handler_cancel_Some)

lemma flags_inv_step: "ids_inv g \<Longrightarrow> flags_inv g \<Longrightarrow> gstep g h \<Longrightarrow> flags_inv h"
  by (erule gstep.cases) (auto simp: flags_inv_def over_def ids_inv_def gstep_defs handler_cancel_Some)

lemma calls_inv_step: "ids_inv g \<Longrightarrow> calls_inv g \<Longrightarrow> gstep g h \<Longrightarrow> calls_inv h"
  by (erule gstep.cases) (fastforce simp: calls_inv_def ids_inv_def gstep_defs handler_cancel_Some split: if_splits)+

lemma handler_cancel_frame:
  "handler_cancel c g = Some h \<Longrightarrow> phases h = phases g \<and> callbacks h = callbacks g \<and> flags h = flags g \<and> taken h = taken g"
  by (auto simp: handler_cancel_Some)

lemma callbacks_inv_step:
  assumes "ids_inv g" "callbacks_inv g" "gstep g h"
  shows "callbacks_inv h"
  using assms(3)
proof cases
  case (cancel_handler c)
  then show ?thesis using assms(2) handler_cancel_frame by (fastforce simp only: callbacks_inv_def)
qed (use assms(1,2) in \<open>auto simp: callbacks_inv_def ids_inv_def gstep_defs split: if_splits\<close>)

lemma taken_inv_wait:
  assumes "taken_inv g" "calls g c = Some (i # ids, True)" "i \<in> flags g"
  shows "taken_inv (g\<lparr>calls := (calls g)(c \<mapsto> (ids, False))\<rparr>)"
proof -
  obtain d where d: "taken g c = Some (d @ i # ids)" "set d \<subseteq> flags g" using assms(1,2) unfolding taken_inv_def by blast
  have "taken g c = Some ((d @ [i]) @ ids)" "set (d @ [i]) \<subseteq> flags g" using d assms(3) by simp_all
  then have "\<exists>d. taken g c = Some (d @ ids) \<and> set d \<subseteq> flags g" by blast
  then show ?thesis using assms(1) unfolding taken_inv_def by auto
qed

lemma taken_inv_step:
  assumes "taken_inv g" "gstep g h"
  shows "taken_inv h"
  using assms(2)
proof cases
  case (cancel_handler c)
  then consider i ids where "calls g c = Some (i # ids, False)" "h = g\<lparr>stops := insert i (stops g), calls := (calls g)(c \<mapsto> (i # ids, True))\<rparr>"
    | i ids where "calls g c = Some (i # ids, True)" "i \<in> flags g" "h = g\<lparr>calls := (calls g)(c \<mapsto> (ids, False))\<rparr>"
    unfolding handler_cancel_Some by blast
  then show ?thesis
  proof cases
    case 1
    then show ?thesis using assms(1) unfolding taken_inv_def by (auto split: if_splits)
  qed (use taken_inv_wait [OF assms(1)] in simp)
qed (use assms(1) in \<open>force simp: taken_inv_def gstep_defs\<close>)+

interpretation group_sys: step_invariant gstep group_inv
  by unfold_locales
     (auto simp: group_inv_def intro: ids_inv_step flags_inv_step calls_inv_step callbacks_inv_step taken_inv_step)

lemma group_inv_new: "group_inv group_new"
  by (simp add: group_inv_def ids_inv_def flags_inv_def calls_inv_def callbacks_inv_def taken_inv_def group_new_def over_def)

lemmas group_reachable = group_sys.reachable_inv [OF _ group_inv_new]

section \<open>Cancelling always ends\<close>

lemma one_step: "gstep g h \<Longrightarrow> Q h \<Longrightarrow> \<exists>h. gstep\<^sup>*\<^sup>* g h \<and> Q h"
  by (intro exI [of _ h] conjI r_into_rtranclp)

lemma callback_path:
  assumes "phases g i = Some (InCallback res)"
  shows "\<exists>h. gstep\<^sup>*\<^sup>* g h \<and> i \<in> flags h \<and> calls h = calls g"
  by (rule one_step [OF gstep.callback [OF assms]]) (simp add: run_callback_def)

lemma flag_path:
  assumes "group_inv g" "phases g i \<noteq> None" "i \<in> stops g"
  shows "\<exists>h. gstep\<^sup>*\<^sup>* g h \<and> i \<in> flags h \<and> calls h = calls g"
proof (cases "i \<in> flags g")
  case True
  then show ?thesis by blast
next
  case False
  then have "\<not> over g i" using assms(1) by (simp add: group_inv_def flags_inv_def)
  moreover obtain p where "phases g i = Some p" using assms(2) by blast
  ultimately consider "phases g i = Some Polling" | res where "phases g i = Some (InCallback res)" | "phases g i = Some Panicked"
    by (cases p) (auto simp: over_def)
  then show ?thesis
  proof cases
    case 1
    let ?h = "g\<lparr>phases := (phases g)(i \<mapsto> InCallback Cancelled)\<rparr>"
    have "gstep g ?h" using gstep.selected [OF 1] assms(3) by (simp add: select_result_def)
    moreover obtain h where "gstep\<^sup>*\<^sup>* ?h h" "i \<in> flags h" "calls h = calls g"
      using callback_path [of ?h i Cancelled] by auto
    ultimately show ?thesis by (meson converse_rtranclp_into_rtranclp)
  next
    case 2
    then show ?thesis by (rule callback_path)
  next
    case 3
    show ?thesis by (rule one_step [OF gstep.panic_signal [OF 3]]) simp
  qed
qed

lemma cancel_head_path:
  assumes "group_inv g" "calls g c = Some (i # ids, b)"
  shows "\<exists>h. gstep\<^sup>*\<^sup>* g h \<and> calls h c = Some (ids, False)"
proof -
  obtain g1 where 1: "gstep\<^sup>*\<^sup>* g g1" "calls g1 c = Some (i # ids, True)"
  proof (cases b)
    case False
    then have "gstep g (g\<lparr>stops := insert i (stops g), calls := (calls g)(c \<mapsto> (i # ids, True))\<rparr>)"
      using assms(2) by (intro gstep.cancel_handler [of c]) (simp add: handler_cancel_def)
    from one_step [OF this, of "\<lambda>h. calls h c = Some (i # ids, True)"] that show ?thesis by auto
  qed (use assms(2) that [of g] in auto)
  have inv: "group_inv g1" by (rule group_sys.reachable_inv [OF 1(1) assms(1)])
  then have "phases g1 i \<noteq> None" "i \<in> stops g1" using 1(2) by (fastforce simp: group_inv_def calls_inv_def)+
  from flag_path [OF inv this] obtain g2 where 2: "gstep\<^sup>*\<^sup>* g1 g2" "i \<in> flags g2" "calls g2 = calls g1" by blast
  have "gstep g2 (g2\<lparr>calls := (calls g2)(c \<mapsto> (ids, False))\<rparr>)" by (rule gstep.cancel_handler [of c]) (use 1 2 in \<open>simp add: handler_cancel_def\<close>)
  with 1(1) 2(1) have "gstep\<^sup>*\<^sup>* g (g2\<lparr>calls := (calls g2)(c \<mapsto> (ids, False))\<rparr>)" by (meson rtranclp.rtrancl_into_rtrancl rtranclp_trans)
  moreover have "calls (g2\<lparr>calls := (calls g2)(c \<mapsto> (ids, False))\<rparr>) c = Some (ids, False)" by simp
  ultimately show ?thesis by blast
qed

lemma cancel_path:
  "group_inv g \<Longrightarrow> calls g c = Some (ids, b) \<Longrightarrow> \<exists>h b'. gstep\<^sup>*\<^sup>* g h \<and> calls h c = Some ([], b')"
proof (induction ids arbitrary: g b)
  case (Cons i ids)
  obtain h where h: "gstep\<^sup>*\<^sup>* g h" "calls h c = Some (ids, False)" using cancel_head_path [OF Cons.prems] by blast
  from Cons.IH [OF group_sys.reachable_inv [OF h(1) Cons.prems(1)] h(2)] h(1) show ?case by (meson rtranclp_trans)
qed blast

section \<open>A run\<close>

text \<open>One task is spawned, the group is cancelled, the task stops and runs its callback.\<close>

definition ex_group :: "nat \<Rightarrow> bool group" where
  "ex_group k = \<lparr>handlers = (if k = 1 then {0} else {}), next_task = 1,
     phases = [0 \<mapsto> (if k < 4 then Polling else if k = 4 then InCallback Cancelled else Signalled)],
     stops = (if k < 3 then {} else {0}), flags = (if k < 5 then {} else {0}),
     calls = (if k = 1 then Map.empty else [7 \<mapsto> (if k < 6 then [0] else [], k \<in> {3, 4, 5})]),
     callbacks = (if k < 5 then [] else [(0, Cancelled)]),
     taken = (if k = 1 then Map.empty else [7 \<mapsto> [0]])\<rparr>"

lemma ex_group_steps:
  "gstep group_new (ex_group 1)" "gstep (ex_group 1) (ex_group 2)" "gstep (ex_group 2) (ex_group 3)"
  "gstep (ex_group 3) (ex_group 4)" "gstep (ex_group 4) (ex_group 5)" "gstep (ex_group 5) (ex_group 6)"
  using gstep.spawn [of group_new] gstep.cancel [of "ex_group 1" 7 "[0]"] gstep.cancel_handler [of 7 "ex_group 2"]
    gstep.selected [of "ex_group 3" 0] gstep.callback [of "ex_group 4" 0 Cancelled] gstep.cancel_handler [of 7 "ex_group 5"]
  by (simp_all add: ex_group_def group_new_def gstep_defs handler_cancel_def)

lemma ex_group_reach: "gstep\<^sup>*\<^sup>* group_new (ex_group 2)" "gstep\<^sup>*\<^sup>* group_new (ex_group 6)"
proof -
  note r = rtranclp.rtrancl_into_rtrancl [of gstep]
  show 2: "gstep\<^sup>*\<^sup>* group_new (ex_group 2)" by (rule r [OF r [OF rtranclp.rtrancl_refl ex_group_steps(1)] ex_group_steps(2)])
  show "gstep\<^sup>*\<^sup>* group_new (ex_group 6)"
    by (rule r [OF r [OF r [OF r [OF 2 ex_group_steps(3)] ex_group_steps(4)] ex_group_steps(5)] ex_group_steps(6)])
qed

section \<open>Properties\<close>

text \<open>C26. When a \<open>cancel\<close> of a task group returns, every task the group held at its start is over: its
  callback has run, with the result or with the cancellation, or it has panicked; and no
  task ever runs its callback twice.\<close>

theorem task_cancel_waits:
  assumes "gstep\<^sup>*\<^sup>* group_new g" and "calls g c = Some ([], b)" and "taken g c = Some ids"
  shows "(\<forall>i \<in> set ids. (\<exists>res. (i, res) \<in> set (callbacks g)) \<or> phases g i = Some PanicEnded)
    \<and> distinct (map fst (callbacks g))"
proof -
  have inv: "group_inv g" by (rule group_reachable [OF assms(1)])
  then have "set ids \<subseteq> flags g" using assms(2,3) unfolding group_inv_def taken_inv_def by fastforce
  then have "over g i" if "i \<in> set ids" for i using inv that by (auto simp: group_inv_def flags_inv_def)
  then have "i \<in> fst ` set (callbacks g) \<or> phases g i = Some PanicEnded" if "i \<in> set ids" for i
    using inv that by (auto simp: group_inv_def callbacks_inv_def over_def)
  then show ?thesis using inv by (fastforce simp: group_inv_def callbacks_inv_def)
qed

theorem task_cancel_waits_witness:
  "(\<exists>res. (0, res) \<in> set (callbacks (ex_group 6))) \<or> phases (ex_group 6) 0 = Some PanicEnded"
  using task_cancel_waits [OF ex_group_reach(2), of 7 False "[0]"] by (simp add: ex_group_def)

text \<open>A \<open>cancel\<close> is never stuck: from every reachable state of a task group, whatever its
  tasks are doing, panics included, each \<open>cancel\<close> call that is under way can run to its end.\<close>

lemma task_cancel_ends:
  assumes "gstep\<^sup>*\<^sup>* group_new g" and "calls g c = Some (ids, b)"
  shows "\<exists>h b'. gstep\<^sup>*\<^sup>* g h \<and> calls h c = Some ([], b')"
  by (rule cancel_path [OF group_reachable [OF assms(1)] assms(2)])

lemma task_cancel_ends_witness: "\<exists>h b'. gstep\<^sup>*\<^sup>* (ex_group 2) h \<and> calls h 7 = Some ([], b')"
  using task_cancel_ends [OF ex_group_reach(1), of 7 "[0]" False] by (simp add: ex_group_def)

end
