(* ===== verification/P2p_Conn.thy ===== *)
theory P2p_Conn
  imports P2p_Handshake Core_Queue
begin

text \<open>
  The wire of a connected peer (\<open>p2p/src/peer/connection.rs\<close>, \<open>p2p/src/protocol/peer_conn.rs\<close>):
  sending and receiving per protocol over one framed pipe, the demultiplexing reader, shutdown, and the
  per-protocol streams of a QUIC connection.  Queues are the bounded queues of
  \<open>Core_Queue\<close>; an operation that has to wait for space or for an item is \<^term>\<open>Pending\<close>.
\<close>

section \<open>Queues per protocol\<close>

datatype protocol_event = EvMessage bytes | EvShutdown

definition SEND_QUEUE_SIZE :: nat where "SEND_QUEUE_SIZE = 128"
definition RECV_QUEUE_SIZE :: nat where "RECV_QUEUE_SIZE = 128"

type_synonym recv_queues = "protocol_id \<rightharpoonup> protocol_event list"

definition build_recv_queues :: "protocol_id list \<Rightarrow> recv_queues" where
  "build_recv_queues proto_ids = map_of (map (\<lambda>id. (id, [])) proto_ids)"

text \<open>Pushes a shutdown event to the queues in iteration order; the result is the
  queues and the ids still to do when a queue is full.\<close>

fun broadcast_shutdown :: "protocol_id list \<Rightarrow> recv_queues \<Rightarrow> recv_queues \<times> protocol_id list" where
  "broadcast_shutdown [] qs = (qs, [])"
| "broadcast_shutdown (i # ids) qs = (case qs i of
      None \<Rightarrow> broadcast_shutdown ids qs
    | Some q \<Rightarrow> (case aq_push RECV_QUEUE_SIZE EvShutdown q of
        None \<Rightarrow> (qs, i # ids)
      | Some q' \<Rightarrow> broadcast_shutdown ids (qs(i \<mapsto> q'))))"

section \<open>One framed pipe\<close>

record single_connection =
  send_queue :: "peer_net_msg list"
  recv_queues :: recv_queues

definition single_from_queued :: "protocol_id list \<Rightarrow> single_connection" where
  "single_from_queued negotiated = \<lparr>send_queue = [], recv_queues = build_recv_queues negotiated\<rparr>"

definition single_send ::
  "protocol_msg bin_enc \<Rightarrow> protocol_id \<Rightarrow> bytes \<Rightarrow> single_connection \<Rightarrow> (p2p_error + unit) poll \<times> single_connection" where
  "single_send enc proto_id p c =
     (case peer_net_msg_new enc CmdProtocol \<lparr>pm_protocol_id = proto_id, pm_payload = p\<rparr> of
        Inl e \<Rightarrow> (Ready (Inl e), c)
      | Inr net_msg \<Rightarrow> (case aq_push SEND_QUEUE_SIZE net_msg (send_queue c) of
          None \<Rightarrow> (Pending, c)
        | Some q \<Rightarrow> (Ready (Inr ()), c\<lparr>send_queue := q\<rparr>)))"

definition wire_recv :: "protocol_id \<Rightarrow> recv_queues \<Rightarrow> (p2p_error + protocol_event) poll \<times> recv_queues" where
  "wire_recv proto_id qs = (case qs proto_id of
      Some q \<Rightarrow> (case aq_recv q of
          Some (e, q') \<Rightarrow> (Ready (Inr e), qs(proto_id \<mapsto> q'))
        | None \<Rightarrow> (Pending, qs))
    | None \<Rightarrow> (Ready (Inl (UnsupportedProtocol proto_id)), qs))"

definition single_recv :: "protocol_id \<Rightarrow> single_connection \<Rightarrow> (p2p_error + protocol_event) poll \<times> single_connection" where
  "single_recv proto_id c = (case wire_recv proto_id (recv_queues c) of (r, qs) \<Rightarrow> (r, c\<lparr>recv_queues := qs\<rparr>))"

text \<open>\<open>shutdown\<close> completes only when every push does.\<close>

definition single_shutdown ::
  "shutdown_msg bin_enc \<Rightarrow> protocol_id list \<Rightarrow> single_connection \<Rightarrow> (p2p_error + unit) poll \<times> single_connection" where
  "single_shutdown enc ord c = (case peer_net_msg_new enc CmdShutdown (ShutdownMsg 0) of
      Inl e \<Rightarrow> (Ready (Inl e), c)
    | Inr m \<Rightarrow> (case aq_push SEND_QUEUE_SIZE m (send_queue c) of
        None \<Rightarrow> (Pending, c)
      | Some q \<Rightarrow> (case broadcast_shutdown ord (recv_queues c) of
          (qs, rest) \<Rightarrow> (if rest = [] then Ready (Inr ()) else Pending, c\<lparr>send_queue := q, recv_queues := qs\<rparr>))))"

text \<open>\<open>PeerConn::recv\<close> hides the events.\<close>

definition peer_conn_recv :: "(p2p_error + protocol_event) \<Rightarrow> p2p_error + bytes" where
  "peer_conn_recv r = res_bind r (\<lambda>e. case e of EvMessage bs \<Rightarrow> Inr bs | EvShutdown \<Rightarrow> Inl PeerShutdown)"

section \<open>Reader and writer tasks\<close>

text \<open>The channel \<open>stop_reason_tx\<close> holds one reason; \<open>try_send\<close> to a full channel is ignored.\<close>

definition try_stop :: "p2p_error + unit \<Rightarrow> (p2p_error + unit) option \<Rightarrow> (p2p_error + unit) option" where
  "try_stop r reason = (case reason of None \<Rightarrow> Some r | Some x \<Rightarrow> Some x)"

text \<open>What the reader does with one received message: go on with updated queues, wait
  because the queue is full, or stop with a reason.\<close>

datatype 's reader_out = Go 's | Blocked | Stop p2p_error

definition demux_msg ::
  "protocol_msg bin_dec \<Rightarrow> net_error + peer_net_msg \<Rightarrow> recv_queues \<Rightarrow> recv_queues reader_out" where
  "demux_msg dec r qs = (case r of
      Inl e \<Rightarrow> Stop (P2pNet e)
    | Inr msg \<Rightarrow> (case command (header msg) of
        CmdProtocol \<Rightarrow> (case p2p_decode dec (payload msg) of
            Inl e \<Rightarrow> Stop e
          | Inr (proto_msg, _) \<Rightarrow> (case qs (pm_protocol_id proto_msg) of
              Some q \<Rightarrow> (case aq_push RECV_QUEUE_SIZE (EvMessage (pm_payload proto_msg)) q of
                  Some q' \<Rightarrow> Go (qs(pm_protocol_id proto_msg \<mapsto> q'))
                | None \<Rightarrow> Blocked)
            | None \<Rightarrow> Stop (UnsupportedProtocol (pm_protocol_id proto_msg))))
      | CmdShutdown \<Rightarrow> Stop PeerShutdown
      | cmd \<Rightarrow> Stop (P2pInvalidMsg (''Unexpected msg '' @ cmd_debug cmd))))"

text \<open>The reader loop on the messages that have arrived: queues, stop reason, and the
  messages not consumed yet.\<close>

fun demux_reader ::
  "protocol_msg bin_dec \<Rightarrow> (net_error + peer_net_msg) list \<Rightarrow> recv_queues \<Rightarrow> (p2p_error + unit) option
     \<Rightarrow> recv_queues \<times> (p2p_error + unit) option \<times> (net_error + peer_net_msg) list" where
  "demux_reader dec [] qs reason = (qs, reason, [])"
| "demux_reader dec (r # rs) qs reason = (case demux_msg dec r qs of
      Go qs' \<Rightarrow> demux_reader dec rs qs' reason
    | Blocked \<Rightarrow> (qs, reason, r # rs)
    | Stop e \<Rightarrow> (qs, try_stop (Inl e) reason, rs))"

text \<open>The writer task drains the queue in order until a send fails.\<close>

fun writer_task :: "(peer_net_msg \<Rightarrow> bool) \<Rightarrow> peer_net_msg list \<Rightarrow> peer_net_msg list \<times> bool" where
  "writer_task send_fails [] = ([], True)"
| "writer_task send_fails (m # q) = (if send_fails m then ([], False)
     else (case writer_task send_fails q of (sent, ok) \<Rightarrow> (m # sent, ok)))"

section \<open>QUIC streams\<close>

record mux_connection =
  send_queues :: "protocol_id \<rightharpoonup> peer_net_msg list"
  mux_recv_queues :: recv_queues
  quic_open :: bool

definition mux_send ::
  "protocol_msg bin_enc \<Rightarrow> protocol_id \<Rightarrow> bytes \<Rightarrow> mux_connection \<Rightarrow> (p2p_error + unit) poll \<times> mux_connection" where
  "mux_send enc proto_id p c =
     (case peer_net_msg_new enc CmdProtocol \<lparr>pm_protocol_id = proto_id, pm_payload = p\<rparr> of
        Inl e \<Rightarrow> (Ready (Inl e), c)
      | Inr net_msg \<Rightarrow> (case send_queues c proto_id of
          Some q \<Rightarrow> (case aq_push SEND_QUEUE_SIZE net_msg q of
              None \<Rightarrow> (Pending, c)
            | Some q' \<Rightarrow> (Ready (Inr ()), c\<lparr>send_queues := (send_queues c)(proto_id \<mapsto> q')\<rparr>))
        | None \<Rightarrow> (Ready (Inl (UnsupportedProtocol proto_id)), c)))"

definition mux_recv :: "protocol_id \<Rightarrow> mux_connection \<Rightarrow> (p2p_error + protocol_event) poll \<times> mux_connection" where
  "mux_recv proto_id c = (case wire_recv proto_id (mux_recv_queues c) of (r, qs) \<Rightarrow> (r, c\<lparr>mux_recv_queues := qs\<rparr>))"

definition mux_shutdown :: "protocol_id list \<Rightarrow> mux_connection \<Rightarrow> (p2p_error + unit) poll \<times> mux_connection" where
  "mux_shutdown ord c = (case broadcast_shutdown ord (mux_recv_queues c) of
     (qs, rest) \<Rightarrow> (if rest = [] then Ready (Inr ()) else Pending, c\<lparr>quic_open := False, mux_recv_queues := qs\<rparr>))"

text \<open>The reader of one QUIC stream.\<close>

definition quic_msg ::
  "protocol_msg bin_dec \<Rightarrow> net_error + peer_net_msg \<Rightarrow> protocol_event list \<Rightarrow> protocol_event list reader_out" where
  "quic_msg dec r q = (case r of
      Inl e \<Rightarrow> Stop (P2pNet e)
    | Inr msg \<Rightarrow> (case command (header msg) of
        CmdProtocol \<Rightarrow> (case p2p_decode dec (payload msg) of
            Inl e \<Rightarrow> Stop e
          | Inr (proto_msg, _) \<Rightarrow> (case aq_push RECV_QUEUE_SIZE (EvMessage (pm_payload proto_msg)) q of
                Some q' \<Rightarrow> Go q'
              | None \<Rightarrow> Blocked))
      | CmdShutdown \<Rightarrow> Stop PeerShutdown
      | cmd \<Rightarrow> Stop (P2pInvalidMsg (''Unexpected msg '' @ cmd_debug cmd))))"

text \<open>Opening the streams of an outgoing connection: the header of each stream is a
  \<open>u16\<close> length and the encoded \<open>StreamInit\<close>.  \<open>open_err\<close> is the error of opening or
  writing the stream of a protocol, if any.\<close>

definition stream_init_bytes ::
  "protocol_id bin_enc \<Rightarrow> u16 bin_enc \<Rightarrow> protocol_id \<Rightarrow> p2p_error + bytes" where
  "stream_init_bytes enc_init enc16 proto_id =
     res_bind (p2p_encode enc_init proto_id) (\<lambda>encoded.
       if length encoded \<ge> 2 ^ 16 then Inl (P2pInvalidMsg ''StreamInit too large'')
       else res_bind (p2p_encode enc16 (of_nat (length encoded))) (\<lambda>l. Inr (l @ encoded)))"

fun open_streams ::
  "protocol_id bin_enc \<Rightarrow> u16 bin_enc \<Rightarrow> (protocol_id \<Rightarrow> p2p_error option) \<Rightarrow> protocol_id list
     \<Rightarrow> p2p_error + (protocol_id \<times> bytes) list" where
  "open_streams enc_init enc16 open_err [] = Inr []"
| "open_streams enc_init enc16 open_err (i # ids) = (case open_err i of
      Some e \<Rightarrow> Inl e
    | None \<Rightarrow> res_bind (stream_init_bytes enc_init enc16 i) (\<lambda>b.
        res_bind (open_streams enc_init enc16 open_err ids) (\<lambda>l. Inr ((i, b) # l))))"

text \<open>Accepting the streams of an incoming connection: \<open>heads\<close> are the headers of the
  streams the peer opens, or the error of accepting one; running out of streams is
  waiting, which the setup timeout of the caller ends.\<close>

fun accept_streams ::
  "protocol_id bin_dec \<Rightarrow> protocol_id list \<Rightarrow> nat \<Rightarrow> (p2p_error + bytes) list \<Rightarrow> protocol_id list
     \<Rightarrow> (p2p_error + protocol_id list) poll" where
  "accept_streams dec_init negotiated 0 heads acc = Ready (Inr acc)"
| "accept_streams dec_init negotiated (Suc n) [] acc = Pending"
| "accept_streams dec_init negotiated (Suc n) (Inl e # heads) acc = Ready (Inl e)"
| "accept_streams dec_init negotiated (Suc n) (Inr h # heads) acc = (case p2p_decode dec_init h of
      Inl e \<Rightarrow> Ready (Inl e)
    | Inr (i, _) \<Rightarrow> (if i \<notin> set negotiated then Ready (Inl (UnsupportedProtocol i))
        else accept_streams dec_init negotiated n heads (acc @ [i])))"

definition setup_inbound ::
  "protocol_id bin_dec \<Rightarrow> protocol_id list \<Rightarrow> (p2p_error + bytes) list \<Rightarrow> (p2p_error + protocol_id list) poll" where
  "setup_inbound dec_init negotiated heads = accept_streams dec_init negotiated (length negotiated) heads []"

section \<open>Demultiplexing\<close>

text \<open>The payloads of one protocol among the messages received.\<close>

definition payloads_of :: "protocol_msg bin_dec \<Rightarrow> protocol_id \<Rightarrow> net_error + peer_net_msg \<Rightarrow> bytes list" where
  "payloads_of dec p r = (case r of
      Inr msg \<Rightarrow> (if command (header msg) = CmdProtocol then (case dec (payload msg) of
          Inr (m, _) \<Rightarrow> if pm_protocol_id m = p then [pm_payload m] else []
        | Inl _ \<Rightarrow> []) else [])
    | Inl _ \<Rightarrow> [])"

definition delivered :: "protocol_msg bin_dec \<Rightarrow> protocol_id \<Rightarrow> (net_error + peer_net_msg) list \<Rightarrow> protocol_event list" where
  "delivered dec p rs = map EvMessage (concat (map (payloads_of dec p) rs))"

lemma delivered_Cons: "delivered dec p (r # rs) = map EvMessage (payloads_of dec p r) @ delivered dec p rs"
  by (simp add: delivered_def)

lemma demux_msg_Go:
  assumes "demux_msg dec r qs = Go qs'"
  shows "dom qs' = dom qs \<and> (\<forall>p q. qs p = Some q \<longrightarrow> qs' p = Some (q @ map EvMessage (payloads_of dec p r)))
    \<and> ((\<forall>p q. qs p = Some q \<longrightarrow> length q \<le> RECV_QUEUE_SIZE) \<longrightarrow> (\<forall>p q. qs' p = Some q \<longrightarrow> length q \<le> RECV_QUEUE_SIZE))"
proof -
  obtain msg m n q0 where m: "r = Inr msg" "command (header msg) = CmdProtocol" "dec (payload msg) = Inr (m, n)"
      "qs (pm_protocol_id m) = Some q0" "length q0 < RECV_QUEUE_SIZE"
      "qs' = qs(pm_protocol_id m \<mapsto> q0 @ [EvMessage (pm_payload m)])"
    using assms by (auto simp: demux_msg_def p2p_decode_def map_err_def aq_push_Some
        split: sum.splits peer_net_cmd.splits option.splits prod.splits)
  then show ?thesis by (auto simp: payloads_of_def)
qed

lemma demux_msg_Stop:
  assumes "demux_msg dec r qs = Stop e" "qs p = Some q"
  shows "payloads_of dec p r = []"
  using assms by (auto simp: demux_msg_def payloads_of_def p2p_decode_def map_err_def
      split: sum.splits peer_net_cmd.splits option.splits prod.splits)

lemma demux_reader_spec:
  assumes "demux_reader dec rs qs reason = (qs', reason', rest)"
    and "\<forall>p q. qs p = Some q \<longrightarrow> length q \<le> RECV_QUEUE_SIZE"
  shows "\<exists>used. rs = used @ rest \<and> dom qs' = dom qs
    \<and> (\<forall>p q. qs p = Some q \<longrightarrow> qs' p = Some (q @ delivered dec p used))
    \<and> (\<forall>p q. qs' p = Some q \<longrightarrow> length q \<le> RECV_QUEUE_SIZE)"
  using assms
proof (induction rs arbitrary: qs)
  case Nil
  then show ?case by (auto simp: delivered_def)
next
  case (Cons r rs)
  show ?case
  proof (cases "demux_msg dec r qs")
    case (Go qs1)
    note g = demux_msg_Go [OF Go]
    have "demux_reader dec rs qs1 reason = (qs', reason', rest)" using Cons.prems Go by simp
    from Cons.IH [OF this] g Cons.prems(2) obtain used where u: "rs = used @ rest" "dom qs' = dom qs1"
        "\<forall>p q. qs1 p = Some q \<longrightarrow> qs' p = Some (q @ delivered dec p used)" "\<forall>p q. qs' p = Some q \<longrightarrow> length q \<le> RECV_QUEUE_SIZE"
      by blast
    show ?thesis
    proof (intro exI [of _ "r # used"] conjI allI impI)
      fix p q assume "qs p = Some q"
      with g have "qs1 p = Some (q @ map EvMessage (payloads_of dec p r))" by blast
      with u(3) show "qs' p = Some (q @ delivered dec p (r # used))" by (simp add: delivered_Cons)
    qed (use u g in auto)
  next
    case Blocked
    then show ?thesis using Cons.prems by (auto simp: delivered_def intro!: exI [of _ "[]"])
  next
    case (Stop e)
    have "delivered dec p [r] = []" if "qs p = Some q" for p q
      using demux_msg_Stop [OF Stop that] by (simp add: delivered_def)
    then show ?thesis using Cons.prems Stop by (auto intro!: exI [of _ "[r]"])
  qed
qed

section \<open>Shutdown\<close>

lemma broadcast_shutdown_done:
  "distinct ord \<Longrightarrow> snd (broadcast_shutdown ord qs) = [] \<longleftrightarrow> (\<forall>p \<in> set ord. \<forall>q. qs p = Some q \<longrightarrow> length q < RECV_QUEUE_SIZE)"
  by (induction ord qs rule: broadcast_shutdown.induct)
     (fastforce simp: aq_push_def split: option.splits if_splits)+

section \<open>End to end\<close>

text \<open>A sequence of sends on a connection, all of which complete.\<close>

fun send_seq :: "protocol_msg bin_enc \<Rightarrow> (protocol_id \<times> bytes) list \<Rightarrow> single_connection \<Rightarrow> single_connection option" where
  "send_seq enc [] c = Some c"
| "send_seq enc ((p, x) # ss) c = (case single_send enc p x c of
      (Ready (Inr _), c') \<Rightarrow> send_seq enc ss c' | _ \<Rightarrow> None)"

definition the_msg :: "protocol_msg bin_enc \<Rightarrow> protocol_id \<times> bytes \<Rightarrow> peer_net_msg" where
  "the_msg enc s = (case enc \<lparr>pm_protocol_id = fst s, pm_payload = snd s\<rparr> of
      Inr b \<Rightarrow> \<lparr>header = \<lparr>command = CmdProtocol\<rparr>, payload = b\<rparr> | Inl _ \<Rightarrow> \<lparr>header = \<lparr>command = CmdProtocol\<rparr>, payload = []\<rparr>)"

text \<open>The binary codecs carry this send.\<close>

definition send_law ::
  "protocol_msg bin_enc \<Rightarrow> protocol_msg bin_dec \<Rightarrow> peer_net_msg bin_enc \<Rightarrow> peer_net_msg bin_dec \<Rightarrow> protocol_id \<times> bytes \<Rightarrow> bool" where
  "send_law enc dec menc mdec s \<longleftrightarrow>
     (\<exists>b n. enc \<lparr>pm_protocol_id = fst s, pm_payload = snd s\<rparr> = Inr b
        \<and> dec b = Inr (\<lparr>pm_protocol_id = fst s, pm_payload = snd s\<rparr>, n))
     \<and> peer_msg_ok menc mdec (the_msg enc s)"

lemma send_seq_queue:
  assumes "\<forall>s \<in> set sends. send_law enc dec menc mdec s"
    and "length (send_queue c) + length sends \<le> SEND_QUEUE_SIZE"
  shows "send_seq enc sends c = Some (c\<lparr>send_queue := send_queue c @ map (the_msg enc) sends\<rparr>)"
  using assms
proof (induction sends arbitrary: c)
  case (Cons s sends)
  obtain p x where s: "s = (p, x)" by (cases s)
  have "single_send enc p x c = (Ready (Inr ()), c\<lparr>send_queue := send_queue c @ [the_msg enc s]\<rparr>)"
    using Cons.prems s by (auto simp: single_send_def peer_net_msg_new_def p2p_encode_def map_err_def send_law_def the_msg_def aq_push_def)
  then show ?case using Cons s by simp
qed simp

lemma payloads_the_msg:
  "send_law enc dec menc mdec s \<Longrightarrow> payloads_of dec p (Inr (the_msg enc s)) = (if fst s = p then [snd s] else [])"
  by (auto simp: send_law_def payloads_of_def the_msg_def)

lemma demux_all:
  assumes "\<forall>s \<in> set sends. send_law enc dec menc mdec s \<and> fst s \<in> dom qs"
    and "\<forall>p q. qs p = Some q \<longrightarrow> length q + length (filter (\<lambda>s. fst s = p) sends) \<le> RECV_QUEUE_SIZE"
  shows "\<exists>qs'. demux_reader dec (map (Inr \<circ> the_msg enc) sends) qs reason = (qs', reason, [])"
  using assms
proof (induction sends arbitrary: qs)
  case (Cons s sends)
  obtain q where q: "qs (fst s) = Some q" using Cons.prems(1) by auto
  then have "length q < RECV_QUEUE_SIZE" using Cons.prems(2) by fastforce
  then have g: "demux_msg dec (Inr (the_msg enc s)) qs = Go (qs(fst s \<mapsto> q @ [EvMessage (snd s)]))"
    using Cons.prems(1) q by (auto simp: demux_msg_def send_law_def the_msg_def p2p_decode_def map_err_def aq_push_def)
  have "\<exists>qs'. demux_reader dec (map (Inr \<circ> the_msg enc) sends) (qs(fst s \<mapsto> q @ [EvMessage (snd s)])) reason = (qs', reason, [])"
  proof (rule Cons.IH)
    show "\<forall>s' \<in> set sends. send_law enc dec menc mdec s' \<and> fst s' \<in> dom (qs(fst s \<mapsto> q @ [EvMessage (snd s)]))"
      using Cons.prems(1) by simp
    show "\<forall>p q'. (qs(fst s \<mapsto> q @ [EvMessage (snd s)])) p = Some q' \<longrightarrow>
        length q' + length (filter (\<lambda>s. fst s = p) sends) \<le> RECV_QUEUE_SIZE"
    proof (intro allI impI)
      fix p q' assume a: "(qs(fst s \<mapsto> q @ [EvMessage (snd s)])) p = Some q'"
      have "length r + length (filter (\<lambda>s. fst s = p) (s # sends)) \<le> RECV_QUEUE_SIZE" if "qs p = Some r" for r
        using Cons.prems(2) that by blast
      with a q show "length q' + length (filter (\<lambda>s. fst s = p) sends) \<le> RECV_QUEUE_SIZE"
        by (cases "fst s = p") auto
    qed
  qed
  then show ?case using g by (simp add: comp_def)
qed simp

lemma delivered_sends:
  "\<forall>s \<in> set sends. send_law enc dec menc mdec s \<Longrightarrow>
   delivered dec p (map (Inr \<circ> the_msg enc) sends) = map (EvMessage \<circ> snd) (filter (\<lambda>s. fst s = p) sends)"
  by (induction sends) (auto simp: delivered_def payloads_the_msg)

lemma build_recv_queues_Some: "build_recv_queues ids p = (if p \<in> set ids then Some [] else None)"
  by (induction ids) (auto simp: build_recv_queues_def)

lemma dom_build: "dom (build_recv_queues ids) = set ids"
  by (auto simp: build_recv_queues_Some split: if_splits)

fun got_msg :: "'m recv_out \<Rightarrow> net_error + 'm" where
  "got_msg (Got m) = Inr m"
| "got_msg (RecvErr e) = Inl e"
| "got_msg _ = Inl ConnectionClosed"

lemma demux_build:
  assumes "demux_reader dec rs (build_recv_queues negotiated) None = (qs, reason, rest)"
  shows "\<exists>used. rs = used @ rest \<and> dom qs = set negotiated
    \<and> (\<forall>p \<in> set negotiated. qs p = Some (delivered dec p used) \<and> length (delivered dec p used) \<le> RECV_QUEUE_SIZE)"
proof -
  have "\<forall>p q. build_recv_queues negotiated p = Some q \<longrightarrow> length q \<le> RECV_QUEUE_SIZE" by (auto simp: build_recv_queues_Some)
  from demux_reader_spec [OF assms this] obtain used where u: "rs = used @ rest" "dom qs = dom (build_recv_queues negotiated)"
      "\<forall>p q. build_recv_queues negotiated p = Some q \<longrightarrow> qs p = Some (q @ delivered dec p used)"
      "\<forall>p q. qs p = Some q \<longrightarrow> length q \<le> RECV_QUEUE_SIZE"
    by blast
  then have "\<forall>p \<in> set negotiated. qs p = Some (delivered dec p used)" by (simp add: build_recv_queues_Some)
  with u show ?thesis by (auto simp: dom_build)
qed

section \<open>A concrete codec\<close>

definition ex_enc :: "protocol_msg bin_enc" where
  "ex_enc m = Inr ((if pm_protocol_id m = ''a'' then 0 else 1) # pm_payload m)"

definition ex_dec :: "protocol_msg bin_dec" where
  "ex_dec b = (case b of [] \<Rightarrow> Inl ''end'' | x # r \<Rightarrow> Inr (\<lparr>pm_protocol_id = if x = 0 then ''a'' else ''b'', pm_payload = r\<rparr>, length b))"

definition ex_menc :: "peer_net_msg bin_enc" where
  "ex_menc m = Inr (payload m)"

definition ex_mdec :: "peer_net_msg bin_dec" where
  "ex_mdec b = Inr (\<lparr>header = \<lparr>command = CmdProtocol\<rparr>, payload = b\<rparr>, length b)"

lemma ex_send_law: "p \<in> {''a'', ''b''} \<Longrightarrow> length x \<le> 10 \<Longrightarrow> send_law ex_enc ex_dec ex_menc ex_mdec (p, x)"
  by (auto simp: send_law_def ex_enc_def ex_dec_def peer_msg_ok_def ex_menc_def ex_mdec_def the_msg_def MAX_BUFFER_SIZE_def)

section \<open>Properties\<close>



text \<open>The demultiplexer is exact on any input: of the messages it consumes, each receive queue gets exactly
  the payloads of its protocol, in order, appended to what it held; no queue ever exceeds its capacity,
  and no message of a protocol that was not negotiated reaches any queue.\<close>

lemma demux_exact:
  assumes "demux_reader dec rs (build_recv_queues negotiated) None = (qs, reason, rest)"
  shows "\<exists>used. rs = used @ rest \<and> dom qs = set negotiated
    \<and> (\<forall>p \<in> set negotiated. qs p = Some (delivered dec p used) \<and> length (delivered dec p used) \<le> RECV_QUEUE_SIZE)"
  by (rule demux_build [OF assms])

lemma demux_exact_witness:
  "\<exists>qs reason rest. demux_reader ex_dec [Inr (the_msg ex_enc (''a'', [1])), Inr (the_msg ex_enc (''b'', [2]))]
      (build_recv_queues [''a'']) None = (qs, reason, rest) \<and> dom qs = {''a''}"
proof -
  obtain qs reason rest where d: "demux_reader ex_dec [Inr (the_msg ex_enc (''a'', [1])), Inr (the_msg ex_enc (''b'', [2]))]
      (build_recv_queues [''a'']) None = (qs, reason, rest)" by (metis prod_cases3)
  from demux_exact [OF d] d show ?thesis by auto
qed

text \<open>Shutting a connection down completes only when there is room: with an encodable shutdown message,
  \<open>shutdown\<close> returns exactly when the send queue and every receive queue have a free place;
  one full receive queue that nobody reads keeps it waiting.\<close>

lemma shutdown_completes_iff:
  assumes "enc (ShutdownMsg 0) = Inr b" and "distinct ord" and "set ord = dom (recv_queues c)"
  shows "fst (single_shutdown enc ord c) = Ready (Inr ()) \<longleftrightarrow>
    length (send_queue c) < SEND_QUEUE_SIZE \<and> (\<forall>p q. recv_queues c p = Some q \<longrightarrow> length q < RECV_QUEUE_SIZE)"
  using broadcast_shutdown_done [OF assms(2), of "recv_queues c"] assms(1,3)
  by (auto simp: single_shutdown_def peer_net_msg_new_def p2p_encode_def map_err_def aq_push_def split: prod.splits if_splits)

lemma shutdown_completes_iff_witness:
  "fst (single_shutdown (\<lambda>_. Inr [0]) [''a''] \<lparr>send_queue = [], recv_queues = [''a'' \<mapsto> replicate 128 (EvMessage [])]\<rparr>) \<noteq> Ready (Inr ())"
  using shutdown_completes_iff [of "\<lambda>_. Inr [0]" "[0]" "[''a'']" "\<lparr>send_queue = [], recv_queues = [''a'' \<mapsto> replicate 128 (EvMessage [])]\<rparr>"]
  by (simp add: RECV_QUEUE_SIZE_def)

text \<open>Accepting the QUIC streams of an incoming connection: on success there are as many streams as negotiated
  protocols and all are for negotiated ones, so when no protocol is opened twice every negotiated
  protocol has its stream; but a peer that opens one protocol twice succeeds as well, and leaves
  another protocol without a stream.\<close>

lemma inbound_streams:
  "(setup_inbound dec_init negotiated heads = Ready (Inr streams) \<longrightarrow>
      length streams = length negotiated \<and> set streams \<subseteq> set negotiated
      \<and> (distinct streams \<and> distinct negotiated \<longrightarrow> set streams = set negotiated))
   \<and> (dec_init h = Inr (p, n) \<and> p \<noteq> p' \<longrightarrow> setup_inbound dec_init [p, p'] [Inr h, Inr h] = Ready (Inr [p, p]))"
proof -
  have "accept_streams dec_init negotiated n heads acc = Ready (Inr streams) \<Longrightarrow>
     \<exists>new. streams = acc @ new \<and> length new = n \<and> set new \<subseteq> set negotiated" for n heads acc
  proof (induction dec_init negotiated n heads acc rule: accept_streams.induct)
    case (4 dec_init negotiated n h heads acc)
    obtain i k where i: "p2p_decode dec_init h = Inr (i, k)" "i \<in> set negotiated"
        "accept_streams dec_init negotiated n heads (acc @ [i]) = Ready (Inr streams)"
      using "4.prems" by (auto split: sum.splits if_splits)
    from "4.IH" [OF i(1)] i obtain new where "streams = (acc @ [i]) @ new" "length new = n" "set new \<subseteq> set negotiated" by auto
    then show ?case using i(2) by (intro exI [of _ "i # new"]) simp
  qed auto
  from this [of "length negotiated" heads "[]"]
  have s: "setup_inbound dec_init negotiated heads = Ready (Inr streams) \<Longrightarrow>
      length streams = length negotiated \<and> set streams \<subseteq> set negotiated"
    by (auto simp: setup_inbound_def)
  have "set streams = set negotiated"
    if "length streams = length negotiated" "set streams \<subseteq> set negotiated" "distinct streams" "distinct negotiated"
    using that by (intro card_subset_eq) (auto simp: distinct_card)
  with s show ?thesis by (auto simp: setup_inbound_def p2p_decode_def map_err_def numeral_2_eq_2)
qed

lemma inbound_streams_witness:
  "setup_inbound (\<lambda>b. Inr (''chat'', 4)) [''chat'', ''files''] [Inr [0], Inr [0]] = Ready (Inr [''chat'', ''chat''])"
  using inbound_streams [of "\<lambda>b. Inr (''chat'', 4)" _ _ _ "[0]" "''chat''" 4 "''files''"] by simp

end
