(* ===== verification/P2p_Ping.thy ===== *)
theory P2p_Ping
  imports P2p_Conn
begin

text \<open>
  The ping protocol (\<open>p2p/src/protocols/ping.rs\<close>): the loop that answers pings and drops replayed
  ones, the loop that sends pings and counts failures, and how the two end the protocol.
  The random nonces and the binary codec are arguments.
\<close>

section \<open>Receiving\<close>

definition MAX_FAILURES :: nat where "MAX_FAILURES = 3"
definition PING_DEDUP_WINDOW :: nat where "PING_DEDUP_WINDOW = 64"
definition PING_PROTO_ID :: protocol_id where "PING_PROTO_ID = ''PING''"

type_synonym nonce = bytes

datatype ping_msg = Ping nonce | Pong nonce

text \<open>The window of nonces seen: replays are dropped, and the oldest nonce makes room.\<close>

definition ping_seen :: "nonce \<Rightarrow> nonce list \<Rightarrow> nonce list option" where
  "ping_seen n seen = (if n \<in> set seen then None
     else Some ((if length seen = PING_DEDUP_WINDOW then tl seen else seen) @ [n]))"

text \<open>\<open>recv_loop\<close> on the payloads received: how it ends (\<^term>\<open>Pending\<close> while it waits
  for more), the pongs sent and the pongs passed to the ping loop.  \<open>sends\<close> gives the
  result of sending the pong for a nonce.\<close>

fun ping_recv_loop ::
  "ping_msg bin_dec \<Rightarrow> (nonce \<Rightarrow> p2p_error + unit) \<Rightarrow> nonce list \<Rightarrow> (p2p_error + bytes) list
     \<Rightarrow> (p2p_error + unit) poll \<times> nonce list \<times> nonce list" where
  "ping_recv_loop dec sends seen [] = (Pending, [], [])"
| "ping_recv_loop dec sends seen (Inl e # rs) = (Ready (if e = PeerShutdown then Inr () else Inl e), [], [])"
| "ping_recv_loop dec sends seen (Inr b # rs) = (case p2p_decode dec b of
      Inl e \<Rightarrow> (Ready (Inl e), [], [])
    | Inr (Ping n, _) \<Rightarrow> (case ping_seen n seen of
        None \<Rightarrow> ping_recv_loop dec sends seen rs
      | Some seen' \<Rightarrow> (case sends n of
          Inl e \<Rightarrow> (Ready (Inl e), [], [])
        | Inr _ \<Rightarrow> (case ping_recv_loop dec sends seen' rs of (r, out, pongs) \<Rightarrow> (r, n # out, pongs))))
    | Inr (Pong n, _) \<Rightarrow> (case ping_recv_loop dec sends seen rs of (r, out, pongs) \<Rightarrow> (r, out, n # pongs)))"

section \<open>Sending\<close>

text \<open>One round of \<open>ping_loop\<close>: what the random generator, the encoder and the send give, and the pongs that arrive, from the
  start of the sleep to the end of the wait.  The channel hands pongs over in
  the order of arrival; its head is what the round reads.\<close>

record ping_round =
  pr_nonce :: "p2p_error + nonce"
  pr_send :: "p2p_error + unit"
  pr_pongs :: "nonce list"

fun ping_loop :: "ping_round list \<Rightarrow> nat \<Rightarrow> nonce list \<Rightarrow> (p2p_error + unit) poll" where
  "ping_loop rounds retry chan =
     (if \<not> retry < MAX_FAILURES then Ready (Inl P2pTimeout)
      else (case rounds of
        [] \<Rightarrow> Pending
      | r # rs \<Rightarrow> (case pr_nonce r of
          Inl e \<Rightarrow> Ready (Inl e)
        | Inr n \<Rightarrow> (case pr_send r of
            Inl e \<Rightarrow> Ready (Inl e)
          | Inr _ \<Rightarrow> (case chan @ pr_pongs r of
              [] \<Rightarrow> ping_loop rs (retry + 1) []
            | p # chan' \<Rightarrow> if p \<noteq> n then ping_loop rs (retry + 1) chan' else ping_loop rs 0 chan')))))"

declare ping_loop.simps [simp del]

text \<open>The protocol ends with the first of the two loops that ends; both at once prefer the receive loop.\<close>

definition ping_start :: "(p2p_error + unit) poll \<Rightarrow> (p2p_error + unit) poll \<Rightarrow> (p2p_error + unit) poll" where
  "ping_start recv stop_rx = (case select recv stop_rx of
      Ready (Left res) \<Rightarrow> Ready res
    | Ready (Right res) \<Rightarrow> Ready res
    | Pending \<Rightarrow> Pending)"

section \<open>Lemmas\<close>

lemma ping_seen_inv:
  assumes "ping_seen n seen = Some seen'" "distinct seen" "length seen \<le> PING_DEDUP_WINDOW"
  shows "distinct seen' \<and> length seen' \<le> PING_DEDUP_WINDOW \<and> set seen' \<subseteq> insert n (set seen) \<and> n \<in> set seen'"
  using assms by (cases seen) (auto simp: ping_seen_def PING_DEDUP_WINDOW_def split: if_splits)

text \<open>A nonce stays in the window while fewer than \<open>PING_DEDUP_WINDOW\<close> others are answered.\<close>

lemma ping_seen_keeps:
  assumes "ping_seen n (xs @ m # ys) = Some seen'" "length (xs @ m # ys) \<le> PING_DEDUP_WINDOW" "length ys + 1 < PING_DEDUP_WINDOW"
  shows "\<exists>xs'. seen' = xs' @ m # ys @ [n]"
  using assms by (cases xs) (auto simp: ping_seen_def split: if_splits)

lemma ping_no_early_repeat:
  assumes "ping_recv_loop dec sends (xs @ m # ys) rs = (r, out, pongs)"
    and "distinct (xs @ m # ys)" "length (xs @ m # ys) \<le> PING_DEDUP_WINDOW" "length ys < PING_DEDUP_WINDOW"
  shows "m \<notin> set (take (PING_DEDUP_WINDOW - 1 - length ys) out)"
  using assms
proof (induction rs arbitrary: xs ys r out pongs)
  case (Cons x rs)
  note step = Cons.prems(1)
  show ?case
  proof (cases "\<exists>b n k seen' u. x = Inr b \<and> p2p_decode dec b = Inr (Ping n, k) \<and> ping_seen n (xs @ m # ys) = Some seen' \<and> sends n = Inr u")
    case False
    then consider "out = []" | r' out' pongs' where "out = out'" "ping_recv_loop dec sends (xs @ m # ys) rs = (r', out', pongs')"
      using step by (cases x) (auto split: sum.splits prod.splits ping_msg.splits option.splits)
    then show ?thesis using Cons.IH [OF _ Cons.prems(2-4)] by cases auto
  next
    case True
    then obtain b n k seen' u where x: "x = Inr b" "p2p_decode dec b = Inr (Ping n, k)" and s: "ping_seen n (xs @ m # ys) = Some seen'"
        and u: "sends n = Inr u" by blast
    have nm: "n \<noteq> m" using s by (auto simp: ping_seen_def split: if_splits)
    obtain r' out' pongs' where rec: "ping_recv_loop dec sends seen' rs = (r', out', pongs')" by (metis prod_cases3)
    then have o: "out = n # out'" using step x s u by simp
    show ?thesis
    proof (cases "length ys + 1 < PING_DEDUP_WINDOW")
      case True
      obtain xs' where xs': "seen' = xs' @ m # ys @ [n]" using ping_seen_keeps [OF s Cons.prems(3) True] by auto
      have inv: "distinct seen'" "length seen' \<le> PING_DEDUP_WINDOW" using ping_seen_inv [OF s Cons.prems(2,3)] by auto
      have "m \<notin> set (take (PING_DEDUP_WINDOW - 1 - length (ys @ [n])) out')"
        by (rule Cons.IH [of xs' "ys @ [n]" r' out' pongs']) (use rec xs' inv True in auto)
      moreover have "PING_DEDUP_WINDOW - 1 - length ys = Suc (PING_DEDUP_WINDOW - 1 - length (ys @ [n]))" using True by simp
      ultimately show ?thesis using o nm by simp
    next
      case False
      then show ?thesis using Cons.prems(4) by auto
    qed
  qed
qed simp

lemma ping_no_repeat:
  assumes "ping_recv_loop dec sends seen rs = (r, out, pongs)" "distinct seen" "length seen \<le> PING_DEDUP_WINDOW"
    and "i < j" "j < length out" "j - i < PING_DEDUP_WINDOW"
  shows "out ! i \<noteq> out ! j"
  using assms
proof (induction rs arbitrary: seen r out pongs i j)
  case (Cons x rs)
  note step = Cons.prems(1)
  show ?case
  proof (cases "\<exists>b n k seen' u. x = Inr b \<and> p2p_decode dec b = Inr (Ping n, k) \<and> ping_seen n seen = Some seen' \<and> sends n = Inr u")
    case False
    then consider "out = []" | r' pongs' where "ping_recv_loop dec sends seen rs = (r', out, pongs')"
      using step by (cases x) (auto split: sum.splits prod.splits ping_msg.splits option.splits)
    then show ?thesis using Cons.IH [OF _ Cons.prems(2-6)] Cons.prems(5) by cases auto
  next
    case True
    then obtain b n k seen' u where x: "x = Inr b" "p2p_decode dec b = Inr (Ping n, k)" and s: "ping_seen n seen = Some seen'"
        and u: "sends n = Inr u" by blast
    obtain r' out' pongs' where rec: "ping_recv_loop dec sends seen' rs = (r', out', pongs')" by (metis prod_cases3)
    then have o: "out = n # out'" using step x s u by simp
    have inv: "distinct seen'" "length seen' \<le> PING_DEDUP_WINDOW" using ping_seen_inv [OF s Cons.prems(2,3)] by auto
    obtain xs where xs: "seen' = xs @ n # []" using s by (auto simp: ping_seen_def split: if_splits)
    have first: "n \<notin> set (take (PING_DEDUP_WINDOW - 1 - length ([] :: nonce list)) out')"
      by (rule ping_no_early_repeat [of dec sends xs n "[]" rs r' out' pongs']) (use rec xs inv in \<open>auto simp: PING_DEDUP_WINDOW_def\<close>)
    show ?thesis
    proof (cases i)
      case 0
      then have "out ! j \<in> set (take (PING_DEDUP_WINDOW - 1) out')"
        using Cons.prems(4-6) o by (cases j) (auto simp: in_set_conv_nth intro!: exI [of _ "j - 1"])
      then show ?thesis using 0 first o by auto
    next
      case (Suc i')
      then show ?thesis using Cons.IH [OF rec inv, of i' "j - 1"] Cons.prems(4-6) o by (cases j) auto
    qed
  qed
qed simp

section \<open>Failure counting\<close>

text \<open>A round in which the peer answers in time: the pong of the round is the only one in the channel.\<close>

definition answered :: "ping_round \<Rightarrow> bool" where
  "answered r \<longleftrightarrow> (\<exists>n. pr_nonce r = Inr n \<and> pr_send r = Inr () \<and> pr_pongs r = [n])"

definition silent :: "ping_round \<Rightarrow> bool" where
  "silent r \<longleftrightarrow> (\<exists>n. pr_nonce r = Inr n \<and> pr_send r = Inr () \<and> pr_pongs r = [])"

text \<open>Whether some run of three rounds without an answer occurs, counting from \<open>k\<close> failures.\<close>

fun three_silent :: "nat \<Rightarrow> ping_round list \<Rightarrow> bool" where
  "three_silent k [] = (k \<ge> MAX_FAILURES)"
| "three_silent k (r # rs) = (k \<ge> MAX_FAILURES \<or> three_silent (if answered r then 0 else k + 1) rs)"

lemma ping_loop_counts:
  "\<forall>r \<in> set rs. answered r \<or> silent r \<Longrightarrow>
   ping_loop rs k [] = (if three_silent k rs then Ready (Inl P2pTimeout) else Pending)"
proof (induction rs arbitrary: k)
  case Nil
  then show ?case by (simp add: ping_loop.simps [of "[]"])
next
  case (Cons r rs)
  then consider n where "pr_nonce r = Inr n" "pr_send r = Inr ()" "pr_pongs r = [n]" "answered r"
    | n where "pr_nonce r = Inr n" "pr_send r = Inr ()" "pr_pongs r = []" "\<not> answered r"
    by (auto simp: answered_def silent_def)
  then show ?case using Cons by cases (auto simp: ping_loop.simps [of "r # rs"])
qed

section \<open>Properties\<close>

text \<open>C37. Replayed pings are not answered: whatever a peer sends, two pongs that are fewer than
  \<open>PING_DEDUP_WINDOW\<close> answered pings apart carry different nonces.\<close>

theorem ping_no_replay:
  assumes "ping_recv_loop dec sends [] rs = (r, out, pongs)"
    and "i < j" "j < length out" "j - i < PING_DEDUP_WINDOW"
  shows "out ! i \<noteq> out ! j"
  using ping_no_repeat [OF assms(1) _ _ assms(2-4)] by simp

definition ex_ping_dec :: "ping_msg bin_dec" where
  "ex_ping_dec b = Inr (Ping b, length b)"

theorem ping_no_replay_witness:
  "ping_recv_loop ex_ping_dec (\<lambda>_. Inr ()) [] [Inr [1], Inr [1], Inr [2], Inr [1]] = (Pending, [[1], [2]], [])
   \<and> [[1], [2 :: u8]] ! 0 \<noteq> [[1], [2]] ! 1"
proof -
  have e: "ping_recv_loop ex_ping_dec (\<lambda>_. Inr ()) [] [Inr [1], Inr [1], Inr [2], Inr [1]] = (Pending, [[1], [2]], [])"
    by (simp add: ex_ping_dec_def p2p_decode_def map_err_def ping_seen_def PING_DEDUP_WINDOW_def)
  from ping_no_replay [OF this, of 0 1] e show ?thesis by (simp add: PING_DEDUP_WINDOW_def)
qed

text \<open>The ping loop gives up exactly after three rounds in a row without an answer: as long as every
  answered round is answered before the next round starts, the protocol ends with a timeout if
  and only if three consecutive rounds stay silent, and goes on otherwise.\<close>

lemma ping_gives_up:
  assumes "\<forall>r \<in> set rounds. answered r \<or> silent r"
  shows "ping_loop rounds 0 [] = (if three_silent 0 rounds then Ready (Inl P2pTimeout) else Pending)"
  by (rule ping_loop_counts [OF assms])

definition ex_round :: "nat \<Rightarrow> nat list \<Rightarrow> ping_round" where
  "ex_round n ps = \<lparr>pr_nonce = Inr [of_nat n], pr_send = Inr (), pr_pongs = map (\<lambda>p. [of_nat p]) ps\<rparr>"

lemma ping_gives_up_witness:
  "ping_loop [ex_round 1 [], ex_round 2 [], ex_round 3 [3], ex_round 4 []] 0 [] = Pending
   \<and> ping_loop [ex_round 1 [1], ex_round 2 [], ex_round 3 [], ex_round 4 []] 0 [] = Ready (Inl P2pTimeout)"
  using ping_gives_up [of "[ex_round 1 [], ex_round 2 [], ex_round 3 [3], ex_round 4 []]"]
    ping_gives_up [of "[ex_round 1 [1], ex_round 2 [], ex_round 3 [], ex_round 4 []]"]
  by (simp add: answered_def silent_def ex_round_def MAX_FAILURES_def)

text \<open>One late pong ends the connection to a peer that answers every ping: when the pong of a
  round arrives after its timeout, it stays in the channel and is read in the next round in place
  of the pong of that round, which stays in turn; so three rounds later the loop ends with a
  timeout although the peer answered each of them.\<close>

lemma ping_late_pong:
  assumes "n1 \<noteq> n2" "n2 \<noteq> n3"
    and "r1 = \<lparr>pr_nonce = Inr n1, pr_send = Inr (), pr_pongs = []\<rparr>"
    and "r2 = \<lparr>pr_nonce = Inr n2, pr_send = Inr (), pr_pongs = [n1, n2]\<rparr>"
    and "r3 = \<lparr>pr_nonce = Inr n3, pr_send = Inr (), pr_pongs = [n3]\<rparr>"
  shows "ping_loop [r1, r2, r3] 0 [] = Ready (Inl P2pTimeout)"
  using assms by (simp add: ping_loop.simps MAX_FAILURES_def)

lemma ping_late_pong_witness:
  "ping_loop [\<lparr>pr_nonce = Inr [1], pr_send = Inr (), pr_pongs = []\<rparr>,
     \<lparr>pr_nonce = Inr [2], pr_send = Inr (), pr_pongs = [[1], [2]]\<rparr>,
     \<lparr>pr_nonce = Inr [3], pr_send = Inr (), pr_pongs = [[3]]\<rparr>] 0 [] = Ready (Inl P2pTimeout)"
  using ping_late_pong [of "[1]" "[2]" "[3]"] by simp

end
