(* ===== verification/P2p_Monitor.thy ===== *)
theory P2p_Monitor
  imports P2p_Handshake
begin

text \<open>
  The node configuration (\<open>p2p/src/config.rs\<close>) and the monitor events
  (\<open>p2p/src/monitor/event.rs\<close>, \<open>p2p/src/monitor/mod.rs\<close>).  Time stamps are an argument.
\<close>

section \<open>Configuration\<close>

record p2p_config =
  cfg_version :: version
  enable_monitor :: bool
  cfg_access_control :: access_control
  handshake_timeout :: u64
  ping_interval :: u64
  ping_timeout :: u64
  max_connect_retries :: nat
  bootstrap_peers :: "endpoint list"
  listen_endpoints :: "endpoint list"
  discovery_endpoints :: "endpoint list"
  dial_peers :: "endpoint list"
  public_ip :: "ip_addr option"
  inbound_slots :: nat
  outbound_slots :: nat
  seeding_interval :: u64
  lookup_inbound_slots :: nat
  lookup_outbound_slots :: nat
  lookup_response_timeout :: u64
  lookup_connection_lifespan :: u64
  lookup_connect_retries :: nat
  refresh_interval :: u64
  refresh_response_timeout :: u64
  refresh_connect_retries :: nat

text \<open>The default panics when its own version text does not parse, which is \<^term>\<open>None\<close>.\<close>

definition config_default :: "semver_api \<Rightarrow> p2p_config option" where
  "config_default S = (case version_from_str S ''0.2.0'' of
      Inl _ \<Rightarrow> None
    | Inr v \<Rightarrow> Some \<lparr>cfg_version = v, enable_monitor = False, cfg_access_control = allow_all,
        handshake_timeout = 4, ping_interval = 20, ping_timeout = 2, max_connect_retries = 3,
        bootstrap_peers = [], listen_endpoints = [], discovery_endpoints = [], dial_peers = [], public_ip = None,
        inbound_slots = 12, outbound_slots = 12, seeding_interval = 60,
        lookup_inbound_slots = 20, lookup_outbound_slots = 20, lookup_response_timeout = 1,
        lookup_connection_lifespan = 3, lookup_connect_retries = 3,
        refresh_interval = 1800, refresh_response_timeout = 1, refresh_connect_retries = 3\<rparr>)"

section \<open>Events\<close>

datatype connection_kind =
    Connected endpoint
  | ConnectRetried endpoint
  | ConnectFailed endpoint
  | Accepted endpoint
  | AcceptFailed
  | Disconnected endpoint
  | Listening endpoint
  | ListenFailed endpoint

datatype pool_event =
    NewPeer peer_id
  | RemovePeer peer_id
  | PoolHandshakeFailed "peer_id option"
  | PoolConnectFailed "peer_id option" endpoint
  | PoolPeerAlreadyConnected peer_id

datatype discovery_kind =
    LookupStarted endpoint
  | LookupFailed endpoint
  | LookupSucceeded endpoint nat
  | RefreshStarted
  | RefreshSucceeded nat
  | RefreshFailed
  | EntryEvicted peer_id

fun connection_endpoint :: "connection_kind \<Rightarrow> endpoint option" where
  "connection_endpoint (Connected e) = Some e"
| "connection_endpoint (ConnectRetried e) = Some e"
| "connection_endpoint (ConnectFailed e) = Some e"
| "connection_endpoint (Accepted e) = Some e"
| "connection_endpoint (Disconnected e) = Some e"
| "connection_endpoint (Listening e) = Some e"
| "connection_endpoint (ListenFailed e) = Some e"
| "connection_endpoint AcceptFailed = None"

fun connection_name :: "connection_kind \<Rightarrow> string" where
  "connection_name (Connected _) = ''Connected''"
| "connection_name (ConnectRetried _) = ''ConnectRetried''"
| "connection_name (ConnectFailed _) = ''ConnectFailed''"
| "connection_name (Accepted _) = ''Accepted''"
| "connection_name AcceptFailed = ''AcceptFailed''"
| "connection_name (Disconnected _) = ''Disconnected''"
| "connection_name (Listening _) = ''Listening''"
| "connection_name (ListenFailed _) = ''ListenFailed''"

fun pool_peer_id :: "pool_event \<Rightarrow> peer_id option" where
  "pool_peer_id (NewPeer p) = Some p"
| "pool_peer_id (RemovePeer p) = Some p"
| "pool_peer_id (PoolPeerAlreadyConnected p) = Some p"
| "pool_peer_id (PoolHandshakeFailed p) = p"
| "pool_peer_id (PoolConnectFailed p _) = p"

fun pool_endpoint :: "pool_event \<Rightarrow> endpoint option" where
  "pool_endpoint (PoolConnectFailed _ e) = Some e"
| "pool_endpoint _ = None"

fun pool_name :: "pool_event \<Rightarrow> string" where
  "pool_name (NewPeer _) = ''NewPeer''"
| "pool_name (RemovePeer _) = ''RemovePeer''"
| "pool_name (PoolHandshakeFailed _) = ''HandshakeFailed''"
| "pool_name (PoolConnectFailed _ _) = ''ConnectFailed''"
| "pool_name (PoolPeerAlreadyConnected _) = ''PeerAlreadyConnected''"

fun discovery_endpoint :: "discovery_kind \<Rightarrow> endpoint option" where
  "discovery_endpoint (LookupStarted e) = Some e"
| "discovery_endpoint (LookupFailed e) = Some e"
| "discovery_endpoint (LookupSucceeded e _) = Some e"
| "discovery_endpoint _ = None"

fun discovery_size :: "discovery_kind \<Rightarrow> nat option" where
  "discovery_size (LookupSucceeded _ n) = Some n"
| "discovery_size (RefreshSucceeded n) = Some n"
| "discovery_size _ = None"

fun discovery_peer_id :: "discovery_kind \<Rightarrow> peer_id option" where
  "discovery_peer_id (EntryEvicted p) = Some p"
| "discovery_peer_id _ = None"

fun discovery_name :: "discovery_kind \<Rightarrow> string" where
  "discovery_name (LookupStarted _) = ''LookupStarted''"
| "discovery_name (LookupFailed _) = ''LookupFailed''"
| "discovery_name (LookupSucceeded _ _) = ''LookupSucceeded''"
| "discovery_name RefreshStarted = ''RefreshStarted''"
| "discovery_name (RefreshSucceeded _) = ''RefreshSucceeded''"
| "discovery_name RefreshFailed = ''RefreshFailed''"
| "discovery_name (EntryEvicted _) = ''EntryEvicted''"

datatype monitor_topic = TopicConnection | TopicPeerPool | TopicDiscovery

record connection_event =
  ce_event :: string
  ce_date :: int
  ce_endpoint :: "endpoint option"

record peer_pool_event =
  pe_event :: string
  pe_date :: int
  pe_peer_id :: "peer_id option"
  pe_endpoint :: "endpoint option"

record discovery_event =
  de_event :: string
  de_date :: int
  de_endpoint :: "endpoint option"
  de_size :: "nat option"
  de_peer_id :: "peer_id option"

definition to_connection_event :: "int \<Rightarrow> connection_kind \<Rightarrow> connection_event" where
  "to_connection_event now e = \<lparr>ce_event = connection_name e, ce_date = now, ce_endpoint = connection_endpoint e\<rparr>"

definition to_pool_event :: "int \<Rightarrow> pool_event \<Rightarrow> peer_pool_event" where
  "to_pool_event now e = \<lparr>pe_event = pool_name e, pe_date = now, pe_peer_id = pool_peer_id e, pe_endpoint = pool_endpoint e\<rparr>"

definition to_discovery_event :: "int \<Rightarrow> discovery_kind \<Rightarrow> discovery_event" where
  "to_discovery_event now e = \<lparr>de_event = discovery_name e, de_date = now, de_endpoint = discovery_endpoint e,
     de_size = discovery_size e, de_peer_id = discovery_peer_id e\<rparr>"

text \<open>\<open>notify\<close>: what is emitted for an event of a topic.\<close>

definition monitor_notify :: "p2p_config \<Rightarrow> (monitor_topic \<Rightarrow> bool) \<Rightarrow> monitor_topic \<Rightarrow> ('k \<Rightarrow> 'e) \<Rightarrow> 'k \<Rightarrow> 'e list" where
  "monitor_notify cfg has_listeners topic to_event event =
     (if \<not> enable_monitor cfg then [] else if \<not> has_listeners topic then [] else [to_event event])"

section \<open>Lemmas\<close>

text \<open>A monitor record determines the event it was made from.\<close>

lemma connection_event_inj: "to_connection_event t e = to_connection_event t' e' \<Longrightarrow> e = e'"
  by (cases e; cases e') (auto simp: to_connection_event_def)

lemma discovery_event_inj: "to_discovery_event t e = to_discovery_event t' e' \<Longrightarrow> e = e'"
  by (cases e; cases e') (auto simp: to_discovery_event_def)

lemma pool_event_inj: "to_pool_event t e = to_pool_event t' e' \<Longrightarrow> e = e'"
  by (cases e; cases e') (auto simp: to_pool_event_def)

end
