(* ===== verification/P2p_Pool.thy ===== *)
theory P2p_Pool
  imports P2p_Conn P2p_Monitor "HOL-Library.AList" "HOL-Library.Multiset"
begin

text \<open>
  The peer pool (\<open>p2p/src/peer_pool.rs\<close>) with the connection queue
  (\<open>p2p/src/conn_queue.rs\<close>) and the peers it runs (\<open>p2p/src/peer/mod.rs\<close>).  The operations are functions on the state of
  the pool; \<open>pool_step\<close> interleaves the tasks that use it.  Connections are named by numbers,
  which stand for their \<open>conn_closed\<close> channels and, once a peer runs, for the
  shared \<open>Peer\<close> object.  A hash map is the list of its entries in iteration order.
\<close>

section \<open>Wires and peers\<close>

datatype wire = WSingle single_connection | WMux mux_connection

text \<open>The binary codecs the pool depends on.\<close>

record pool_api =
  hs :: hs_api
  proto_enc :: "protocol_msg bin_enc"
  proto_dec :: "protocol_msg bin_dec"
  shut_enc :: "shutdown_msg bin_enc"
  init_enc :: "protocol_id bin_enc"
  init_dec :: "protocol_id bin_dec"
  enc16 :: "u16 bin_enc"

text \<open>What the transport does while a connection is handled: write errors and messages
  of the handshake, the stream headers of the peer, errors of opening a
  stream, and whether the setup timer has expired.\<close>

record conn_io =
  io_werr :: "peer_net_cmd \<Rightarrow> net_error option"
  io_msgs :: "hs_ev list"
  io_heads :: "(p2p_error + bytes) list"
  io_open_err :: "protocol_id \<Rightarrow> p2p_error option"
  io_expired :: bool

record queued_conn =
  qc_token :: nat
  qc_direction :: conn_direction
  qc_remote_endpoint :: endpoint
  qc_verified :: "peer_id option"
  qc_quic :: bool

definition setup_quic_streams ::
  "pool_api \<Rightarrow> conn_io \<Rightarrow> conn_direction \<Rightarrow> protocol_id list \<Rightarrow> (p2p_error + protocol_id list) poll" where
  "setup_quic_streams A io dir negotiated = (case dir of
      Outbound \<Rightarrow> Ready (res_bind (open_streams (init_enc A) (enc16 A) (io_open_err io) negotiated) (\<lambda>l. Inr (map fst l)))
    | Inbound \<Rightarrow> setup_inbound (init_dec A) negotiated (io_heads io))"

definition mux_from_queued ::
  "pool_api \<Rightarrow> conn_io \<Rightarrow> conn_direction \<Rightarrow> protocol_id list \<Rightarrow> (p2p_error + mux_connection) poll" where
  "mux_from_queued A io dir negotiated = (case setup_quic_streams A io dir negotiated of
      Pending \<Rightarrow> Pending
    | Ready (Inl e) \<Rightarrow> Ready (Inl e)
    | Ready (Inr streams) \<Rightarrow> Ready (Inr \<lparr>send_queues = map_of (map (\<lambda>p. (p, [])) streams),
        mux_recv_queues = build_recv_queues negotiated, quic_open = True\<rparr>))"

definition from_queued :: "pool_api \<Rightarrow> conn_io \<Rightarrow> queued_conn \<Rightarrow> protocol_id list \<Rightarrow> (p2p_error + wire) poll" where
  "from_queued A io q negotiated =
     (if qc_quic q then (case mux_from_queued A io (qc_direction q) negotiated of
          Pending \<Rightarrow> Pending
        | Ready r \<Rightarrow> Ready (res_bind r (\<lambda>c. Inr (WMux c))))
      else Ready (Inr (WSingle (single_from_queued negotiated))))"

definition wire_send :: "pool_api \<Rightarrow> protocol_id \<Rightarrow> bytes \<Rightarrow> wire \<Rightarrow> (p2p_error + unit) poll \<times> wire" where
  "wire_send A p bs w = (case w of
      WSingle c \<Rightarrow> (case single_send (proto_enc A) p bs c of (r, c') \<Rightarrow> (r, WSingle c'))
    | WMux c \<Rightarrow> (case mux_send (proto_enc A) p bs c of (r, c') \<Rightarrow> (r, WMux c')))"

definition wire_queues :: "wire \<Rightarrow> recv_queues" where
  "wire_queues w = (case w of WSingle c \<Rightarrow> recv_queues c | WMux c \<Rightarrow> mux_recv_queues c)"

definition set_wire_queues :: "recv_queues \<Rightarrow> wire \<Rightarrow> wire" where
  "set_wire_queues qs w = (case w of WSingle c \<Rightarrow> WSingle (c\<lparr>recv_queues := qs\<rparr>) | WMux c \<Rightarrow> WMux (c\<lparr>mux_recv_queues := qs\<rparr>))"

text \<open>The first part of \<open>Wire::shutdown\<close>: telling the other side.  The outer option is waiting for room
  in the send queue; the inner one is the encoding error that ends the call.\<close>

definition shutdown_signal :: "pool_api \<Rightarrow> wire \<Rightarrow> wire option poll" where
  "shutdown_signal A w = (case w of
      WSingle c \<Rightarrow> (case peer_net_msg_new (shut_enc A) CmdShutdown (ShutdownMsg 0) of
          Inl _ \<Rightarrow> Ready None
        | Inr m \<Rightarrow> (case aq_push SEND_QUEUE_SIZE m (send_queue c) of
            None \<Rightarrow> Pending
          | Some q \<Rightarrow> Ready (Some (WSingle (c\<lparr>send_queue := q\<rparr>)))))
    | WMux c \<Rightarrow> Ready (Some (WMux (c\<lparr>quic_open := False\<rparr>))))"

text \<open>The send queue that carries a protocol, the key of its writer task, and the writer taking
  one message.\<close>

definition wire_send_queue :: "protocol_id \<Rightarrow> wire \<Rightarrow> peer_net_msg list option" where
  "wire_send_queue p w = (case w of WSingle c \<Rightarrow> Some (send_queue c) | WMux c \<Rightarrow> send_queues c p)"

definition writer_key :: "protocol_id \<Rightarrow> wire \<Rightarrow> protocol_id option" where
  "writer_key p w = (case w of WSingle _ \<Rightarrow> None | WMux _ \<Rightarrow> Some p)"

definition wire_pop :: "protocol_id \<Rightarrow> wire \<Rightarrow> wire option" where
  "wire_pop p w = (case wire_send_queue p w of
      Some q \<Rightarrow> (case aq_recv q of
          Some (_, q') \<Rightarrow> Some (case w of WSingle c \<Rightarrow> WSingle (c\<lparr>send_queue := q'\<rparr>)
              | WMux c \<Rightarrow> WMux (c\<lparr>send_queues := (send_queues c)(p \<mapsto> q')\<rparr>))
        | None \<Rightarrow> None)
    | None \<Rightarrow> None)"

record peer =
  peer_ident :: peer_id
  peer_direction :: conn_direction
  peer_endpoint :: endpoint
  peer_wire :: wire
  peer_protocols :: "protocol_id list"
  peer_stop :: "(p2p_error + unit) option"
  peer_dead_writers :: "protocol_id option set"

definition is_inbound :: "peer \<Rightarrow> bool" where
  "is_inbound p = (peer_direction p = Inbound)"

definition peer_new ::
  "pool_api \<Rightarrow> conn_io \<Rightarrow> queued_conn \<Rightarrow> peer_id \<Rightarrow> protocol_id list \<Rightarrow> (p2p_error + peer) poll" where
  "peer_new A io q pid negotiated =
     (case timeout (if io_expired io then Ready () else Pending) (from_queued A io q negotiated) of
        Pending \<Rightarrow> Pending
      | Ready (Inl e) \<Rightarrow> Ready (Inl (P2pCore e))
      | Ready (Inr (Inl e)) \<Rightarrow> Ready (Inl e)
      | Ready (Inr (Inr w)) \<Rightarrow> Ready (Inr \<lparr>peer_ident = pid, peer_direction = qc_direction q,
          peer_endpoint = qc_remote_endpoint q, peer_wire = w, peer_protocols = negotiated, peer_stop = None,
          peer_dead_writers = {}\<rparr>))"

text \<open>The protocols a peer starts: those of the pool that were negotiated.\<close>

definition run_connect_protocols :: "protocol_id list \<Rightarrow> peer \<Rightarrow> protocol_id list" where
  "run_connect_protocols protos p = filter (\<lambda>i. i \<in> set (peer_protocols p)) protos"

section \<open>The pool\<close>

datatype peer_event = Added peer_id | Removed peer_id | HandshakeFailed "peer_id option"

text \<open>How far the removal of a peer is: about to tell the other side, about to push the shutdown event to the listed
  protocols, or done with the shutdown and about to report it.\<close>

datatype leave_stage = LeaveStart | LeaveWait "protocol_id list" | LeaveShut

text \<open>A broadcast under way, which holds the read lock of the peer map: protocol, message and
  the peers still to be served.\<close>

record broadcasting =
  bc_protocol :: protocol_id
  bc_msg :: bytes
  bc_todo :: "peer_id list"

text \<open>\<open>emitted\<close>, \<open>monitored\<close> and \<open>closed\<close> record the calls of \<open>emit\<close>, \<open>notify\<close> and of
  sends to the \<open>conn_closed\<close> channels; \<open>arrived\<close> remembers the connections queued.
  \<open>announcing\<close> is the peer whose insertion the run loop has still to report.\<close>

record pool =
  pool_id :: peer_id
  pool_cfg :: p2p_config
  conn_queue :: "queued_conn list"
  next_token :: nat
  arrived :: "nat \<rightharpoonup> queued_conn"
  store :: "nat \<rightharpoonup> peer"
  peers :: "(peer_id \<times> nat) list"
  protocols :: "protocol_id list"
  protocol_metas :: "(protocol_id \<times> protocol_meta) list"
  emitted :: "peer_event list"
  monitored :: "pool_event list"
  closed :: "(nat \<times> (p2p_error + unit)) list"
  announcing :: "peer_id option"
  leaving :: "(peer_id \<times> nat \<times> leave_stage) list"
  broadcasts :: "broadcasting list"

definition pool_new :: "peer_id \<Rightarrow> p2p_config \<Rightarrow> pool" where
  "pool_new i cfg = \<lparr>pool_id = i, pool_cfg = cfg, conn_queue = [], next_token = 0, arrived = Map.empty, store = Map.empty,
     peers = [], protocols = [], protocol_metas = [], emitted = [], monitored = [], closed = [], announcing = None,
     leaving = [], broadcasts = []\<rparr>"

text \<open>\<open>handle\<close> and \<open>handle_quic\<close> up to the point where they wait for the channel, and
  what they then return.\<close>

definition queue_push ::
  "endpoint option \<Rightarrow> conn_direction \<Rightarrow> peer_id option \<Rightarrow> bool \<Rightarrow> pool \<Rightarrow> (p2p_error + nat) \<times> pool" where
  "queue_push ep dir vpid quic s = (case ep of
      None \<Rightarrow> (Inl (InvalidEndpoint ''missing peer endpoint''), s)
    | Some e \<Rightarrow> (let q = \<lparr>qc_token = next_token s, qc_direction = dir, qc_remote_endpoint = e, qc_verified = vpid, qc_quic = quic\<rparr>
        in (Inr (next_token s), s\<lparr>conn_queue := conn_queue s @ [q], next_token := next_token s + 1,
              arrived := (arrived s)(next_token s \<mapsto> q)\<rparr>)))"

definition queue_handle :: "endpoint option \<Rightarrow> conn_direction \<Rightarrow> peer_id option \<Rightarrow> pool \<Rightarrow> (p2p_error + nat) \<times> pool" where
  "queue_handle ep dir vpid s = queue_push ep dir vpid False s"

definition queue_handle_quic :: "endpoint option \<Rightarrow> conn_direction \<Rightarrow> peer_id option \<Rightarrow> pool \<Rightarrow> (p2p_error + nat) \<times> pool" where
  "queue_handle_quic ep dir vpid s = queue_push ep dir vpid True s"

definition queue_next :: "pool \<Rightarrow> (queued_conn \<times> pool) option" where
  "queue_next s = (case conn_queue s of [] \<Rightarrow> None | q # qs \<Rightarrow> Some (q, s\<lparr>conn_queue := qs\<rparr>))"

definition handle_result :: "nat \<Rightarrow> pool \<Rightarrow> (p2p_error + unit) poll" where
  "handle_result t s = (case map_of (closed s) t of Some r \<Rightarrow> Ready r | None \<Rightarrow> Pending)"

definition attach_protocol :: "protocol_id \<Rightarrow> p2p_error + version \<Rightarrow> protocol_flags \<Rightarrow> pool \<Rightarrow> (p2p_error + unit) \<times> pool" where
  "attach_protocol i ver flags s =
     (let s1 = s\<lparr>protocols := (if i \<in> set (protocols s) then protocols s else protocols s @ [i])\<rparr>
      in case ver of
          Inl e \<Rightarrow> (Inl e, s1)
        | Inr v \<Rightarrow> (Inr (), s1\<lparr>protocol_metas := AList.update i \<lparr>meta_version = v, meta_flags = flags\<rparr> (protocol_metas s)\<rparr>))"

definition contains_peer :: "peer_id \<Rightarrow> pool \<Rightarrow> bool" where
  "contains_peer pid s \<longleftrightarrow> map_of (peers s) pid \<noteq> None"

definition peers_len :: "pool \<Rightarrow> nat" where
  "peers_len s = length (peers s)"

definition get_peer :: "pool \<Rightarrow> peer_id \<Rightarrow> peer option" where
  "get_peer s pid = (case map_of (peers s) pid of None \<Rightarrow> None | Some t \<Rightarrow> store s t)"

definition peer_protocol_set :: "pool \<Rightarrow> peer_id \<Rightarrow> protocol_id list option" where
  "peer_protocol_set s pid = map_option peer_protocols (get_peer s pid)"

definition peers_by :: "(peer \<Rightarrow> bool) \<Rightarrow> pool \<Rightarrow> (peer_id \<times> endpoint) list" where
  "peers_by P s = List.map_filter (\<lambda>(pid, t). case store s t of
      Some p \<Rightarrow> if P p then Some (pid, peer_endpoint p) else None
    | None \<Rightarrow> None) (peers s)"

definition inbound_peers :: "pool \<Rightarrow> (peer_id \<times> endpoint) list" where
  "inbound_peers = peers_by is_inbound"

definition outbound_peers :: "pool \<Rightarrow> (peer_id \<times> endpoint) list" where
  "outbound_peers = peers_by (\<lambda>p. \<not> is_inbound p)"

definition send_to :: "pool_api \<Rightarrow> (peer_id \<Rightarrow> string) \<Rightarrow> peer_id \<Rightarrow> protocol_id \<Rightarrow> bytes \<Rightarrow> pool \<Rightarrow> (p2p_error + unit) poll \<times> pool" where
  "send_to A show_id pid proto msg s = (case map_of (peers s) pid of
      None \<Rightarrow> (Ready (Inl (PeerNotFound (show_id pid))), s)
    | Some t \<Rightarrow> (case store s t of
        None \<Rightarrow> (Pending, s)
      | Some p \<Rightarrow> (case wire_send A proto msg (peer_wire p) of
          (r, w) \<Rightarrow> (r, s\<lparr>store := (store s)(t \<mapsto> p\<lparr>peer_wire := w\<rparr>)\<rparr>))))"

text \<open>The start of \<open>broadcast\<close> and \<open>broadcast_to\<close>, and the service of one peer: \<^term>\<open>None\<close> is
  waiting for its send queue; errors are logged and skipped.\<close>

definition broadcast_begin :: "protocol_id \<Rightarrow> bytes \<Rightarrow> peer_id set option \<Rightarrow> pool \<Rightarrow> broadcasting" where
  "broadcast_begin proto msg targets s = \<lparr>bc_protocol = proto, bc_msg = msg,
     bc_todo = filter (\<lambda>pid. case targets of None \<Rightarrow> True | Some T \<Rightarrow> pid \<in> T) (map fst (peers s))\<rparr>"

definition broadcast_one :: "pool_api \<Rightarrow> broadcasting \<Rightarrow> pool \<Rightarrow> (broadcasting \<times> pool) option" where
  "broadcast_one A b s = (case bc_todo b of
      [] \<Rightarrow> None
    | pid # todo \<Rightarrow> (case map_of (peers s) pid of
        None \<Rightarrow> None
      | Some t \<Rightarrow> (case store s t of
          None \<Rightarrow> None
        | Some p \<Rightarrow> (case wire_send A (bc_protocol b) (bc_msg b) (peer_wire p) of
            (Pending, _) \<Rightarrow> None
          | (Ready _, w) \<Rightarrow> Some (b\<lparr>bc_todo := todo\<rparr>, s\<lparr>store := (store s)(t \<mapsto> p\<lparr>peer_wire := w\<rparr>)\<rparr>)))))"

section \<open>The run loop\<close>

definition pool_params :: "pool \<Rightarrow> queued_conn \<Rightarrow> handshake_params" where
  "pool_params s q = \<lparr>own_id = pool_id s, config_version = cfg_version (pool_cfg s), hp_protocols = protocol_metas s,
     timeout_secs = handshake_timeout (pool_cfg s), verified_peer_id = qc_verified q\<rparr>"

definition candidate_of :: "queued_conn \<Rightarrow> peer_id \<Rightarrow> protocol_id list \<Rightarrow> peer_candidate" where
  "candidate_of q pid negotiated =
     \<lparr>cand_peer_id = pid, cand_remote_endpoint = qc_remote_endpoint q, cand_negotiated_protocols = negotiated\<rparr>"

definition pool_reject :: "queued_conn \<Rightarrow> peer_id option \<Rightarrow> p2p_error \<Rightarrow> pool \<Rightarrow> pool" where
  "pool_reject q who err s = s\<lparr>monitored := monitored s @ [PoolHandshakeFailed who],
     emitted := emitted s @ [HandshakeFailed who], closed := closed s @ [(qc_token q, Inl err)]\<rparr>"

text \<open>\<open>new_peer\<close> up to the spawning of the peer's task; the insertion waits for the write lock.\<close>

definition new_peer ::
  "pool_api \<Rightarrow> conn_io \<Rightarrow> queued_conn \<Rightarrow> peer_id \<Rightarrow> protocol_id list \<Rightarrow> pool \<Rightarrow> (p2p_error + unit) poll \<times> pool" where
  "new_peer A io q pid negotiated s =
     (if contains_peer pid s
      then (Ready (Inl PeerAlreadyConnected), s\<lparr>monitored := monitored s @ [PoolPeerAlreadyConnected pid]\<rparr>)
      else (case peer_new A io q pid negotiated of
          Pending \<Rightarrow> (Pending, s)
        | Ready (Inl e) \<Rightarrow> (Ready (Inl e), s)
        | Ready (Inr p) \<Rightarrow> (if broadcasts s \<noteq> [] then (Pending, s)
            else (Ready (Inr ()), s\<lparr>store := (store s)(qc_token q \<mapsto> p), peers := AList.update pid (qc_token q) (peers s),
                    announcing := Some pid\<rparr>))))"

text \<open>The end of \<open>new_peer\<close>.\<close>

definition announce :: "peer_id \<Rightarrow> pool \<Rightarrow> pool" where
  "announce pid s = s\<lparr>monitored := monitored s @ [NewPeer pid], emitted := emitted s @ [Added pid], announcing := None\<rparr>"

text \<open>One round of the loop, up to the point where \<open>new_peer\<close> reports the peer.\<close>

definition run_once :: "pool_api \<Rightarrow> conn_io \<Rightarrow> pool \<Rightarrow> pool poll" where
  "run_once A io s = (case queue_next s of
      None \<Rightarrow> Pending
    | Some (q, s1) \<Rightarrow> (case fst (handshake (hs A) (pool_params s q) (io_werr io) (io_msgs io)) of
        Inl err \<Rightarrow> Ready (pool_reject q (qc_verified q) err s1)
      | Inr (pid, negotiated) \<Rightarrow>
          (if \<not> cfg_access_control (pool_cfg s) (SubjPeer (candidate_of q pid negotiated)) (ActConnect (qc_direction q))
           then Ready (pool_reject q (Some pid) AccessDenied s1)
           else (case new_peer A io q pid negotiated s1 of
               (Pending, _) \<Rightarrow> Pending
             | (Ready (Inr _), s2) \<Rightarrow> Ready s2
             | (Ready (Inl err), s2) \<Rightarrow> Ready (s2\<lparr>closed := closed s2 @ [(qc_token q, Inl err)]\<rparr>)))))"

section \<open>Removing a peer\<close>

text \<open>\<open>remove_peer\<close> in its three parts: taking the peer out of the map, under the write lock; shutting it
  down, which may wait for queues; reporting it.\<close>

definition remove_take :: "peer_id \<Rightarrow> pool \<Rightarrow> pool option" where
  "remove_take pid s = (if broadcasts s \<noteq> [] then None else (case map_of (peers s) pid of
      None \<Rightarrow> Some s
    | Some t \<Rightarrow> Some (s\<lparr>peers := AList.delete pid (peers s), leaving := leaving s @ [(pid, t, LeaveStart)]\<rparr>)))"

definition shut_done :: "nat \<Rightarrow> peer \<Rightarrow> pool \<Rightarrow> pool" where
  "shut_done t p s = s\<lparr>store := (store s)(t \<mapsto> p\<lparr>peer_stop := try_stop (Inr ()) (peer_stop p)\<rparr>),
     closed := closed s @ [(t, Inr ())]\<rparr>"

text \<open>One advance of \<open>Peer::shutdown\<close>; \<open>ord\<close> is the iteration order of the receive queues.\<close>

definition peer_shutdown ::
  "pool_api \<Rightarrow> protocol_id list \<Rightarrow> nat \<Rightarrow> leave_stage \<Rightarrow> pool \<Rightarrow> (leave_stage \<times> pool) option" where
  "peer_shutdown A ord t st s = (case store s t of
      None \<Rightarrow> None
    | Some p \<Rightarrow> (case st of
        LeaveStart \<Rightarrow> (case shutdown_signal A (peer_wire p) of
            Pending \<Rightarrow> None
          | Ready None \<Rightarrow> Some (LeaveShut, shut_done t p s)
          | Ready (Some w) \<Rightarrow> Some (LeaveWait ord, s\<lparr>store := (store s)(t \<mapsto> p\<lparr>peer_wire := w\<rparr>)\<rparr>))
      | LeaveWait rest \<Rightarrow> (case broadcast_shutdown rest (wire_queues (peer_wire p)) of
            (qs, rest') \<Rightarrow> (let p' = p\<lparr>peer_wire := set_wire_queues qs (peer_wire p)\<rparr>
              in if rest' = [] then Some (LeaveShut, shut_done t p' s)
                 else if rest' = rest then None
                 else Some (LeaveWait rest', s\<lparr>store := (store s)(t \<mapsto> p')\<rparr>)))
      | LeaveShut \<Rightarrow> None))"

definition remove_announce :: "peer_id \<Rightarrow> pool \<Rightarrow> pool" where
  "remove_announce pid s = s\<lparr>monitored := monitored s @ [RemovePeer pid], emitted := emitted s @ [Removed pid]\<rparr>"

text \<open>\<open>PeerPool::shutdown\<close> after its tasks are cancelled: the peers one after the other; \<^term>\<open>None\<close> is a shutdown
  that waits for a queue nobody empties.\<close>

definition shutdown_one :: "pool_api \<Rightarrow> (nat \<Rightarrow> protocol_id list) \<Rightarrow> nat \<Rightarrow> pool \<Rightarrow> pool option" where
  "shutdown_one A ord t s = (case peer_shutdown A (ord t) t LeaveStart s of
      None \<Rightarrow> None
    | Some (LeaveShut, s1) \<Rightarrow> Some s1
    | Some (st, s1) \<Rightarrow> (case peer_shutdown A (ord t) t st s1 of
        Some (LeaveShut, s2) \<Rightarrow> Some s2
      | _ \<Rightarrow> None))"

fun shutdown_peers :: "pool_api \<Rightarrow> (nat \<Rightarrow> protocol_id list) \<Rightarrow> nat list \<Rightarrow> pool \<Rightarrow> pool option" where
  "shutdown_peers A ord [] s = Some s"
| "shutdown_peers A ord (t # ts) s = (case shutdown_one A ord t s of None \<Rightarrow> None | Some s1 \<Rightarrow> shutdown_peers A ord ts s1)"

definition pool_shutdown :: "pool_api \<Rightarrow> (nat \<Rightarrow> protocol_id list) \<Rightarrow> pool \<Rightarrow> pool option" where
  "pool_shutdown A ord s = shutdown_peers A ord (map snd (peers s)) s"

section \<open>Interleaving\<close>

text \<open>The tasks that share the pool: listeners and connectors that queue connections, the run loop,
  broadcasts, the disconnect callbacks of the peers, and the reader, writer and protocol
  tasks of each peer.\<close>

inductive pool_step :: "pool_api \<Rightarrow> pool \<Rightarrow> pool \<Rightarrow> bool" for A :: pool_api where
  queue_conn: "queue_push (Some e) dir vpid quic s = (r, s') \<Longrightarrow> pool_step A s s'"
| attach: "attach_protocol i ver flags s = (r, s') \<Longrightarrow> pool_step A s s'"
| run_loop: "\<lbrakk>announcing s = None; run_once A io s = Ready s'\<rbrakk> \<Longrightarrow> pool_step A s s'"
| announce: "announcing s = Some pid \<Longrightarrow> pool_step A s (announce pid s)"
| disconnect: "\<lbrakk>map_of (peers s) pid = Some t; store s t = Some p; peer_stop p \<noteq> None; remove_take pid s = Some s'\<rbrakk>
    \<Longrightarrow> pool_step A s s'"
| shutdown: "\<lbrakk>leaving s = l1 @ (pid, t, st) # l2; store s t = Some p; distinct ord; set ord = dom (wire_queues (peer_wire p));
     peer_shutdown A ord t st s = Some (st', s')\<rbrakk> \<Longrightarrow> pool_step A s (s'\<lparr>leaving := l1 @ (pid, t, st') # l2\<rparr>)"
| removed: "leaving s = l1 @ (pid, t, LeaveShut) # l2 \<Longrightarrow> pool_step A s ((remove_announce pid s)\<lparr>leaving := l1 @ l2\<rparr>)"
| bc_begin: "pool_step A s (s\<lparr>broadcasts := broadcasts s @ [broadcast_begin proto msg targets s]\<rparr>)"
| bc_one: "\<lbrakk>broadcasts s = b1 @ b # b2; broadcast_one A b s = Some (b', s')\<rbrakk>
    \<Longrightarrow> pool_step A s (s'\<lparr>broadcasts := b1 @ b' # b2\<rparr>)"
| bc_end: "\<lbrakk>broadcasts s = b1 @ b # b2; bc_todo b = []\<rbrakk> \<Longrightarrow> pool_step A s (s\<lparr>broadcasts := b1 @ b2\<rparr>)"
| send: "send_to A show_id pid proto msg s = (Ready r, s') \<Longrightarrow> pool_step A s s'"
| writer: "\<lbrakk>store s t = Some p; writer_key proto (peer_wire p) \<notin> peer_dead_writers p; wire_pop proto (peer_wire p) = Some w;
     dead = (if ok then peer_dead_writers p else insert (writer_key proto (peer_wire p)) (peer_dead_writers p))\<rbrakk>
    \<Longrightarrow> pool_step A s (s\<lparr>store := (store s)(t \<mapsto> p\<lparr>peer_wire := w, peer_dead_writers := dead\<rparr>)\<rparr>)"
| reader: "\<lbrakk>store s t = Some p; peer_wire p = WSingle c; demux_msg (proto_dec A) m (recv_queues c) = Go qs\<rbrakk>
    \<Longrightarrow> pool_step A s (s\<lparr>store := (store s)(t \<mapsto> p\<lparr>peer_wire := set_wire_queues qs (peer_wire p)\<rparr>)\<rparr>)"
| reader_stop: "\<lbrakk>store s t = Some p; peer_wire p = WSingle c; demux_msg (proto_dec A) m (recv_queues c) = Stop e\<rbrakk>
    \<Longrightarrow> pool_step A s (s\<lparr>store := (store s)(t \<mapsto> p\<lparr>peer_stop := try_stop (Inl e) (peer_stop p)\<rparr>)\<rparr>)"
| read_stream: "\<lbrakk>store s t = Some p; peer_wire p = WMux c; mux_recv_queues c i = Some q; quic_msg (proto_dec A) m q = Go q'\<rbrakk>
    \<Longrightarrow> pool_step A s (s\<lparr>store := (store s)(t \<mapsto> p\<lparr>peer_wire := set_wire_queues ((mux_recv_queues c)(i \<mapsto> q')) (peer_wire p)\<rparr>)\<rparr>)"
| read_stream_stop: "\<lbrakk>store s t = Some p; peer_wire p = WMux c; mux_recv_queues c i = Some q; quic_msg (proto_dec A) m q = Stop e\<rbrakk>
    \<Longrightarrow> pool_step A s (s\<lparr>store := (store s)(t \<mapsto> p\<lparr>peer_stop := try_stop (Inl e) (peer_stop p)\<rparr>)\<rparr>)"
| protocol_recv: "\<lbrakk>store s t = Some p; wire_recv i (wire_queues (peer_wire p)) = (Ready (Inr ev), qs)\<rbrakk>
    \<Longrightarrow> pool_step A s (s\<lparr>store := (store s)(t \<mapsto> p\<lparr>peer_wire := set_wire_queues qs (peer_wire p)\<rparr>)\<rparr>)"
| protocol_end: "\<lbrakk>store s t = Some p; i \<in> set (run_connect_protocols (protocols s) p)\<rbrakk>
    \<Longrightarrow> pool_step A s (s\<lparr>store := (store s)(t \<mapsto> p\<lparr>peer_stop := try_stop res (peer_stop p)\<rparr>)\<rparr>)"


section \<open>Invariants\<close>

lemmas pool_op_defs = queue_push_def attach_protocol_def announce_def remove_announce_def shut_done_def

text \<open>What one round of the run loop can do.\<close>

lemma run_once_cases:
  assumes "run_once A io s = Ready s'"
  obtains (reject) q qs who e where "conn_queue s = q # qs" "s' = pool_reject q who e (s\<lparr>conn_queue := qs\<rparr>)"
  | (fail) q qs mon e where "conn_queue s = q # qs"
      "s' = s\<lparr>conn_queue := qs, monitored := mon, closed := closed s @ [(qc_token q, Inl e)]\<rparr>"
  | (join) q qs pid negotiated p where "conn_queue s = q # qs"
      "fst (handshake (hs A) (pool_params s q) (io_werr io) (io_msgs io)) = Inr (pid, negotiated)"
      "cfg_access_control (pool_cfg s) (SubjPeer (candidate_of q pid negotiated)) (ActConnect (qc_direction q))"
      "map_of (peers s) pid = None" "peer_new A io q pid negotiated = Ready (Inr p)" "broadcasts s = []"
      "s' = s\<lparr>conn_queue := qs, store := (store s)(qc_token q \<mapsto> p), peers := AList.update pid (qc_token q) (peers s), announcing := Some pid\<rparr>"
proof -
  obtain q qs where q: "conn_queue s = q # qs"
    using assms by (cases "conn_queue s") (auto simp: run_once_def queue_next_def)
  let ?h = "fst (handshake (hs A) (pool_params s q) (io_werr io) (io_msgs io))"
  show ?thesis
  proof (cases ?h)
    case (Inl e)
    then have "s' = pool_reject q (qc_verified q) e (s\<lparr>conn_queue := qs\<rparr>)"
      using assms q by (simp add: run_once_def queue_next_def)
    then show ?thesis using reject q by blast
  next
    case (Inr r)
    obtain pid neg where r: "r = (pid, neg)" by (cases r)
    show ?thesis
    proof (cases "cfg_access_control (pool_cfg s) (SubjPeer (candidate_of q pid neg)) (ActConnect (qc_direction q))")
      case False
      then have "s' = pool_reject q (Some pid) AccessDenied (s\<lparr>conn_queue := qs\<rparr>)"
        using assms q Inr r by (simp add: run_once_def queue_next_def)
      then show ?thesis using reject q by blast
    next
      case True
      let ?n = "new_peer A io q pid neg (s\<lparr>conn_queue := qs\<rparr>)"
      have n: "(case ?n of (Pending, _) \<Rightarrow> Pending | (Ready (Inr _), s2) \<Rightarrow> Ready s2
          | (Ready (Inl err), s2) \<Rightarrow> Ready (s2\<lparr>closed := closed s2 @ [(qc_token q, Inl err)]\<rparr>)) = Ready s'"
        using assms q Inr r True by (simp add: run_once_def queue_next_def)
      show ?thesis
      proof (cases "contains_peer pid s")
        case dup: True
        then have "s' = s\<lparr>conn_queue := qs, monitored := monitored s @ [PoolPeerAlreadyConnected pid],
            closed := closed s @ [(qc_token q, Inl PeerAlreadyConnected)]\<rparr>"
          using n by (simp add: new_peer_def contains_peer_def)
        then show ?thesis using fail q by blast
      next
        case fresh: False
        show ?thesis
        proof (cases "peer_new A io q pid neg")
          case Pending
          then show ?thesis using n fresh by (simp add: new_peer_def contains_peer_def)
        next
          case (Ready pr)
          show ?thesis
          proof (cases pr)
            case (Inl e)
            then have "s' = s\<lparr>conn_queue := qs, monitored := monitored s, closed := closed s @ [(qc_token q, Inl e)]\<rparr>"
              using n fresh Ready by (simp add: new_peer_def contains_peer_def)
            then show ?thesis using fail q by blast
          next
            case ok: (Inr p)
            have "broadcasts s = []"
              using n fresh Ready ok by (auto simp: new_peer_def contains_peer_def split: if_splits)
            then show ?thesis using join [OF q] Inr r True fresh Ready ok n
              by (auto simp: new_peer_def contains_peer_def)
          qed
        qed
      qed
    qed
  qed
qed


text \<open>What never changes in a running peer.\<close>

definition same_peer :: "peer \<Rightarrow> peer \<Rightarrow> bool" where
  "same_peer p p' \<longleftrightarrow> peer_ident p' = peer_ident p \<and> peer_direction p' = peer_direction p
     \<and> peer_endpoint p' = peer_endpoint p \<and> peer_protocols p' = peer_protocols p"

lemma peer_shutdown_cases:
  assumes "peer_shutdown A ord t st s = Some (st', s')"
  obtains p p' where "store s t = Some p" "same_peer p p'" "st \<noteq> LeaveShut"
    "s' = s\<lparr>store := (store s)(t \<mapsto> p'), closed := closed s @ (if st' = LeaveShut then [(t, Inr ())] else [])\<rparr>"
proof -
  obtain p where p: "store s t = Some p" using assms by (cases "store s t") (auto simp: peer_shutdown_def)
  show ?thesis
  proof (cases st)
    case LeaveStart
    show ?thesis
    proof (cases "shutdown_signal A (peer_wire p)")
      case (Ready r)
      then show ?thesis
        using assms p LeaveStart that [of p "case r of None \<Rightarrow> p\<lparr>peer_stop := try_stop (Inr ()) (peer_stop p)\<rparr> | Some w \<Rightarrow> p\<lparr>peer_wire := w\<rparr>"]
        by (auto simp: peer_shutdown_def shut_done_def same_peer_def split: option.splits)
    qed (use assms p LeaveStart in \<open>simp add: peer_shutdown_def\<close>)
  next
    case (LeaveWait rest)
    obtain qs rest' where b: "broadcast_shutdown rest (wire_queues (peer_wire p)) = (qs, rest')" by fastforce
    show ?thesis
    proof (cases "rest' = []")
      case True
      then show ?thesis
        using assms p LeaveWait b that [of p "p\<lparr>peer_wire := set_wire_queues qs (peer_wire p), peer_stop := try_stop (Inr ()) (peer_stop p)\<rparr>"]
        by (simp add: peer_shutdown_def shut_done_def same_peer_def Let_def)
    next
      case False
      then show ?thesis
        using assms p LeaveWait b that [of p "p\<lparr>peer_wire := set_wire_queues qs (peer_wire p)\<rparr>"]
        by (auto simp: peer_shutdown_def shut_done_def same_peer_def Let_def split: if_splits)
    qed
  qed (use assms p in \<open>simp add: peer_shutdown_def\<close>)
qed

lemma send_to_cases:
  assumes "send_to A sh pid proto msg s = (r, s')"
  obtains (same) "s' = s"
  | (sent) t p w where "map_of (peers s) pid = Some t" "store s t = Some p" "wire_send A proto msg (peer_wire p) = (r, w)"
      "s' = s\<lparr>store := (store s)(t \<mapsto> p\<lparr>peer_wire := w\<rparr>)\<rparr>"
proof (cases "map_of (peers s) pid")
  case None
  then show ?thesis using assms same by (simp add: send_to_def)
next
  case t: (Some t)
  show ?thesis
  proof (cases "store s t")
    case None
    then show ?thesis using assms same t by (simp add: send_to_def)
  next
    case (Some p)
    obtain r' w where w: "wire_send A proto msg (peer_wire p) = (r', w)" by fastforce
    then have "r' = r" "s' = s\<lparr>store := (store s)(t \<mapsto> p\<lparr>peer_wire := w\<rparr>)\<rparr>"
      using assms t Some by (simp_all add: send_to_def)
    then show ?thesis using sent t Some w by blast
  qed
qed

lemma broadcast_one_cases:
  assumes "broadcast_one A b s = Some (b', s')"
  obtains pid todo t p r w where "bc_todo b = pid # todo" "map_of (peers s) pid = Some t" "store s t = Some p"
    "wire_send A (bc_protocol b) (bc_msg b) (peer_wire p) = (Ready r, w)"
    "s' = s\<lparr>store := (store s)(t \<mapsto> p\<lparr>peer_wire := w\<rparr>)\<rparr>" "b' = b\<lparr>bc_todo := todo\<rparr>"
  using assms by (auto simp: broadcast_one_def split: list.splits option.splits prod.splits poll.splits)

lemma remove_take_cases:
  assumes "map_of (peers s) pid = Some t" "remove_take pid s = Some s'"
  shows "broadcasts s = []"
    "s' = s\<lparr>peers := AList.delete pid (peers s), leaving := leaving s @ [(pid, t, LeaveStart)]\<rparr>"
  using assms by (auto simp: remove_take_def split: if_splits)

lemma queue_push_Some:
  "queue_push (Some e) dir vpid quic s = (r, s') \<Longrightarrow>
     s' = s\<lparr>conn_queue := conn_queue s @ [\<lparr>qc_token = next_token s, qc_direction = dir, qc_remote_endpoint = e, qc_verified = vpid, qc_quic = quic\<rparr>],
       next_token := next_token s + 1,
       arrived := (arrived s)(next_token s \<mapsto> \<lparr>qc_token = next_token s, qc_direction = dir, qc_remote_endpoint = e, qc_verified = vpid, qc_quic = quic\<rparr>)\<rparr>"
  by (auto simp: queue_push_def Let_def)

lemma attach_cases:
  assumes "attach_protocol i ver flags s = (r, s')"
  obtains protos metas where "s' = s\<lparr>protocols := protos, protocol_metas := metas\<rparr>"
    "fst ` set (protocol_metas s) \<subseteq> fst ` set metas"
proof -
  define protos where "protos = (if i \<in> set (protocols s) then protocols s else protocols s @ [i])"
  have a: "attach_protocol i ver flags s = (case ver of Inl e \<Rightarrow> (Inl e, s\<lparr>protocols := protos\<rparr>)
     | Inr v \<Rightarrow> (Inr (), s\<lparr>protocols := protos, protocol_metas := AList.update i \<lparr>meta_version = v, meta_flags = flags\<rparr> (protocol_metas s)\<rparr>))"
    by (simp only: attach_protocol_def protos_def [symmetric] Let_def)
  show ?thesis
  proof (cases ver)
    case (Inl e)
    have "s' = s\<lparr>protocols := protos, protocol_metas := protocol_metas s\<rparr>" using assms a Inl by simp
    then show ?thesis using that by blast
  next
    case (Inr v)
    let ?m = "AList.update i \<lparr>meta_version = v, meta_flags = flags\<rparr> (protocol_metas s)"
    have "fst ` set ?m = insert i (fst ` set (protocol_metas s))" by (simp add: dom_update)
    moreover have "s' = s\<lparr>protocols := protos, protocol_metas := ?m\<rparr>" using assms a Inr by simp
    ultimately show ?thesis using that by blast
  qed
qed

text \<open>A shutdown of the pool that completes has told every waiting task.\<close>

lemma shutdown_one_closed: "shutdown_one A ord t s = Some s' \<Longrightarrow> closed s' = closed s @ [(t, Inr ())]"
  by (auto simp: shutdown_one_def split: option.splits leave_stage.splits elim!: peer_shutdown_cases)

lemma shutdown_peers_closed: "shutdown_peers A ord ts s = Some s' \<Longrightarrow> closed s' = closed s @ map (\<lambda>t. (t, Inr ())) ts"
  by (induction ts arbitrary: s) (auto split: option.splits dest!: shutdown_one_closed)

lemma pool_shutdown_closed: "pool_shutdown A ord s = Some s' \<Longrightarrow> closed s' = closed s @ map (\<lambda>x. (snd x, Inr ())) (peers s)"
  by (simp add: pool_shutdown_def shutdown_peers_closed comp_def)

subsection \<open>Every connection is accounted for\<close>

definition open_leaving :: "pool \<Rightarrow> nat list" where
  "open_leaving s = map (\<lambda>(_, t, _). t) (filter (\<lambda>(_, _, st). st \<noteq> LeaveShut) (leaving s))"

definition books :: "pool \<Rightarrow> nat multiset" where
  "books s = mset (map fst (closed s)) + mset (map qc_token (conn_queue s)) + mset (map snd (peers s)) + mset (open_leaving s)"

definition books_inv :: "pool \<Rightarrow> bool" where
  "books_inv s \<longleftrightarrow> distinct (map fst (peers s)) \<and> books s = mset [0..<next_token s]"

lemma update_fresh: "map_of al k = None \<Longrightarrow> AList.update k v al = al @ [(k, v)]"
  by (induction al) (auto split: if_splits)

lemma delete_dom: "fst ` set (AList.delete k al) = fst ` set al - {k}"
  by (force simp: AList.delete_eq)

lemma delete_mset:
  "\<lbrakk>distinct (map fst al); map_of al k = Some v\<rbrakk> \<Longrightarrow> mset (map snd al) = add_mset v (mset (map snd (AList.delete k al)))"
proof (induction al)
  case (Cons a al)
  show ?case
  proof (cases "fst a = k")
    case True
    then have "k \<notin> fst ` set al" using Cons.prems by auto
    then have "AList.delete k al = al" by (simp add: delete_id)
    then show ?thesis using True Cons.prems by (cases a) simp
  next
    case False
    then show ?thesis using Cons by (cases a) auto
  qed
qed simp

lemma books_step:
  assumes "books_inv s" "pool_step A s s'"
  shows "books_inv s'"
  using assms(2,1)
proof cases
  case (queue_conn e dir vpid quic r)
  then show ?thesis using assms(1) by (auto simp: books_inv_def books_def open_leaving_def queue_push_def Let_def simp del: mset_upt)
next
  case (attach i ver flags r)
  then show ?thesis using assms(1) by (elim attach_cases) (simp add: books_inv_def books_def open_leaving_def)
next
  case (run_loop io)
  from run_loop(2) show ?thesis
  proof (cases rule: run_once_cases)
    case (join q qs pid negotiated p)
    then show ?thesis using assms(1) by (auto simp: books_inv_def books_def open_leaving_def update_fresh map_of_eq_None_iff)
  qed (use assms(1) in \<open>simp_all add: books_inv_def books_def open_leaving_def pool_reject_def\<close>)
next
  case (disconnect pid t p)
  then show ?thesis using assms(1) remove_take_cases [OF disconnect(1,4)] delete_mset [of "peers s" pid t]
    by (simp add: books_inv_def books_def open_leaving_def distinct_delete)
next
  case (shutdown l1 pid t st l2 p ord st' u)
  from shutdown(6) show ?thesis
    by (cases rule: peer_shutdown_cases) (use shutdown assms(1) in \<open>auto simp: books_inv_def books_def open_leaving_def\<close>)
next
  case (removed l1 pid t l2)
  then show ?thesis using assms(1) by (simp add: books_inv_def books_def open_leaving_def remove_announce_def)
next
  case (bc_one b1 b b2 b' u)
  then show ?thesis using assms(1) by (elim broadcast_one_cases) (simp add: books_inv_def books_def open_leaving_def)
next
  case (send sh pid proto msg r)
  then show ?thesis using assms(1) by (elim send_to_cases) (simp_all add: books_inv_def books_def open_leaving_def)
qed (use assms(1) in \<open>simp_all add: books_inv_def books_def open_leaving_def announce_def\<close>)

interpretation books_sys: step_invariant "pool_step A" books_inv
  by unfold_locales (rule books_step)


lemma token_unique:
  assumes "books_inv s" "conn_queue s = q # qs"
  shows "qc_token q \<notin> snd ` set (peers s)" "\<forall>t \<in> snd ` set (peers s). t < next_token s"
proof -
  have "count (books s) (qc_token q) \<le> 1" using assms(1) by (simp add: books_inv_def count_mset_set')
  moreover have "count (mset (map qc_token (conn_queue s))) (qc_token q) \<ge> 1" using assms(2) by simp
  ultimately have "count (mset (map snd (peers s))) (qc_token q) = 0" unfolding books_def count_union by linarith
  then show "qc_token q \<notin> snd ` set (peers s)" unfolding count_eq_zero_iff by simp
  show "\<forall>t \<in> snd ` set (peers s). t < next_token s"
  proof
    fix t assume "t \<in> snd ` set (peers s)"
    then have "t \<in># books s" by (simp add: books_def)
    then show "t < next_token s" using assms(1) by (simp add: books_inv_def)
  qed
qed

subsection \<open>Events\<close>

definition leaving_of :: "peer_id \<Rightarrow> pool \<Rightarrow> nat" where
  "leaving_of pid s = count_list (map fst (leaving s)) pid"

definition balanced :: "pool \<Rightarrow> peer_id \<Rightarrow> bool" where
  "balanced s pid \<longleftrightarrow> count_list (emitted s) (Added pid) + (if announcing s = Some pid then 1 else 0)
     = count_list (emitted s) (Removed pid) + leaving_of pid s + (if pid \<in> fst ` set (peers s) then 1 else 0)"

definition events_inv :: "pool \<Rightarrow> bool" where
  "events_inv s \<longleftrightarrow> distinct (map fst (peers s)) \<and> (\<forall>pid. balanced s pid)"

lemma events_same:
  assumes "events_inv s" "emitted s' = emitted s" "announcing s' = announcing s" "map fst (leaving s') = map fst (leaving s)" "peers s' = peers s"
  shows "events_inv s'"
  using assms by (simp add: events_inv_def balanced_def leaving_of_def)

lemma events_step:
  assumes "events_inv s" "pool_step A s s'"
  shows "events_inv s'"
proof -
  have inv: "distinct (map fst (peers s))" "balanced s pid" for pid using assms(1) by (simp_all add: events_inv_def)
  show ?thesis
    using assms(2)
  proof cases
    case (queue_conn e dir vpid quic r)
    then show ?thesis by (auto dest!: queue_push_Some intro!: events_same [OF assms(1)])
  next
    case (attach i ver flags r)
    then show ?thesis by (elim attach_cases) (simp add: events_same [OF assms(1)])
  next
    case (run_loop io)
    from run_loop(2) show ?thesis
    proof (cases rule: run_once_cases)
      case (join q qs pid negotiated p)
      have "balanced s' x" for x using inv(2) [of x] join(4,7) run_loop(1)
        by (auto simp: balanced_def leaving_of_def update_fresh map_of_eq_None_iff)
      then show ?thesis using inv(1) join by (simp add: events_inv_def update_fresh map_of_eq_None_iff)
    next
      case (reject q qs who e)
      have "balanced s' x" for x using inv(2) [of x] reject
        by (simp add: balanced_def leaving_of_def pool_reject_def)
      then show ?thesis using inv(1) reject by (simp add: events_inv_def pool_reject_def)
    qed (simp add: events_same [OF assms(1)])
  next
    case (disconnect pid t p)
    note s' = remove_take_cases(2) [OF disconnect(1,4)]
    have "pid \<in> fst ` set (peers s)" using disconnect(1) by (metis domI dom_map_of_conv_image_fst)
    then have "balanced s' x" for x using inv(2) [of x] s'
      by (auto simp: balanced_def leaving_of_def delete_dom)
    then show ?thesis using inv(1) s' by (simp add: events_inv_def distinct_delete)
  next
    case (shutdown l1 pid t st l2 p ord st' u)
    from shutdown(6) show ?thesis
      by (cases rule: peer_shutdown_cases) (use shutdown in \<open>simp add: events_same [OF assms(1)]\<close>)
  next
    case (removed l1 pid t l2)
    have "balanced s' x" for x using inv(2) [of x] removed by (simp add: balanced_def leaving_of_def remove_announce_def)
    then show ?thesis using inv(1) removed by (simp add: events_inv_def remove_announce_def)
  next
    case (announce pid)
    have "balanced s' x" for x using inv(2) [of x] announce by (simp add: balanced_def leaving_of_def announce_def split: if_splits)
    then show ?thesis using inv(1) announce by (simp add: events_inv_def announce_def)
  next
    case (bc_one b1 b b2 b' u)
    then show ?thesis by (elim broadcast_one_cases) (simp add: events_same [OF assms(1)])
  next
    case (send sh pid proto msg r)
    then show ?thesis by (elim send_to_cases) (simp_all add: events_same [OF assms(1)])
  qed (simp_all add: events_same [OF assms(1)])
qed

interpretation events_sys: step_invariant "pool_step A" events_inv
  by unfold_locales (rule events_step)


subsection \<open>Admission\<close>

text \<open>What holds of a peer in the map: it comes from a queued connection, the transport identity is the one of the
  peer, protocols were negotiated, and the access control admitted it.\<close>

definition admitted :: "pool \<Rightarrow> peer_id \<Rightarrow> nat \<Rightarrow> bool" where
  "admitted s pid t \<longleftrightarrow> (\<exists>p q. store s t = Some p \<and> arrived s t = Some q \<and> peer_ident p = pid
     \<and> peer_direction p = qc_direction q \<and> peer_endpoint p = qc_remote_endpoint q
     \<and> qc_verified q \<in> {None, Some pid} \<and> peer_protocols p \<noteq> [] \<and> set (peer_protocols p) \<subseteq> fst ` set (protocol_metas s)
     \<and> cfg_access_control (pool_cfg s) (SubjPeer (candidate_of q pid (peer_protocols p))) (ActConnect (qc_direction q)))"

definition admit_inv :: "pool \<Rightarrow> bool" where
  "admit_inv s \<longleftrightarrow> books_inv s \<and> (\<forall>q \<in> set (conn_queue s). qc_token q < next_token s \<and> arrived s (qc_token q) = Some q)
     \<and> (\<forall>(pid, t) \<in> set (peers s). admitted s pid t)"

lemma admitted_mono:
  assumes "admitted s pid t" "\<And>p. store s t = Some p \<Longrightarrow> \<exists>p'. store s' t = Some p' \<and> same_peer p p'"
    "arrived s' t = arrived s t" "fst ` set (protocol_metas s) \<subseteq> fst ` set (protocol_metas s')" "pool_cfg s' = pool_cfg s"
  shows "admitted s' pid t"
proof -
  obtain p q where p: "store s t = Some p" "arrived s t = Some q" "peer_ident p = pid"
      "peer_direction p = qc_direction q" "peer_endpoint p = qc_remote_endpoint q"
      "qc_verified q \<in> {None, Some pid}" "peer_protocols p \<noteq> []" "set (peer_protocols p) \<subseteq> fst ` set (protocol_metas s)"
      "cfg_access_control (pool_cfg s) (SubjPeer (candidate_of q pid (peer_protocols p))) (ActConnect (qc_direction q))"
    using assms(1) unfolding admitted_def by blast
  obtain p' where "store s' t = Some p'" "same_peer p p'" using assms(2) p(1) by blast
  then have "store s' t = Some p' \<and> arrived s' t = Some q \<and> peer_ident p' = pid
     \<and> peer_direction p' = qc_direction q \<and> peer_endpoint p' = qc_remote_endpoint q
     \<and> qc_verified q \<in> {None, Some pid} \<and> peer_protocols p' \<noteq> [] \<and> set (peer_protocols p') \<subseteq> fst ` set (protocol_metas s')
     \<and> cfg_access_control (pool_cfg s') (SubjPeer (candidate_of q pid (peer_protocols p'))) (ActConnect (qc_direction q))"
    using p assms(3-5) by (simp add: same_peer_def)
  then show ?thesis unfolding admitted_def by blast
qed

text \<open>Steps that leave the map or shrink it, and touch no peer's fixed part.\<close>

lemma admit_same:
  assumes "admit_inv s" "books_inv s'" "set (conn_queue s') \<subseteq> set (conn_queue s)" "arrived s' = arrived s"
    "next_token s' = next_token s" "set (peers s') \<subseteq> set (peers s)"
    "\<And>t p. store s t = Some p \<Longrightarrow> \<exists>p'. store s' t = Some p' \<and> same_peer p p'"
    "fst ` set (protocol_metas s) \<subseteq> fst ` set (protocol_metas s')" "pool_cfg s' = pool_cfg s"
  shows "admit_inv s'"
proof -
  have "admitted s' pid t" if "(pid, t) \<in> set (peers s')" for pid t
  proof -
    have "admitted s pid t" using assms(1,6) that by (auto simp: admit_inv_def)
    then show ?thesis by (rule admitted_mono) (use assms(4,7-9) in auto)
  qed
  moreover have "\<forall>q \<in> set (conn_queue s'). qc_token q < next_token s' \<and> arrived s' (qc_token q) = Some q"
    using assms(1,3-5) by (auto simp: admit_inv_def)
  ultimately show ?thesis using assms(2) by (auto simp: admit_inv_def)
qed

lemma peer_new_fields:
  "peer_new A io q pid negotiated = Ready (Inr p) \<Longrightarrow> peer_ident p = pid \<and> peer_direction p = qc_direction q
     \<and> peer_endpoint p = qc_remote_endpoint q \<and> peer_protocols p = negotiated"
  by (auto simp: peer_new_def split: poll.splits sum.splits)

lemma admit_join:
  assumes inv: "admit_inv s" "conn_queue s = q # qs"
    and h: "fst (handshake (hs A) (pool_params s q) werr es) = Inr (pid, negotiated)"
    and acc: "cfg_access_control (pool_cfg s) (SubjPeer (candidate_of q pid negotiated)) (ActConnect (qc_direction q))"
    and new: "map_of (peers s) pid = None" "peer_new A io q pid negotiated = Ready (Inr p)"
    and s': "s' = s\<lparr>conn_queue := qs, store := (store s)(qc_token q \<mapsto> p), peers := AList.update pid (qc_token q) (peers s), announcing := Some pid\<rparr>"
    and books: "books_inv s'"
  shows "admit_inv s'"
proof -
  have books_s: "books_inv s" and arr: "arrived s (qc_token q) = Some q" using inv by (auto simp: admit_inv_def)
  note tok = token_unique [OF books_s inv(2)]
  obtain out where "handshake (hs A) (pool_params s q) werr es = (Inr (pid, negotiated), out)" using h by (metis prod.collapse)
  from handshake_success [OF this]
  have "qc_verified q \<in> {None, Some pid}" "negotiated \<noteq> []" "set negotiated \<subseteq> fst ` set (protocol_metas s)"
    by (auto simp: pool_params_def)
  then have "admitted s' pid (qc_token q)"
    unfolding admitted_def s' using acc arr peer_new_fields [OF new(2)] by (intro exI [of _ p] exI [of _ q]) simp
  moreover have "admitted s' i t" if "(i, t) \<in> set (peers s)" for i t
  proof -
    have "admitted s i t" using inv(1) that by (auto simp: admit_inv_def)
    moreover have "t \<noteq> qc_token q" using tok(1) that by force
    ultimately show ?thesis by (rule_tac admitted_mono) (auto simp: s' same_peer_def)
  qed
  moreover have "set (peers s') = insert (pid, qc_token q) (set (peers s))" using new(1) by (simp add: s' update_fresh)
  moreover have "\<forall>x \<in> set (conn_queue s'). qc_token x < next_token s' \<and> arrived s' (qc_token x) = Some x"
    using inv by (simp add: admit_inv_def s')
  ultimately show ?thesis using books by (auto simp: admit_inv_def)
qed


lemma same_peer_refl [simp]: "same_peer p p"
  by (simp add: same_peer_def)

lemma same_peer_upd [simp]:
  "same_peer p (p\<lparr>peer_wire := w\<rparr>)" "same_peer p (p\<lparr>peer_stop := r\<rparr>)" "same_peer p (p\<lparr>peer_wire := w, peer_dead_writers := d\<rparr>)"
  by (simp_all add: same_peer_def)

lemma admit_store:
  assumes "admit_inv s" "store s t = Some p" "same_peer p p'" "books_inv s'" "s' = s\<lparr>store := (store s)(t \<mapsto> p')\<rparr>"
  shows "admit_inv s'"
  using assms by (intro admit_same [OF assms(1,4)]) (auto split: if_splits)

lemma admit_step:
  assumes "admit_inv s" "pool_step A s s'"
  shows "admit_inv s'"
proof -
  have books: "books_inv s'" using books_step [OF _ assms(2)] assms(1) by (simp add: admit_inv_def)
  note same = admit_same [OF assms(1) books] and upd = admit_store [OF assms(1) _ _ books]
  show ?thesis
    using assms(2)
  proof cases
    case (queue_conn e dir vpid quic r)
    have s': "conn_queue s' = conn_queue s @ [\<lparr>qc_token = next_token s, qc_direction = dir, qc_remote_endpoint = e, qc_verified = vpid, qc_quic = quic\<rparr>]"
        "next_token s' = Suc (next_token s)" "peers s' = peers s" "store s' = store s" "pool_cfg s' = pool_cfg s"
        "protocol_metas s' = protocol_metas s"
        "arrived s' = (arrived s)(next_token s \<mapsto> \<lparr>qc_token = next_token s, qc_direction = dir, qc_remote_endpoint = e, qc_verified = vpid, qc_quic = quic\<rparr>)"
      using queue_push_Some [OF queue_conn(1)] by simp_all
    have "admitted s' pid t" if "(pid, t) \<in> set (peers s)" for pid t
    proof -
      have a: "admitted s pid t" and "books_inv s" using assms(1) that by (auto simp: admit_inv_def)
      have "t \<in># books s" using that by (force simp: books_def)
      then have "t < next_token s" using \<open>books_inv s\<close> by (simp add: books_inv_def)
      then show ?thesis by (intro admitted_mono [OF a]) (simp_all add: s')
    qed
    moreover have "\<forall>q \<in> set (conn_queue s'). qc_token q < next_token s' \<and> arrived s' (qc_token q) = Some q"
      using assms(1) by (auto simp: s' admit_inv_def less_Suc_eq)
    ultimately show ?thesis using books s'(3) by (auto simp: admit_inv_def)
  next
    case (attach i ver flags r)
    then show ?thesis by (elim attach_cases) (rule same, simp_all)
  next
    case (run_loop io)
    from run_loop(2) show ?thesis
    proof (cases rule: run_once_cases)
      case (join q qs pid negotiated p)
      then show ?thesis by (intro admit_join [OF assms(1) join(1-5) join(7) books])
    qed (rule same; auto simp: pool_reject_def)+
  next
    case (disconnect pid t p)
    then show ?thesis using remove_take_cases(2) [OF disconnect(1,4)] by (intro same) (auto simp: AList.delete_eq)
  next
    case (shutdown l1 pid t st l2 p ord st' u)
    from shutdown(6) show ?thesis
      by (cases rule: peer_shutdown_cases) (rule same, use shutdown in \<open>auto split: if_splits\<close>)
  next
    case (bc_one b1 b b2 b' u)
    then show ?thesis by (elim broadcast_one_cases) (rule same, auto split: if_splits)
  next
    case (send sh pid proto msg r)
    then show ?thesis
    proof (cases rule: send_to_cases)
      case (sent t p w)
      then show ?thesis by (intro upd [of t p]) simp_all
    qed (use assms(1) in simp)
  next
    case (writer t p proto w dead ok)
    then show ?thesis by (intro upd [of t p]) simp_all
  next
    case (reader t p c m qs)
    then show ?thesis by (intro upd [of t p]) simp_all
  next
    case (reader_stop t p c m e)
    then show ?thesis by (intro upd [of t p]) simp_all
  next
    case (read_stream t p c i q m q')
    then show ?thesis by (intro upd [of t p]) simp_all
  next
    case (read_stream_stop t p c i q m e)
    then show ?thesis by (intro upd [of t p]) simp_all
  next
    case (protocol_recv t p i ev qs)
    then show ?thesis by (intro upd [of t p]) simp_all
  next
    case (protocol_end t p i res)
    then show ?thesis by (intro upd [of t p]) simp_all
  qed (rule same; simp add: announce_def remove_announce_def)+
qed

interpretation admit_sys: step_invariant "pool_step A" admit_inv
  by unfold_locales (rule admit_step)


subsection \<open>A broadcast that waits for a dead writer\<close>

text \<open>The send queue of a protocol is full and its writer task is over.\<close>

definition stuck :: "protocol_id \<Rightarrow> peer \<Rightarrow> bool" where
  "stuck proto p \<longleftrightarrow> (\<exists>q. wire_send_queue proto (peer_wire p) = Some q \<and> SEND_QUEUE_SIZE \<le> length q
     \<and> writer_key proto (peer_wire p) \<in> peer_dead_writers p)"

definition jammed :: "pool_api \<Rightarrow> broadcasting \<Rightarrow> pool \<Rightarrow> bool" where
  "jammed A b s \<longleftrightarrow> b \<in> set (broadcasts s) \<and> is_ok (proto_enc A \<lparr>pm_protocol_id = bc_protocol b, pm_payload = bc_msg b\<rparr>)
     \<and> (\<exists>pid todo t p. bc_todo b = pid # todo \<and> map_of (peers s) pid = Some t \<and> store s t = Some p \<and> stuck (bc_protocol b) p)"

lemmas wire_defs = wire_send_queue_def writer_key_def wire_send_def single_send_def mux_send_def set_wire_queues_def
  shutdown_signal_def wire_pop_def

lemma stuck_send:
  assumes "stuck proto p" "wire_send A i bs (peer_wire p) = (r, w)"
  shows "stuck proto (p\<lparr>peer_wire := w\<rparr>)"
  using assms by (auto simp: stuck_def wire_defs aq_push_def split: wire.splits sum.splits option.splits if_splits)

lemma stuck_queues [simp]: "peer_wire p = w \<Longrightarrow> stuck proto (p\<lparr>peer_wire := set_wire_queues qs w\<rparr>) = stuck proto p"
  by (cases w) (simp_all add: stuck_def wire_defs)

lemma stuck_stop [simp]: "stuck proto (p\<lparr>peer_stop := r\<rparr>) = stuck proto p"
  by (simp add: stuck_def)

lemma stuck_signal:
  assumes "stuck proto p" "shutdown_signal A (peer_wire p) = Ready (Some w)"
  shows "stuck proto (p\<lparr>peer_wire := w\<rparr>)"
  using assms by (auto simp: stuck_def wire_defs aq_push_def split: wire.splits sum.splits option.splits if_splits)

lemma stuck_writer:
  assumes "stuck proto p" "writer_key i (peer_wire p) \<notin> peer_dead_writers p" "wire_pop i (peer_wire p) = Some w"
    "peer_dead_writers p \<subseteq> dead"
  shows "stuck proto (p\<lparr>peer_wire := w, peer_dead_writers := dead\<rparr>)"
  using assms by (auto simp: stuck_def wire_defs split: wire.splits option.splits prod.splits)

lemma stuck_pending:
  assumes "stuck proto p" "is_ok (proto_enc A \<lparr>pm_protocol_id = proto, pm_payload = bs\<rparr>)"
  shows "fst (wire_send A proto bs (peer_wire p)) = Pending"
  using assms by (auto simp: stuck_def wire_defs aq_push_def is_ok_def peer_net_msg_new_def p2p_encode_def map_err_def
      split: wire.splits sum.splits option.splits if_splits)

lemma jam_store:
  assumes "jammed A b s" "peers s' = peers s" "b \<in> set (broadcasts s')" "store s' = (store s)(t \<mapsto> p')" "store s t = Some p"
    "stuck (bc_protocol b) p \<Longrightarrow> stuck (bc_protocol b) p'"
  shows "jammed A b s'"
proof -
  obtain pid todo u o1 where o: "bc_todo b = pid # todo" "map_of (peers s) pid = Some u" "store s u = Some o1" "stuck (bc_protocol b) o1"
    using assms(1) unfolding jammed_def by blast
  then have "\<exists>o2. store s' u = Some o2 \<and> stuck (bc_protocol b) o2" using assms(4-6) by (cases "u = t") auto
  then show ?thesis using assms(1-3) o(1,2) unfolding jammed_def by auto
qed

lemma jam_same: "\<lbrakk>jammed A b s; peers s' = peers s; b \<in> set (broadcasts s'); store s' = store s\<rbrakk> \<Longrightarrow> jammed A b s'"
  unfolding jammed_def by auto

lemma jam_shutdown:
  assumes "peer_shutdown A ord t st s = Some (st', s')"
  obtains p p' where "store s t = Some p" "store s' = (store s)(t \<mapsto> p')" "\<And>i. stuck i p \<Longrightarrow> stuck i p'"
proof -
  obtain p where p: "store s t = Some p" using assms by (cases "store s t") (auto simp: peer_shutdown_def)
  have "\<exists>p'. store s' = (store s)(t \<mapsto> p') \<and> (\<forall>i. stuck i p \<longrightarrow> stuck i p')"
    using assms p
    by (auto simp: peer_shutdown_def shut_done_def Let_def split: leave_stage.splits poll.splits option.splits prod.splits if_splits
        intro: exI [of _ "p\<lparr>peer_stop := _\<rparr>"] stuck_signal)
  then show ?thesis using that p by blast
qed


lemma jam_step:
  assumes "jammed A b s" "pool_step A s s'"
  shows "jammed A b s' \<and> peers s' = peers s"
proof -
  have b: "b \<in> set (broadcasts s)" "bc_todo b \<noteq> []" using assms(1) by (auto simp: jammed_def)
  note same = conjI [OF jam_same [OF assms(1)]] and upd = conjI [OF jam_store [OF assms(1)]]
  show ?thesis
    using assms(2)
  proof cases
    case (queue_conn e dir vpid quic r)
    then show ?thesis using b by (auto dest!: queue_push_Some intro!: jam_same [OF assms(1)])
  next
    case (attach i ver flags r)
    then show ?thesis using b by (elim attach_cases) (auto intro!: jam_same [OF assms(1)])
  next
    case (run_loop io)
    from run_loop(2) show ?thesis
      by (cases rule: run_once_cases) (use b in \<open>auto simp: pool_reject_def intro!: jam_same [OF assms(1)]\<close>)
  next
    case (disconnect pid t p)
    then show ?thesis using b remove_take_cases(1) [OF disconnect(1,4)] by simp
  next
    case (shutdown l1 pid t st l2 p ord st' u)
    obtain p' where p': "store u = (store s)(t \<mapsto> p')" "\<And>i. stuck i p \<Longrightarrow> stuck i p'"
      using jam_shutdown [OF shutdown(6)] shutdown(3) by (metis option.inject)
    have "peers u = peers s \<and> broadcasts u = broadcasts s" using shutdown(6) by (cases rule: peer_shutdown_cases) simp
    then show ?thesis using shutdown p' b by (intro upd [of _ t p' p]) simp_all
  next
    case (bc_one b1 c b2 c' u)
    from bc_one(3) show ?thesis
    proof (cases rule: broadcast_one_cases)
      case (1 pid todo t p r w)
      have "c \<noteq> b"
      proof
        assume "c = b"
        then have "stuck (bc_protocol b) p" "is_ok (proto_enc A \<lparr>pm_protocol_id = bc_protocol b, pm_payload = bc_msg b\<rparr>)"
          using assms(1) 1 by (auto simp: jammed_def)
        from stuck_pending [OF this] show False using 1 \<open>c = b\<close> by simp
      qed
      then have "b \<in> set (broadcasts s')" using b(1) bc_one by auto
      then show ?thesis using 1 bc_one(1) stuck_send [OF _ 1(4)] by (intro upd [of _ t "p\<lparr>peer_wire := w\<rparr>" p]) simp_all
    qed
  next
    case (bc_end b1 c b2)
    then have "c \<noteq> b" using b(2) by auto
    then show ?thesis using b(1) bc_end by (intro same) auto
  next
    case (send sh pid proto msg r)
    then show ?thesis
    proof (cases rule: send_to_cases)
      case (sent t p w)
      then show ?thesis using b(1) stuck_send [OF _ sent(3)] by (intro upd [of _ t "p\<lparr>peer_wire := w\<rparr>" p]) simp_all
    qed (use assms(1) in simp)
  next
    case (writer t p proto w dead ok)
    have "peer_dead_writers p \<subseteq> dead" using writer(5) by auto
    then have "stuck i (p\<lparr>peer_wire := w, peer_dead_writers := dead\<rparr>)" if "stuck i p" for i
      using stuck_writer [OF that writer(3,4)] by blast
    then show ?thesis using b(1) writer by (intro upd [of _ t "p\<lparr>peer_wire := w, peer_dead_writers := dead\<rparr>" p]) simp_all
  next
    case (reader t p c m qs)
    then show ?thesis using b(1) by (intro upd [of _ t "p\<lparr>peer_wire := set_wire_queues qs (peer_wire p)\<rparr>" p]) simp_all
  next
    case (read_stream t p c i q m q')
    then show ?thesis using b(1)
      by (intro upd [of _ t "p\<lparr>peer_wire := set_wire_queues ((mux_recv_queues c)(i \<mapsto> q')) (peer_wire p)\<rparr>" p]) simp_all
  next
    case (reader_stop t p c m e)
    then show ?thesis using b(1) by (intro upd [of _ t "p\<lparr>peer_stop := try_stop (Inl e) (peer_stop p)\<rparr>" p]) simp_all
  next
    case (read_stream_stop t p c i q m e)
    then show ?thesis using b(1) by (intro upd [of _ t "p\<lparr>peer_stop := try_stop (Inl e) (peer_stop p)\<rparr>" p]) simp_all
  next
    case (protocol_recv t p i ev qs)
    then show ?thesis using b(1) by (intro upd [of _ t "p\<lparr>peer_wire := set_wire_queues qs (peer_wire p)\<rparr>" p]) simp_all
  next
    case (protocol_end t p i res)
    then show ?thesis using b(1) by (intro upd [of _ t "p\<lparr>peer_stop := try_stop res (peer_stop p)\<rparr>" p]) simp_all
  qed (use b(1) in \<open>auto simp: announce_def remove_announce_def intro!: jam_same [OF assms(1)]\<close>)
qed

interpretation jam_sys: step_invariant "pool_step A" "\<lambda>s'. jammed A b s' \<and> peers s' = ps"
  by unfold_locales (auto dest: jam_step)


section \<open>An example run\<close>

definition ex_pool_api :: pool_api where
  "ex_pool_api = \<lparr>hs = ex_hs_api, proto_enc = (\<lambda>m. Inr (pm_payload m)), proto_dec = (\<lambda>b. Inr (\<lparr>pm_protocol_id = ''ping'', pm_payload = b\<rparr>, 0)),
     shut_enc = (\<lambda>_. Inr []), init_enc = (\<lambda>p. Inr (replicate (length p) 0)), init_dec = (\<lambda>b. Inr (''ping'', 0)), enc16 = (\<lambda>_. Inr [0, 0])\<rparr>"

definition ex_cfg :: p2p_config where
  "ex_cfg = \<lparr>cfg_version = ex_version, enable_monitor = False, cfg_access_control = allow_all,
        handshake_timeout = 4, ping_interval = 20, ping_timeout = 2, max_connect_retries = 3,
        bootstrap_peers = [], listen_endpoints = [], discovery_endpoints = [], dial_peers = [], public_ip = None,
        inbound_slots = 12, outbound_slots = 12, seeding_interval = 60,
        lookup_inbound_slots = 20, lookup_outbound_slots = 20, lookup_response_timeout = 1,
        lookup_connection_lifespan = 3, lookup_connect_retries = 3,
        refresh_interval = 1800, refresh_response_timeout = 1, refresh_connect_retries = 3\<rparr>"

definition ex_pid :: peer_id where
  "ex_pid = replicate 32 2"

definition ex_conn :: queued_conn where
  "ex_conn = \<lparr>qc_token = 0, qc_direction = Inbound, qc_remote_endpoint = Tcp (Domain ''x'') 1, qc_verified = None, qc_quic = False\<rparr>"

definition ex_io :: conn_io where
  "ex_io = \<lparr>io_werr = (\<lambda>_. None), io_msgs = [HsMsg (ex_msg CmdVersion ex_pid), HsMsg (ex_msg CmdVerack (ex_pid @ [1]))],
     io_heads = [], io_open_err = (\<lambda>_. None), io_expired = False\<rparr>"

definition ex_peer :: "peer_net_msg list \<Rightarrow> protocol_id option set \<Rightarrow> peer" where
  "ex_peer q dead = \<lparr>peer_ident = ex_pid, peer_direction = Inbound, peer_endpoint = Tcp (Domain ''x'') 1,
     peer_wire = WSingle \<lparr>send_queue = q, recv_queues = build_recv_queues [''ping'']\<rparr>, peer_protocols = [''ping''],
     peer_stop = None, peer_dead_writers = dead\<rparr>"

definition ex_attached :: pool where
  "ex_attached = (pool_new (replicate 32 1) ex_cfg)\<lparr>protocols := [''ping''],
     protocol_metas := [(''ping'', \<lparr>meta_version = ex_version, meta_flags = PREFERRED\<rparr>)]\<rparr>"

definition ex_queued :: pool where
  "ex_queued = ex_attached\<lparr>conn_queue := [ex_conn], next_token := 1, arrived := [0 \<mapsto> ex_conn]\<rparr>"

definition ex_joined :: pool where
  "ex_joined = ex_attached\<lparr>next_token := 1, arrived := [0 \<mapsto> ex_conn], store := [0 \<mapsto> ex_peer [] {}], peers := [(ex_pid, 0)],
     announcing := Some ex_pid\<rparr>"

definition ex_running :: "peer_net_msg list \<Rightarrow> protocol_id option set \<Rightarrow> broadcasting list \<Rightarrow> pool" where
  "ex_running q dead bcs = ex_attached\<lparr>next_token := 1, arrived := [0 \<mapsto> ex_conn], store := [0 \<mapsto> ex_peer q dead], peers := [(ex_pid, 0)],
     emitted := [Added ex_pid], monitored := [NewPeer ex_pid], broadcasts := bcs\<rparr>"

lemma ex_handshake:
  "fst (handshake ex_hs_api (pool_params ex_queued ex_conn) (\<lambda>_. None)
     [HsMsg (ex_msg CmdVersion ex_pid), HsMsg (ex_msg CmdVerack (ex_pid @ [1]))]) = Inr (ex_pid, [''ping''])"
proof -
  have "pool_params ex_queued ex_conn = (ex_params 1 [''ping''])\<lparr>timeout_secs := 4\<rparr>"
    by (simp add: pool_params_def ex_queued_def ex_attached_def pool_new_def ex_conn_def ex_params_def ex_cfg_def)
  moreover have "fst (handshake ex_hs_api ((ex_params 1 [''ping''])\<lparr>timeout_secs := 4\<rparr>) (\<lambda>_. None)
     [HsMsg (ex_msg CmdVersion ex_pid), HsMsg (ex_msg CmdVerack (ex_pid @ [1]))]) = Inr (ex_pid, [''ping''])" by code_simp
  ultimately show ?thesis by simp
qed

lemma ex_joined_reach: "(pool_step ex_pool_api)\<^sup>*\<^sup>* (pool_new (replicate 32 1) ex_cfg) ex_joined"
proof -
  let ?s = "pool_new (replicate 32 1) ex_cfg"
  have "attach_protocol ''ping'' (Inr ex_version) PREFERRED ?s = (Inr (), ex_attached)"
    by (simp add: attach_protocol_def ex_attached_def pool_new_def)
  then have 1: "pool_step ex_pool_api ?s ex_attached" by (rule pool_step.attach)
  have "queue_push (Some (Tcp (Domain ''x'') 1)) Inbound None False ex_attached = (Inr 0, ex_queued)"
    by (simp add: queue_push_def ex_queued_def ex_attached_def pool_new_def ex_conn_def Let_def)
  then have 2: "pool_step ex_pool_api ex_attached ex_queued" by (rule pool_step.queue_conn)
  have "run_once ex_pool_api ex_io ex_queued = Ready ex_joined"
    using ex_handshake
    by (simp add: run_once_def queue_next_def ex_queued_def ex_attached_def pool_new_def ex_joined_def ex_io_def ex_pool_api_def ex_cfg_def
        allow_all_def new_peer_def contains_peer_def peer_new_def timeout_def select_def from_queued_def ex_conn_def ex_peer_def
        single_from_queued_def)
  moreover have "announcing ex_queued = None" by (simp add: ex_queued_def ex_attached_def pool_new_def)
  ultimately have 3: "pool_step ex_pool_api ex_queued ex_joined" by (blast intro: pool_step.run_loop)
  show ?thesis using 1 2 3 by (meson converse_rtranclp_into_rtranclp rtranclp.rtrancl_refl)
qed

lemma ex_running_reach: "(pool_step ex_pool_api)\<^sup>*\<^sup>* (pool_new (replicate 32 1) ex_cfg) (ex_running [] {} [])"
proof -
  have "announcing ex_joined = Some ex_pid" by (simp add: ex_joined_def)
  from pool_step.announce [OF this] have "pool_step ex_pool_api ex_joined (ex_running [] {} [])"
    by (simp add: announce_def ex_joined_def ex_running_def ex_attached_def pool_new_def)
  with ex_joined_reach show ?thesis by (rule rtranclp.rtrancl_into_rtrancl)
qed


text \<open>A peer that ends at once, while the run loop has still to report it.\<close>

definition ex_leaving :: "wire \<Rightarrow> leave_stage list \<Rightarrow> (nat \<times> (p2p_error + unit)) list \<Rightarrow> peer_event list \<Rightarrow> pool_event list \<Rightarrow> peer_id option \<Rightarrow> pool" where
  "ex_leaving w stages cl em mon ann = ex_attached\<lparr>next_token := 1, arrived := [0 \<mapsto> ex_conn],
     store := [0 \<mapsto> (ex_peer [] {})\<lparr>peer_wire := w, peer_stop := Some (Inr ())\<rparr>], announcing := ann,
     leaving := map (\<lambda>st. (ex_pid, 0, st)) stages, closed := cl, emitted := em, monitored := mon\<rparr>"

definition ex_wire :: "peer_net_msg list \<Rightarrow> protocol_event list \<Rightarrow> wire" where
  "ex_wire q r = WSingle \<lparr>send_queue = q, recv_queues = [''ping'' \<mapsto> r]\<rparr>"

definition ex_shutdown :: peer_net_msg where
  "ex_shutdown = \<lparr>header = \<lparr>command = CmdShutdown\<rparr>, payload = []\<rparr>"

lemma ex_leave_steps:
  "(pool_step ex_pool_api)\<^sup>*\<^sup>* ex_joined (ex_leaving (ex_wire [] []) [LeaveStart] [] [] [] (Some ex_pid))"
  "pool_step ex_pool_api (ex_leaving (ex_wire [] []) [LeaveStart] [] [] [] (Some ex_pid))
     (ex_leaving (ex_wire [ex_shutdown] []) [LeaveWait [''ping'']] [] [] [] (Some ex_pid))"
  "pool_step ex_pool_api (ex_leaving (ex_wire [ex_shutdown] []) [LeaveWait [''ping'']] [] [] [] (Some ex_pid))
     (ex_leaving (ex_wire [ex_shutdown] [EvShutdown]) [LeaveShut] [(0, Inr ())] [] [] (Some ex_pid))"
  "pool_step ex_pool_api (ex_leaving (ex_wire [ex_shutdown] [EvShutdown]) [LeaveShut] [(0, Inr ())] [] [] (Some ex_pid))
     (ex_leaving (ex_wire [ex_shutdown] [EvShutdown]) [] [(0, Inr ())] [Removed ex_pid] [RemovePeer ex_pid] (Some ex_pid))"
  "pool_step ex_pool_api (ex_leaving (ex_wire [ex_shutdown] [EvShutdown]) [] [(0, Inr ())] [Removed ex_pid] [RemovePeer ex_pid] (Some ex_pid))
     (ex_leaving (ex_wire [ex_shutdown] [EvShutdown]) [] [(0, Inr ())] [Removed ex_pid, Added ex_pid] [RemovePeer ex_pid, NewPeer ex_pid] None)"
proof -
  let ?stopped = "ex_joined\<lparr>store := [0 \<mapsto> (ex_peer [] {})\<lparr>peer_stop := Some (Inr ())\<rparr>]\<rparr>"
  have "store ex_joined 0 = Some (ex_peer [] {})" "''ping'' \<in> set (run_connect_protocols (protocols ex_joined) (ex_peer [] {}))"
    by (simp_all add: ex_joined_def ex_attached_def run_connect_protocols_def ex_peer_def)
  from pool_step.protocol_end [OF this, of ex_pool_api "Inr ()"]
  have 1: "pool_step ex_pool_api ex_joined ?stopped" by (simp add: ex_peer_def try_stop_def ex_joined_def)
  have 2: "pool_step ex_pool_api ?stopped (ex_leaving (ex_wire [] []) [LeaveStart] [] [] [] (Some ex_pid))"
    by (rule pool_step.disconnect [of _ ex_pid 0 "(ex_peer [] {})\<lparr>peer_stop := Some (Inr ())\<rparr>"])
       (simp_all add: ex_joined_def ex_attached_def pool_new_def remove_take_def ex_leaving_def ex_peer_def ex_wire_def build_recv_queues_def)
  show "(pool_step ex_pool_api)\<^sup>*\<^sup>* ex_joined (ex_leaving (ex_wire [] []) [LeaveStart] [] [] [] (Some ex_pid))"
    using 1 2 by (meson converse_rtranclp_into_rtranclp rtranclp.rtrancl_refl)
next
  let ?s = "ex_leaving (ex_wire [] []) [LeaveStart] [] [] [] (Some ex_pid)"
  have "peer_shutdown ex_pool_api [''ping''] 0 LeaveStart ?s
      = Some (LeaveWait [''ping''], ?s\<lparr>store := [0 \<mapsto> (ex_peer [] {})\<lparr>peer_wire := ex_wire [ex_shutdown] [], peer_stop := Some (Inr ())\<rparr>]\<rparr>)"
    by (simp add: peer_shutdown_def ex_leaving_def shutdown_signal_def ex_wire_def ex_pool_api_def peer_net_msg_new_def p2p_encode_def
        map_err_def aq_push_def SEND_QUEUE_SIZE_def ex_shutdown_def ex_peer_def)
  from pool_step.shutdown [OF _ _ _ _ this, of "[]" ex_pid "[]" "(ex_peer [] {})\<lparr>peer_wire := ex_wire [] [], peer_stop := Some (Inr ())\<rparr>"]
  show "pool_step ex_pool_api ?s (ex_leaving (ex_wire [ex_shutdown] []) [LeaveWait [''ping'']] [] [] [] (Some ex_pid))"
    by (simp add: ex_leaving_def ex_peer_def ex_wire_def wire_queues_def ex_attached_def pool_new_def)
next
  let ?s = "ex_leaving (ex_wire [ex_shutdown] []) [LeaveWait [''ping'']] [] [] [] (Some ex_pid)"
  have "peer_shutdown ex_pool_api [''ping''] 0 (LeaveWait [''ping'']) ?s
      = Some (LeaveShut, ?s\<lparr>store := [0 \<mapsto> (ex_peer [] {})\<lparr>peer_wire := ex_wire [ex_shutdown] [EvShutdown], peer_stop := Some (Inr ())\<rparr>],
          closed := [(0, Inr ())]\<rparr>)"
    by (simp add: peer_shutdown_def ex_leaving_def ex_wire_def wire_queues_def aq_push_def RECV_QUEUE_SIZE_def set_wire_queues_def
        shut_done_def try_stop_def ex_peer_def)
  from pool_step.shutdown [OF _ _ _ _ this, of "[]" ex_pid "[]" "(ex_peer [] {})\<lparr>peer_wire := ex_wire [ex_shutdown] [], peer_stop := Some (Inr ())\<rparr>"]
  show "pool_step ex_pool_api ?s (ex_leaving (ex_wire [ex_shutdown] [EvShutdown]) [LeaveShut] [(0, Inr ())] [] [] (Some ex_pid))"
    by (simp add: ex_leaving_def ex_peer_def ex_wire_def wire_queues_def ex_attached_def pool_new_def)
next
  let ?s = "ex_leaving (ex_wire [ex_shutdown] [EvShutdown]) [LeaveShut] [(0, Inr ())] [] [] (Some ex_pid)"
  have "leaving ?s = [] @ (ex_pid, 0, LeaveShut) # []" by (simp add: ex_leaving_def)
  from pool_step.removed [OF this, of ex_pool_api]
  show "pool_step ex_pool_api ?s (ex_leaving (ex_wire [ex_shutdown] [EvShutdown]) [] [(0, Inr ())] [Removed ex_pid] [RemovePeer ex_pid] (Some ex_pid))"
    by (simp add: ex_leaving_def remove_announce_def ex_attached_def pool_new_def)
next
  let ?s = "ex_leaving (ex_wire [ex_shutdown] [EvShutdown]) [] [(0, Inr ())] [Removed ex_pid] [RemovePeer ex_pid] (Some ex_pid)"
  have "announcing ?s = Some ex_pid" by (simp add: ex_leaving_def)
  from pool_step.announce [OF this, of ex_pool_api]
  show "pool_step ex_pool_api ?s (ex_leaving (ex_wire [ex_shutdown] [EvShutdown]) [] [(0, Inr ())] [Removed ex_pid, Added ex_pid] [RemovePeer ex_pid, NewPeer ex_pid] None)"
    by (simp add: ex_leaving_def announce_def ex_attached_def pool_new_def)
qed

text \<open>Broadcasts fill the send queue of a peer whose writer has failed.\<close>

definition ex_bc :: "peer_id list \<Rightarrow> broadcasting" where
  "ex_bc todo = \<lparr>bc_protocol = ''ping'', bc_msg = [7], bc_todo = todo\<rparr>"

definition ex_net :: peer_net_msg where
  "ex_net = \<lparr>header = \<lparr>command = CmdProtocol\<rparr>, payload = [7]\<rparr>"

lemma ex_bc_begin: "pool_step ex_pool_api (ex_running q dead []) (ex_running q dead [ex_bc [ex_pid]])"
  using pool_step.bc_begin [of ex_pool_api "ex_running q dead []" "''ping''" "[7]" None]
  by (simp add: ex_running_def broadcast_begin_def ex_bc_def)

lemma ex_bc_one:
  assumes "length q < SEND_QUEUE_SIZE"
  shows "pool_step ex_pool_api (ex_running q dead [ex_bc [ex_pid]]) (ex_running (q @ [ex_net]) dead [ex_bc []])"
proof -
  have "broadcast_one ex_pool_api (ex_bc [ex_pid]) (ex_running q dead [ex_bc [ex_pid]]) = Some (ex_bc [], ex_running (q @ [ex_net]) dead [ex_bc [ex_pid]])"
    using assms by (simp add: broadcast_one_def ex_bc_def ex_running_def wire_send_def ex_peer_def single_send_def peer_net_msg_new_def
        p2p_encode_def map_err_def ex_pool_api_def aq_push_def ex_net_def)
  from pool_step.bc_one [OF _ this, of "[]" "[]"] show ?thesis by (simp add: ex_running_def)
qed

lemma ex_bc_end: "pool_step ex_pool_api (ex_running q dead [ex_bc []]) (ex_running q dead [])"
  using pool_step.bc_end [of "ex_running q dead [ex_bc []]" "[]" "ex_bc []" "[]" ex_pool_api]
  by (simp add: ex_running_def ex_bc_def)

lemma ex_fill: "n \<le> SEND_QUEUE_SIZE \<Longrightarrow> (pool_step ex_pool_api)\<^sup>*\<^sup>* (ex_running [] dead []) (ex_running (replicate n ex_net) dead [])"
proof (induction n)
  case (Suc n)
  let ?q = "replicate n ex_net"
  have l: "length ?q < SEND_QUEUE_SIZE" using Suc.prems by simp
  have "?q @ [ex_net] = replicate (Suc n) ex_net" by (simp add: replicate_append_same)
  then have "(pool_step ex_pool_api)\<^sup>*\<^sup>* (ex_running ?q dead []) (ex_running (replicate (Suc n) ex_net) dead [])"
    using ex_bc_begin [of ?q dead] ex_bc_one [OF l, of dead] ex_bc_end [of "replicate (Suc n) ex_net" dead]
    by (metis (no_types, lifting) converse_rtranclp_into_rtranclp rtranclp.rtrancl_refl)
  then show ?case using Suc by (meson Suc_leD rtranclp_trans)
qed simp

lemma ex_writer_fails: "pool_step ex_pool_api (ex_running [ex_net] {} []) (ex_running [] {None} [])"
  using pool_step.writer [of "ex_running [ex_net] {} []" 0 "ex_peer [ex_net] {}" "''ping''" "peer_wire (ex_peer [] {})" "{None}" False ex_pool_api]
  by (simp add: ex_running_def ex_peer_def writer_key_def wire_pop_def wire_send_queue_def aq_recv_def ex_attached_def pool_new_def)

lemma ex_jam_reach:
  defines "s \<equiv> ex_running (replicate SEND_QUEUE_SIZE ex_net) {None} [ex_bc [ex_pid]]"
  shows "(pool_step ex_pool_api)\<^sup>*\<^sup>* (pool_new (replicate 32 1) ex_cfg) s" "jammed ex_pool_api (ex_bc [ex_pid]) s"
proof -
  have "(pool_step ex_pool_api)\<^sup>*\<^sup>* (ex_running [] {} []) (ex_running [ex_net] {} [])"
    using ex_fill [of 1 "{}"] by (simp add: SEND_QUEUE_SIZE_def)
  moreover have "(pool_step ex_pool_api)\<^sup>*\<^sup>* (ex_running [] {None} []) (ex_running (replicate SEND_QUEUE_SIZE ex_net) {None} [])"
    by (rule ex_fill) simp
  ultimately show "(pool_step ex_pool_api)\<^sup>*\<^sup>* (pool_new (replicate 32 1) ex_cfg) s"
    unfolding s_def using ex_running_reach ex_writer_fails ex_bc_begin
    by (meson rtranclp.rtrancl_into_rtrancl rtranclp_trans)
  show "jammed ex_pool_api (ex_bc [ex_pid]) s"
    by (simp add: s_def jammed_def ex_running_def ex_bc_def stuck_def ex_peer_def wire_send_queue_def writer_key_def ex_pool_api_def is_ok_def)
qed


section \<open>Properties\<close>

lemma inv_new: "books_inv (pool_new i cfg)" "events_inv (pool_new i cfg)" "admit_inv (pool_new i cfg)"
  by (simp_all add: books_inv_def books_def open_leaving_def events_inv_def balanced_def leaving_of_def admit_inv_def pool_new_def)

text \<open>C1. No connection is lost or reported twice, in any interleaving of the tasks of the pool: each
  connection ever queued is, exactly once, either waiting in the queue, owned by one peer in the map, owned by one
  peer that is shutting down, or reported closed to the task that queued it, which then frees its slot.\<close>

theorem pool_accounts:
  assumes "(pool_step A)\<^sup>*\<^sup>* (pool_new i cfg) s"
  shows "mset (map fst (closed s)) + mset (map qc_token (conn_queue s)) + mset (map snd (peers s)) + mset (open_leaving s)
     = mset [0..<next_token s]"
  using books_sys.reachable_inv [OF assms inv_new(1)] by (simp add: books_inv_def books_def)

theorem pool_accounts_witness:
  "mset (map fst (closed ex_joined)) + mset (map qc_token (conn_queue ex_joined)) + mset (map snd (peers ex_joined)) + mset (open_leaving ex_joined)
     = mset [0..<next_token ex_joined]"
  by (rule pool_accounts [OF ex_joined_reach])



text \<open>The lifecycle events balance: in every reachable state and for every identity, the number of reports that it was
  added, counting one that is due, is the number of reports that it was removed, plus the removals under way,
  plus one if it is in the map.\<close>

lemma pool_events_balance:
  assumes "(pool_step A)\<^sup>*\<^sup>* (pool_new i cfg) s"
  shows "count_list (emitted s) (Added pid) + (if announcing s = Some pid then 1 else 0)
     = count_list (emitted s) (Removed pid) + count_list (map fst (leaving s)) pid + (if contains_peer pid s then 1 else 0)"
  using events_sys.reachable_inv [OF assms inv_new(2)]
  by (simp add: events_inv_def balanced_def leaving_of_def contains_peer_def map_of_eq_None_iff)

lemma pool_events_balance_witness:
  "count_list (emitted ex_joined) (Added ex_pid) + (if announcing ex_joined = Some ex_pid then 1 else 0)
     = count_list (emitted ex_joined) (Removed ex_pid) + count_list (map fst (leaving ex_joined)) ex_pid + (if contains_peer ex_pid ex_joined then 1 else 0)"
  by (rule pool_events_balance [OF ex_joined_reach])

text \<open>The order of these events is not guaranteed: a peer that ends before the run loop has reported it can be
  reported as removed first and as added afterwards, so that the last event a listener sees for it is the
  addition although the pool is empty and nothing is under way.\<close>

lemma pool_removed_before_added:
  "\<exists>A i cfg s pid. (pool_step A)\<^sup>*\<^sup>* (pool_new i cfg) s \<and> emitted s = [Removed pid, Added pid]
     \<and> peers s = [] \<and> leaving s = [] \<and> announcing s = None \<and> conn_queue s = []"
proof -
  let ?s = "ex_leaving (ex_wire [ex_shutdown] [EvShutdown]) [] [(0, Inr ())] [Removed ex_pid, Added ex_pid] [RemovePeer ex_pid, NewPeer ex_pid] None"
  have "(pool_step ex_pool_api)\<^sup>*\<^sup>* (pool_new (replicate 32 1) ex_cfg) ?s"
    using ex_joined_reach ex_leave_steps by (meson rtranclp.rtrancl_into_rtrancl rtranclp_trans)
  moreover have "emitted ?s = [Removed ex_pid, Added ex_pid] \<and> peers ?s = [] \<and> leaving ?s = [] \<and> announcing ?s = None \<and> conn_queue ?s = []"
    by (simp add: ex_leaving_def ex_attached_def pool_new_def)
  ultimately show ?thesis by blast
qed



end
