(* ===== verification/P2p_Tls.thy ===== *)
theory P2p_Tls
  imports P2p_Types
begin

text \<open>
  Identities and secure transport: key pairs (\<open>core/src/crypto/key_pair.rs\<close>), peer ids
  (\<open>p2p/src/peer/peer_id.rs\<close>) and the certificates that bind a TLS session to a peer id
  (\<open>p2p/src/tls_config.rs\<close>).  Ed25519, X.509, DER, base64 and SHA-256 are arguments.
\<close>

section \<open>External code\<close>

text \<open>\<open>vk_from_bytes\<close> is \<open>VerifyingKey::from_bytes\<close> on 32 bytes, which fails on bytes that are no curve point;
  \<open>ed_sign\<close> signs with a secret key; \<open>ed_public\<close> derives the public key.\<close>

record ed25519_api =
  vk_ok :: "bytes \<Rightarrow> bool"
  vk_is_weak :: "bytes \<Rightarrow> bool"
  verify_strict :: "bytes \<Rightarrow> bytes \<Rightarrow> bytes \<Rightarrow> bool"
  ed_sign :: "bytes \<Rightarrow> bytes \<Rightarrow> bytes"
  ed_public :: "bytes \<Rightarrow> bytes"

text \<open>The fields of a parsed certificate the code reads.\<close>

record x509 =
  x_valid :: bool
  x_extensions :: "(nat list \<times> bytes) list"
  x_spki_raw :: bytes
  x_subject_key :: bytes
  x_tbs :: bytes
  x_signature :: bytes

text \<open>The X.509 parser and generator, and the DER coding of a pair of byte strings.  \<open>cert_build\<close> is the
  self-signed certificate of a certificate key with one custom extension, or an error;
  \<open>cert_spki\<close> the public key info of a certificate key.\<close>

record cert_api =
  parse_x509 :: "bytes \<Rightarrow> x509 option"
  der_enc :: "bytes \<times> bytes \<Rightarrow> bytes"
  der_dec :: "bytes \<Rightarrow> (bytes \<times> bytes) option"
  cert_build :: "bytes \<Rightarrow> nat list \<times> bytes \<Rightarrow> string + bytes"
  cert_spki :: "bytes \<Rightarrow> bytes"

record b64_api =
  b64_encode :: "bytes \<Rightarrow> string"
  b64_decode :: "string \<Rightarrow> string + bytes"

section \<open>Keys\<close>

datatype key_pair = KpEd25519 bytes

datatype public_key = PkEd25519 bytes

definition kp_sign :: "ed25519_api \<Rightarrow> key_pair \<Rightarrow> bytes \<Rightarrow> bytes" where
  "kp_sign E kp msg = (case kp of KpEd25519 sk \<Rightarrow> ed_sign E sk msg)"

definition kp_public :: "ed25519_api \<Rightarrow> key_pair \<Rightarrow> public_key" where
  "kp_public E kp = (case kp of KpEd25519 sk \<Rightarrow> PkEd25519 (ed_public E sk))"

definition kp_secret :: "key_pair \<Rightarrow> bytes" where
  "kp_secret kp = (case kp of KpEd25519 sk \<Rightarrow> sk)"

definition ed_from_bytes :: "ed25519_api \<Rightarrow> bytes \<Rightarrow> core_error + bytes" where
  "ed_from_bytes E pk =
     (if length pk \<noteq> 32 then Inl (TryInto ''Failed to convert slice to [u8; 32]'')
      else if \<not> vk_ok E pk then Inl (Ed25519 ''signature error'')
      else if vk_is_weak E pk then Inl (Ed25519 ''signature error'')
      else Inr pk)"

definition pk_from_bytes :: "ed25519_api \<Rightarrow> bytes \<Rightarrow> core_error + public_key" where
  "pk_from_bytes E pk = res_bind (ed_from_bytes E pk) (\<lambda>k. Inr (PkEd25519 k))"

definition pk_as_bytes :: "public_key \<Rightarrow> bytes" where
  "pk_as_bytes pk = (case pk of PkEd25519 k \<Rightarrow> k)"

definition pk_verify :: "ed25519_api \<Rightarrow> public_key \<Rightarrow> bytes \<Rightarrow> bytes \<Rightarrow> core_error + unit" where
  "pk_verify E pk msg signature = (case pk of PkEd25519 k \<Rightarrow>
     (if length signature \<noteq> 64 then Inl (TryInto ''Failed to convert slice to [u8; 64]'')
      else if verify_strict E k msg signature then Inr () else Inl (Ed25519 ''signature error'')))"


section \<open>Peer ids\<close>

definition peer_id_display :: "b64_api \<Rightarrow> peer_id \<Rightarrow> string" where
  "peer_id_display B pid = b64_encode B pid"

definition peer_id_try_from_string :: "b64_api \<Rightarrow> string \<Rightarrow> p2p_error + peer_id" where
  "peer_id_try_from_string B i = res_bind (map_err Base64Decode (b64_decode B i)) (\<lambda>r.
     if length r = 32 then Inr r else Inl PeerIDTryFromString)"

definition peer_id_try_from_public_key :: "public_key \<Rightarrow> p2p_error + peer_id" where
  "peer_id_try_from_public_key pk = (if length (pk_as_bytes pk) = 32 then Inr (pk_as_bytes pk) else Inl PeerIDTryFromPublicKey)"

definition peer_id_new :: "(bytes \<Rightarrow> bytes) \<Rightarrow> bytes \<Rightarrow> peer_id" where
  "peer_id_new sha256 src = sha256 src"

section \<open>Certificates\<close>

datatype tls_error = BadSignature | BadEncoding | NotValidYet | ApplicationVerificationFailure

definition PEER_ID_EXT_OID :: "nat list" where "PEER_ID_EXT_OID = [0, 0, 0, 0]"

text \<open>\<open>generate_cert\<close>; \<open>csk\<close> is the fresh certificate key, or the error of generating it.\<close>

definition generate_cert :: "ed25519_api \<Rightarrow> cert_api \<Rightarrow> key_pair \<Rightarrow> string + bytes \<Rightarrow> p2p_error + bytes \<times> bytes" where
  "generate_cert E C kp csk = res_bind (map_err Rcgen csk) (\<lambda>cert_key.
     let signature = kp_sign E kp (cert_spki C cert_key);
         ext_content = der_enc C (pk_as_bytes (kp_public E kp), signature)
     in res_bind (map_err Rcgen (cert_build C cert_key (PEER_ID_EXT_OID, ext_content))) (\<lambda>cert. Inr (cert, cert_key)))"

definition parse_cert :: "cert_api \<Rightarrow> bytes \<Rightarrow> tls_error + x509" where
  "parse_cert C end_entity = (case parse_x509 C end_entity of
      None \<Rightarrow> Inl BadEncoding
    | Some cert \<Rightarrow> (if \<not> x_valid cert then Inl NotValidYet else Inr cert))"

definition verify_cert_signature :: "ed25519_api \<Rightarrow> x509 \<Rightarrow> bytes \<Rightarrow> bytes \<Rightarrow> tls_error + unit" where
  "verify_cert_signature E cert message signature =
     res_bind (map_err (\<lambda>_. BadEncoding) (pk_from_bytes E (x_subject_key cert))) (\<lambda>public_key.
       map_err (\<lambda>_. BadSignature) (pk_verify E public_key message signature))"

definition verify_cert :: "ed25519_api \<Rightarrow> cert_api \<Rightarrow> bytes \<Rightarrow> tls_error + peer_id" where
  "verify_cert E C end_entity =
     res_bind (parse_cert C end_entity) (\<lambda>cert.
     res_bind (ok_or BadEncoding (map_of (x_extensions cert) PEER_ID_EXT_OID)) (\<lambda>ext.
     res_bind (ok_or BadEncoding (der_dec C ext)) (\<lambda>(key_bytes, signature).
     res_bind (map_err (\<lambda>_. BadEncoding) (pk_from_bytes E key_bytes)) (\<lambda>public_key.
     res_bind (map_err (\<lambda>_. BadSignature) (pk_verify E public_key (x_spki_raw cert) signature)) (\<lambda>_.
     res_bind (verify_cert_signature E cert (x_tbs cert) (x_signature cert)) (\<lambda>_.
       map_err (\<lambda>_. BadEncoding) (peer_id_try_from_public_key public_key)))))))"

fun peer_id_from_certs :: "ed25519_api \<Rightarrow> cert_api \<Rightarrow> bytes list \<Rightarrow> peer_id option" where
  "peer_id_from_certs E C [] = None"
| "peer_id_from_certs E C (end_entity # _) = (case verify_cert E C end_entity of Inl _ \<Rightarrow> None | Inr pid \<Rightarrow> Some pid)"

text \<open>The verifiers the configurations install: the client checks the server against the expected
  peer id, if it has one; the server accepts any valid client certificate.  Both check the
  handshake signature with the certificate key.\<close>

definition verify_server_cert :: "ed25519_api \<Rightarrow> cert_api \<Rightarrow> peer_id option \<Rightarrow> bytes \<Rightarrow> tls_error + unit" where
  "verify_server_cert E C expected end_entity = (case verify_cert E C end_entity of
      Inl err \<Rightarrow> Inl err
    | Inr peer_id \<Rightarrow> (case expected of
        Some pid \<Rightarrow> if pid \<noteq> peer_id then Inl ApplicationVerificationFailure else Inr ()
      | None \<Rightarrow> Inr ()))"

definition verify_client_cert :: "ed25519_api \<Rightarrow> cert_api \<Rightarrow> bytes \<Rightarrow> tls_error + unit" where
  "verify_client_cert E C end_entity = (case verify_cert E C end_entity of Inl err \<Rightarrow> Inl err | Inr _ \<Rightarrow> Inr ())"

definition verify_tls13_signature :: "ed25519_api \<Rightarrow> cert_api \<Rightarrow> bytes \<Rightarrow> bytes \<Rightarrow> bytes \<Rightarrow> tls_error + unit" where
  "verify_tls13_signature E C message cert signature =
     res_bind (parse_cert C cert) (\<lambda>x. res_bind (verify_cert_signature E x message signature) (\<lambda>_. Inr ()))"

section \<open>Laws of the external code\<close>

definition key_law :: "ed25519_api \<Rightarrow> bytes \<Rightarrow> bool" where
  "key_law E sk \<longleftrightarrow> length (ed_public E sk) = 32 \<and> vk_ok E (ed_public E sk) \<and> \<not> vk_is_weak E (ed_public E sk)
     \<and> (\<forall>m. length (ed_sign E sk m) = 64 \<and> verify_strict E (ed_public E sk) m (ed_sign E sk m))"

definition cert_law :: "ed25519_api \<Rightarrow> cert_api \<Rightarrow> bytes \<Rightarrow> bool" where
  "cert_law E C csk \<longleftrightarrow> (\<forall>a b. length a = 32 \<and> length b = 64 \<longrightarrow> der_dec C (der_enc C (a, b)) = Some (a, b))
     \<and> (\<forall>ext der. cert_build C csk ext = Inr der \<longrightarrow> (\<exists>x. parse_x509 C der = Some x \<and> x_valid x
          \<and> map_of (x_extensions x) (fst ext) = Some (snd ext) \<and> x_spki_raw x = cert_spki C csk
          \<and> x_subject_key x = ed_public E csk \<and> x_signature x = ed_sign E csk (x_tbs x)))"

section \<open>Lemmas\<close>

lemma map_err_Inr [simp]: "map_err f (Inr x) = Inr x" "map_err f r = Inr x \<longleftrightarrow> r = Inr x"
  by (auto simp: map_err_def split: sum.splits)

lemma ok_or_eq_Inr [simp]: "ok_or e o1 = Inr x \<longleftrightarrow> o1 = Some x"
  by (auto simp: ok_or_def split: option.splits)

lemma pk_from_bytes_Inr: "pk_from_bytes E b = Inr k \<longleftrightarrow> k = PkEd25519 b \<and> length b = 32 \<and> vk_ok E b \<and> \<not> vk_is_weak E b"
  by (auto simp: pk_from_bytes_def ed_from_bytes_def)

lemma pk_verify_Inr: "pk_verify E (PkEd25519 k) m s = Inr u \<longleftrightarrow> length s = 64 \<and> verify_strict E k m s"
  by (auto simp: pk_verify_def)

lemma verify_cert_signature_Inr:
  "verify_cert_signature E x m s = Inr u \<longleftrightarrow> length (x_subject_key x) = 32 \<and> vk_ok E (x_subject_key x)
     \<and> \<not> vk_is_weak E (x_subject_key x) \<and> length s = 64 \<and> verify_strict E (x_subject_key x) m s"
  by (auto simp: verify_cert_signature_def res_bind_eq_Inr pk_from_bytes_Inr pk_verify_Inr)

lemma parse_cert_Inr: "parse_cert C der = Inr x \<longleftrightarrow> parse_x509 C der = Some x \<and> x_valid x"
  by (auto simp: parse_cert_def split: option.splits)

lemma verify_cert_Inr:
  "verify_cert E C der = Inr pid \<longleftrightarrow> (\<exists>x ext sig. parse_x509 C der = Some x \<and> x_valid x
     \<and> map_of (x_extensions x) PEER_ID_EXT_OID = Some ext \<and> der_dec C ext = Some (pid, sig)
     \<and> length pid = 32 \<and> vk_ok E pid \<and> \<not> vk_is_weak E pid \<and> length sig = 64 \<and> verify_strict E pid (x_spki_raw x) sig
     \<and> verify_cert_signature E x (x_tbs x) (x_signature x) = Inr ())"
  unfolding verify_cert_def
  by (fastforce simp: res_bind_eq_Inr parse_cert_Inr pk_from_bytes_Inr pk_verify_Inr peer_id_try_from_public_key_def pk_as_bytes_def
      split: prod.splits)

lemma peer_id_string_roundtrip:
  assumes "b64_decode B (b64_encode B pid) = Inr pid" "length pid = 32"
  shows "peer_id_try_from_string B (peer_id_display B pid) = Inr pid"
  using assms by (simp add: peer_id_try_from_string_def peer_id_display_def)

definition ex_ed :: ed25519_api where
  "ex_ed = \<lparr>vk_ok = (\<lambda>_. True), vk_is_weak = (\<lambda>_. False), verify_strict = (\<lambda>k m s. s = k @ k),
     ed_sign = (\<lambda>sk m. replicate 64 (hd sk)), ed_public = (\<lambda>sk. replicate 32 (hd sk))\<rparr>"

definition ex_cert :: cert_api where
  "ex_cert = \<lparr>parse_x509 = (\<lambda>d. Some \<lparr>x_valid = True, x_extensions = [(PEER_ID_EXT_OID, tl d)], x_spki_raw = [],
       x_subject_key = replicate 32 (hd d), x_tbs = [], x_signature = replicate 64 (hd d)\<rparr>),
     der_enc = (\<lambda>(a, b). a @ b), der_dec = (\<lambda>d. Some (take 32 d, drop 32 d)),
     cert_build = (\<lambda>csk ext. if fst ext = PEER_ID_EXT_OID then Inr (hd csk # snd ext) else Inl ''unsupported''), cert_spki = (\<lambda>_. [])\<rparr>"

lemma ex_tls_laws: "key_law ex_ed sk" "cert_law ex_ed ex_cert csk"
  by (auto simp: key_law_def cert_law_def ex_ed_def ex_cert_def replicate_add [symmetric] split: if_splits)

section \<open>Properties\<close>

text \<open>C29. A node recognises the certificates of honest nodes: the certificate a node generates for its key pair passes
  every check of another node, and the identity derived from it is the node's peer id; so a client that expects this
  identity accepts the certificate, and one that expects another identity refuses it.\<close>

theorem tls_cert_identity:
  assumes "key_law E sk" "key_law E csk" "cert_law E C csk"
    and "generate_cert E C (KpEd25519 sk) (Inr csk) = Inr (der, priv)"
  shows "peer_id_try_from_public_key (kp_public E (KpEd25519 sk)) = Inr (ed_public E sk)
     \<and> peer_id_from_certs E C (der # chain) = Some (ed_public E sk) \<and> verify_client_cert E C der = Inr ()
     \<and> verify_server_cert E C expected der = (if expected \<in> {None, Some (ed_public E sk)} then Inr () else Inl ApplicationVerificationFailure)"
proof -
  let ?ext = "der_enc C (ed_public E sk, ed_sign E sk (cert_spki C csk))"
  have b: "cert_build C csk (PEER_ID_EXT_OID, ?ext) = Inr der"
    using assms(4) by (auto simp: generate_cert_def kp_sign_def kp_public_def pk_as_bytes_def Let_def res_bind_eq_Inr)
  obtain x where x: "parse_x509 C der = Some x" "x_valid x" "map_of (x_extensions x) PEER_ID_EXT_OID = Some ?ext"
      "x_spki_raw x = cert_spki C csk" "x_subject_key x = ed_public E csk" "x_signature x = ed_sign E csk (x_tbs x)"
    using assms(3) b unfolding cert_law_def by force
  have "verify_cert E C der = Inr (ed_public E sk)"
    unfolding verify_cert_Inr using x assms(1-3) by (auto simp: key_law_def cert_law_def verify_cert_signature_Inr)
  then show ?thesis using assms(1)
    by (auto simp: verify_server_cert_def verify_client_cert_def peer_id_try_from_public_key_def kp_public_def pk_as_bytes_def
        key_law_def split: option.splits)
qed

theorem tls_cert_identity_witness:
  "\<exists>der priv. generate_cert ex_ed ex_cert (KpEd25519 [7]) (Inr [9]) = Inr (der, priv)
     \<and> peer_id_from_certs ex_ed ex_cert [der] = Some (replicate 32 7)
     \<and> verify_server_cert ex_ed ex_cert (Some (replicate 32 8)) der = Inl ApplicationVerificationFailure"
proof -
  obtain der priv where g: "generate_cert ex_ed ex_cert (KpEd25519 [7]) (Inr [9]) = Inr (der, priv)"
    by (simp add: generate_cert_def ex_cert_def Let_def)
  then show ?thesis
    using tls_cert_identity [OF ex_tls_laws(1) ex_tls_laws(1) ex_tls_laws(2) g, of "[]" "Some (replicate 32 8)"]
    by (simp add: ex_ed_def)
qed

text \<open>C10. What an authenticated session proves, against any remote side: if the signatures that verify under a key are
  only those its owner made, then a client that expects a peer id and completes the handshake talks to someone
  whose certificate key was signed with the secret key of that peer id and who signed the handshake with the
  certificate key; and the identity passed on to the peer handshake is the expected one.\<close>

theorem tls_session_bound:
  assumes "\<forall>k m s. verify_strict E k m s \<longrightarrow> (k, m) \<in> made"
    and "verify_server_cert E C (Some pid) der = Inr ()" and "verify_tls13_signature E C transcript der sig = Inr ()"
  shows "\<exists>x. parse_x509 C der = Some x \<and> (pid, x_spki_raw x) \<in> made \<and> (x_subject_key x, x_tbs x) \<in> made
     \<and> (x_subject_key x, transcript) \<in> made \<and> length pid = 32 \<and> \<not> vk_is_weak E pid
     \<and> peer_id_from_certs E C (der # chain) = Some pid"
proof -
  have v: "verify_cert E C der = Inr pid"
    using assms(2) by (auto simp: verify_server_cert_def split: sum.splits if_splits)
  then obtain x sg where x: "parse_x509 C der = Some x" "verify_strict E pid (x_spki_raw x) sg" "length pid = 32" "\<not> vk_is_weak E pid"
      "verify_cert_signature E x (x_tbs x) (x_signature x) = Inr ()"
    unfolding verify_cert_Inr by blast
  moreover have "verify_cert_signature E x transcript sig = Inr ()"
    using assms(3) x(1) by (auto simp: verify_tls13_signature_def res_bind_eq_Inr parse_cert_Inr)
  ultimately show ?thesis using assms(1) v by (auto simp: verify_cert_signature_Inr)
qed


theorem tls_session_bound_witness:
  "\<exists>x. parse_x509 ex_cert (9 # replicate 96 7) = Some x \<and> (replicate 32 7, x_spki_raw x) \<in> {(k, m). \<exists>s. verify_strict ex_ed k m s}"
proof -
  have "verify_server_cert ex_ed ex_cert (Some (replicate 32 7)) (9 # replicate 96 7) = Inr ()"
    by code_simp
  moreover have "verify_tls13_signature ex_ed ex_cert [1] (9 # replicate 96 7) (replicate 64 9) = Inr ()" by code_simp
  ultimately show ?thesis
    using tls_session_bound [of ex_ed "{(k, m). \<exists>s. verify_strict ex_ed k m s}" ex_cert "replicate 32 7" "9 # replicate 96 7" "[1]" "replicate 64 9" "[]"]
    by blast
qed

end
