(* ===== verification/P2p_Net.thy ===== *)
theory P2p_Net
  imports P2p_Monitor P2p_Tls Core_Async
begin

text \<open>
  Outbound and inbound connections: the connector (\<open>p2p/src/connector.rs\<close>) and the listener
  (\<open>p2p/src/listener.rs\<close>).  Sockets, TLS and QUIC handshakes are arguments; connection slots are the permits of a counting
  semaphore.
\<close>

section \<open>Dialling\<close>

text \<open>One attempt to connect: results of the external calls \<open>dial\<close> makes.  The certificates are those the
  remote side presented in a TLS or QUIC handshake.\<close>

record ('s, 'q) dial_api =
  d_tls_config :: "p2p_error + unit"
  d_quic_config :: "p2p_error + unit"
  d_tcp_connect :: "endpoint \<Rightarrow> net_error + 's"
  d_tls_handshake :: "'s \<Rightarrow> net_error + 's \<times> bytes list option"
  d_quic_dial :: "endpoint \<Rightarrow> net_error + 'q \<times> bytes list option"
  d_open_stream :: "'q \<Rightarrow> net_error + 's"

datatype ('s, 'q) dial_result = DialChannel 's "peer_id option" | DialQuic 's 'q "peer_id option"

definition certs_peer_id :: "ed25519_api \<Rightarrow> cert_api \<Rightarrow> bytes list option \<Rightarrow> peer_id option" where
  "certs_peer_id E C certs = (case certs of None \<Rightarrow> None | Some cs \<Rightarrow> peer_id_from_certs E C cs)"

definition dial :: "ed25519_api \<Rightarrow> cert_api \<Rightarrow> ('s, 'q) dial_api \<Rightarrow> endpoint \<Rightarrow> p2p_error + ('s, 'q) dial_result" where
  "dial E C D ep = (case ep of
      Tcp _ _ \<Rightarrow> res_bind (map_err P2pNet (d_tcp_connect D ep)) (\<lambda>stream. Inr (DialChannel stream None))
    | Tls _ _ \<Rightarrow> res_bind (d_tls_config D) (\<lambda>_. res_bind (map_err P2pNet (d_tcp_connect D ep)) (\<lambda>stream.
        res_bind (map_err P2pNet (d_tls_handshake D stream)) (\<lambda>(tls_stream, certs).
          Inr (DialChannel tls_stream (certs_peer_id E C certs)))))
    | Quic _ _ \<Rightarrow> res_bind (d_quic_config D) (\<lambda>_. res_bind (map_err P2pNet (d_quic_dial D ep)) (\<lambda>(quic_conn, certs).
        res_bind (map_err P2pNet (d_open_stream D quic_conn)) (\<lambda>stream.
          Inr (DialQuic stream quic_conn (certs_peer_id E C certs)))))
    | _ \<Rightarrow> Inl (P2pUnsupportedEndpoint (endpoint_display ep)))"

text \<open>The retry loop: \<open>left\<close> attempts remain, \<open>k\<close> were made, the backoff has the given state; the result, the monitor events and
  the delays slept; \<^term>\<open>None\<close> is an arithmetic overflow of the backoff.\<close>

fun dial_loop ::
  "(nat \<Rightarrow> p2p_error + 'd) \<Rightarrow> endpoint \<Rightarrow> nat \<Rightarrow> nat \<Rightarrow> backoff \<Rightarrow> ((p2p_error + 'd) \<times> connection_kind list \<times> nat list) option" where
  "dial_loop attempt ep 0 k b = Some (Inl P2pTimeout, [ConnectFailed ep], [])"
| "dial_loop attempt ep (Suc left) k b = (case attempt k of
      Inr d \<Rightarrow> Some (Inr d, [Connected ep], [])
    | Inl _ \<Rightarrow> (case backoff_sleep b of
        None \<Rightarrow> None
      | Some (delay, b') \<Rightarrow> map_option (\<lambda>(r, es, ds). (r, ConnectRetried ep # es, delay # ds)) (dial_loop attempt ep left (Suc k) b')))"

definition connect_internal ::
  "(nat \<Rightarrow> p2p_error + 'd) \<Rightarrow> nat \<Rightarrow> endpoint \<Rightarrow> ((p2p_error + 'd) \<times> connection_kind list \<times> nat list) option" where
  "connect_internal attempt max_retries ep = dial_loop attempt ep max_retries 0 (backoff_new 500 2000)"

section \<open>Connection slots\<close>

text \<open>The connector: free permits, calls of \<open>connect_internal\<close> under way that hold a permit, connections that hold one (by a
  number and their endpoint), and the monitor events.\<close>

record connector =
  c_free :: nat
  c_dialling :: "(nat \<times> endpoint) list"
  c_conns :: "(nat \<times> endpoint) list"
  c_next :: nat
  c_events :: "connection_kind list"
  c_has_queue :: bool
  c_max_retries :: nat

definition connector_new :: "nat \<Rightarrow> nat \<Rightarrow> bool \<Rightarrow> connector" where
  "connector_new max_retries slots has_queue = \<lparr>c_free = slots, c_dialling = [], c_conns = [], c_next = 0, c_events = [],
     c_has_queue = has_queue, c_max_retries = max_retries\<rparr>"

definition connect_acquire :: "endpoint \<Rightarrow> connector \<Rightarrow> connector option" where
  "connect_acquire ep c = (if c_free c = 0 then None
     else Some (c\<lparr>c_free := c_free c - 1, c_dialling := c_dialling c @ [(c_next c, ep)], c_next := c_next c + 1\<rparr>))"

text \<open>The end of a dial in \<open>connect_and_queue\<close> (\<open>queued\<close>) or \<open>connect\<close>: on success the slot goes to the connection's
  task or to the guard returned; on an error, and when there is no queue to hand the
  connection to, it is dropped.\<close>

definition connect_finish ::
  "bool \<Rightarrow> nat \<times> endpoint \<Rightarrow> (p2p_error + 'd) \<times> connection_kind list \<times> nat list \<Rightarrow> connector \<Rightarrow> (p2p_error + unit) \<times> connector" where
  "connect_finish queued ie out c = (case out of (r, es, _) \<Rightarrow>
     (let c1 = c\<lparr>c_dialling := remove1 ie (c_dialling c), c_events := c_events c @ es\<rparr>
      in case r of
          Inl e \<Rightarrow> (Inl e, c1\<lparr>c_free := c_free c1 + 1\<rparr>)
        | Inr _ \<Rightarrow> (if queued \<and> \<not> c_has_queue c
            then (Inl (ConfigError ''connect_and_queue called on Connector built without ConnQueue''), c1\<lparr>c_free := c_free c1 + 1\<rparr>)
            else (Inr (), c1\<lparr>c_conns := c_conns c1 @ [ie]\<rparr>))))"

definition connector_disconnect :: "nat \<times> endpoint \<Rightarrow> connector \<Rightarrow> connector" where
  "connector_disconnect ie c = c\<lparr>c_conns := remove1 ie (c_conns c), c_events := c_events c @ [Disconnected (snd ie)], c_free := c_free c + 1\<rparr>"

inductive connector_step :: "connector \<Rightarrow> connector \<Rightarrow> bool" where
  acquire: "connect_acquire ep c = Some c' \<Longrightarrow> connector_step c c'"
| finish: "\<lbrakk>ie \<in> set (c_dialling c); connect_internal (attempt :: nat \<Rightarrow> p2p_error + (unit, unit) dial_result) (c_max_retries c) (snd ie) = Some out;
     connect_finish queued ie out c = (r, c')\<rbrakk> \<Longrightarrow> connector_step c c'"
| abandon: "ie \<in> set (c_dialling c) \<Longrightarrow> connector_step c (c\<lparr>c_dialling := remove1 ie (c_dialling c), c_free := c_free c + 1\<rparr>)"
| disconnect: "ie \<in> set (c_conns c) \<Longrightarrow> connector_step c (connector_disconnect ie c)"

section \<open>Listening\<close>

datatype stream_listener = SlTcp endpoint | SlTls endpoint

definition listen :: "(endpoint \<Rightarrow> net_error + endpoint) \<Rightarrow> p2p_error + unit \<Rightarrow> endpoint \<Rightarrow> p2p_error + stream_listener" where
  "listen bind tls_config ep = (case ep of
      Tcp _ _ \<Rightarrow> res_bind (map_err P2pNet (bind ep)) (\<lambda>l. Inr (SlTcp l))
    | Tls _ _ \<Rightarrow> res_bind tls_config (\<lambda>_. res_bind (map_err P2pNet (bind ep)) (\<lambda>l. Inr (SlTls l)))
    | _ \<Rightarrow> Inl (P2pUnsupportedEndpoint (endpoint_display ep)))"

definition sl_local_endpoint :: "url_api \<Rightarrow> stream_listener \<Rightarrow> p2p_error + endpoint" where
  "sl_local_endpoint U l = (case l of
      SlTcp ep \<Rightarrow> Inr ep
    | SlTls ep \<Rightarrow> res_bind (map_err P2pNet (endpoint_addr U ep)) (\<lambda>a. res_bind (map_err P2pNet (endpoint_port U ep)) (\<lambda>p. Inr (Tls a p))))"

definition sl_handshake :: "unit poll \<Rightarrow> (net_error + 's) poll \<Rightarrow> stream_listener \<Rightarrow> 's \<Rightarrow> (p2p_error + 's) poll" where
  "sl_handshake timer tls l stream = (case l of
      SlTcp _ \<Rightarrow> Ready (Inr stream)
    | SlTls _ \<Rightarrow> (case timeout timer tls of
        Pending \<Rightarrow> Pending
      | Ready (Inl e) \<Rightarrow> Ready (Inl (P2pCore e))
      | Ready (Inr r) \<Rightarrow> Ready (map_err P2pNet r)))"

text \<open>\<open>start\<close> and \<open>start_with_callback\<close> before the accept loop is spawned: result and monitor events.\<close>

definition listener_start :: "url_api \<Rightarrow> p2p_error + stream_listener \<Rightarrow> endpoint \<Rightarrow> (p2p_error + endpoint) \<times> connection_kind list" where
  "listener_start U l ep = (case l of
      Inl err \<Rightarrow> (Inl err, [ListenFailed ep])
    | Inr sl \<Rightarrow> (sl_local_endpoint U sl, [Listening ep]))"

definition listener_start_quic :: "p2p_error + unit \<Rightarrow> net_error + endpoint \<Rightarrow> endpoint \<Rightarrow> (p2p_error + endpoint) \<times> connection_kind list" where
  "listener_start_quic config bound ep = (case config of
      Inl err \<Rightarrow> (Inl err, [])
    | Inr _ \<Rightarrow> (case bound of
        Inl err \<Rightarrow> (Inl (P2pNet err), [ListenFailed ep])
      | Inr local \<Rightarrow> (Inr local, [Listening ep])))"

text \<open>The spawned task of an accepted stream: upgrade, then \<open>handle\<close> or the callback.\<close>

definition stream_task :: "(p2p_error + 's) poll \<Rightarrow> ('s \<Rightarrow> (p2p_error + unit) poll) \<Rightarrow> (p2p_error + unit) poll" where
  "stream_task upgraded handle = (case upgraded of
      Pending \<Rightarrow> Pending
    | Ready (Inl e) \<Rightarrow> Ready (Inl e)
    | Ready (Inr s) \<Rightarrow> handle s)"

definition timed :: "unit poll \<Rightarrow> (net_error + 'a) poll \<Rightarrow> (p2p_error + 'a) poll" where
  "timed timer fut = (case timeout timer fut of
      Pending \<Rightarrow> Pending
    | Ready (Inl e) \<Rightarrow> Ready (Inl (P2pCore e))
    | Ready (Inr r) \<Rightarrow> Ready (map_err P2pNet r))"

definition quic_task ::
  "unit poll \<Rightarrow> (net_error + 'q) poll \<Rightarrow> unit poll \<Rightarrow> ('q \<Rightarrow> (net_error + 's) poll) \<Rightarrow> ('q \<Rightarrow> 's \<Rightarrow> (p2p_error + unit) poll)
     \<Rightarrow> (p2p_error + unit) poll" where
  "quic_task timer1 hs_fut timer2 accept handle =
     stream_task (timed timer1 hs_fut) (\<lambda>q. stream_task (timed timer2 (accept q)) (handle q))"

text \<open>The listener: free permits, the accept loops (their purpose and whether they hold a permit), the connections that hold
  one, and the monitor events.\<close>

datatype accept_mode = DataMode | LookupMode | QuicMode

datatype accept_result = AcceptErr | AcceptNoEndpoint | AcceptFrom endpoint

record listener =
  l_free :: nat
  l_loops :: "(accept_mode \<times> bool) list"
  l_conns :: "(nat \<times> accept_mode \<times> endpoint) list"
  l_next :: nat
  l_events :: "connection_kind list"
  l_access :: access_control

definition listener_new :: "nat \<Rightarrow> access_control \<Rightarrow> listener" where
  "listener_new slots ac = \<lparr>l_free = slots, l_loops = [], l_conns = [], l_next = 0, l_events = [], l_access = ac\<rparr>"

text \<open>One round of an accept loop after its slot was acquired.  A slot that is not handed to a
  connection is released.\<close>

definition accept_round :: "action \<Rightarrow> accept_mode \<Rightarrow> accept_result \<Rightarrow> listener \<Rightarrow> listener" where
  "accept_round act mode r l = (case r of
      AcceptErr \<Rightarrow> l\<lparr>l_events := l_events l @ [AcceptFailed], l_free := l_free l + 1\<rparr>
    | AcceptNoEndpoint \<Rightarrow> l\<lparr>l_events := l_events l @ [AcceptFailed], l_free := l_free l + 1\<rparr>
    | AcceptFrom ep \<Rightarrow> (if \<not> l_access l (SubjEndpoint ep) act then l\<lparr>l_free := l_free l + 1\<rparr>
        else l\<lparr>l_events := l_events l @ [Accepted ep], l_conns := l_conns l @ [(l_next l, mode, ep)], l_next := l_next l + 1\<rparr>))"

definition listen_loop :: "accept_result \<Rightarrow> listener \<Rightarrow> listener" where
  "listen_loop = accept_round (ActConnect Inbound) DataMode"

definition listen_loop_callback :: "accept_result \<Rightarrow> listener \<Rightarrow> listener" where
  "listen_loop_callback = accept_round (ActLookup Inbound) LookupMode"

definition listen_loop_quic :: "endpoint option \<Rightarrow> listener \<Rightarrow> listener" where
  "listen_loop_quic incoming = accept_round (ActConnect Inbound) QuicMode (case incoming of None \<Rightarrow> AcceptErr | Some ep \<Rightarrow> AcceptFrom ep)"

definition loop_round :: "accept_mode \<Rightarrow> accept_result \<Rightarrow> listener \<Rightarrow> listener" where
  "loop_round mode r l = (case mode of
      DataMode \<Rightarrow> listen_loop r l
    | LookupMode \<Rightarrow> listen_loop_callback r l
    | QuicMode \<Rightarrow> listen_loop_quic (case r of AcceptFrom ep \<Rightarrow> Some ep | _ \<Rightarrow> None) l)"

definition on_disconnect :: "nat \<times> accept_mode \<times> endpoint \<Rightarrow> listener \<Rightarrow> listener" where
  "on_disconnect c l = l\<lparr>l_conns := remove1 c (l_conns l), l_events := l_events l @ [Disconnected (snd (snd c))], l_free := l_free l + 1\<rparr>"

inductive listener_step :: "listener \<Rightarrow> listener \<Rightarrow> bool" where
  started: "snd (listener_start U bound ep) = es \<Longrightarrow>
     listener_step l (l\<lparr>l_loops := (if is_ok (fst (listener_start U bound ep)) then l_loops l @ [(mode, False)] else l_loops l), l_events := l_events l @ es\<rparr>)"
| acquired: "\<lbrakk>l_loops l = a @ (mode, False) # b; l_free l > 0\<rbrakk> \<Longrightarrow>
     listener_step l (l\<lparr>l_loops := a @ (mode, True) # b, l_free := l_free l - 1\<rparr>)"
| accepted: "l_loops l = a @ (mode, True) # b \<Longrightarrow> listener_step l (loop_round mode r (l\<lparr>l_loops := a @ (mode, False) # b\<rparr>))"
| ended: "c \<in> set (l_conns l) \<Longrightarrow> listener_step l (on_disconnect c l)"
| panicked: "c \<in> set (l_conns l) \<Longrightarrow> listener_step l (l\<lparr>l_conns := remove1 c (l_conns l), l_free := l_free l + 1\<rparr>)"


section \<open>Dialling: lemmas\<close>

lemma dial_loop_spec:
  assumes "backoff_ok b" "backoff_at k b" "base_delay b = 500" "max_delay b = 2000"
  shows "dial_loop attempt ep left k b =
    (case List.find (\<lambda>j. is_ok (attempt j)) [k..<k + left] of
       Some j \<Rightarrow> Some (attempt j, replicate (j - k) (ConnectRetried ep) @ [Connected ep], map (\<lambda>j. min (500 * 2 ^ j) 2000) [k..<j])
     | None \<Rightarrow> Some (Inl P2pTimeout, replicate left (ConnectRetried ep) @ [ConnectFailed ep], map (\<lambda>j. min (500 * 2 ^ j) 2000) [k..<k + left]))"
  using assms
proof (induction left arbitrary: k b)
  case (Suc left)
  have u: "[k..<k + Suc left] = k # [Suc k..<Suc k + left]" by (simp add: upt_conv_Cons)
  show ?case
  proof (cases "attempt k")
    case (Inr d)
    then show ?thesis by (simp add: u is_ok_def del: upt_Suc add_Suc add_Suc_right)
  next
    case (Inl e)
    obtain b' where b': "backoff_sleep b = Some (min (500 * 2 ^ k) 2000, b')" "backoff_ok b'"
        "backoff_at (Suc k) b'" "base_delay b' = 500" "max_delay b' = 2000"
      using backoff_step [OF Suc.prems(1,2)] Suc.prems(3,4) by auto
    note IH = Suc.IH [OF b'(2-5)]
    show ?thesis
    proof (cases "List.find (\<lambda>j. is_ok (attempt j)) [Suc k..<Suc k + left]")
      case None
      then show ?thesis using IH Inl b'(1) by (simp add: u is_ok_def del: upt_Suc add_Suc add_Suc_right)
    next
      case (Some j)
      then have j: "Suc k \<le> j" by (auto simp: find_Some_iff simp del: upt_Suc)
      then have "j - k = Suc (j - Suc k)" "[k..<j] = k # [Suc k..<j]" by (simp_all add: upt_conv_Cons)
      then show ?thesis using IH Inl b'(1) Some by (simp add: u is_ok_def del: upt_Suc add_Suc add_Suc_right)
    qed
  qed
qed simp

lemma find_upt_Some: "List.find P [0..<n] = Some j \<longleftrightarrow> j < n \<and> P j \<and> (\<forall>i < j. \<not> P i)"
  by (auto simp: find_Some_iff)


section \<open>Slots: invariants\<close>

definition connector_inv :: "nat \<Rightarrow> connector \<Rightarrow> bool" where
  "connector_inv slots c \<longleftrightarrow> c_free c + length (c_dialling c) + length (c_conns c) = slots"

lemma remove1_length: "x \<in> set xs \<Longrightarrow> Suc (length (remove1 x xs)) = length xs"
  by (induction xs) auto

lemma connector_step_inv:
  assumes "connector_inv slots c" "connector_step c c'"
  shows "connector_inv slots c'"
  using assms(2,1)
proof cases
  case (acquire ep)
  then show ?thesis using assms(1) by (auto simp: connector_inv_def connect_acquire_def split: if_splits)
next
  case (finish ie attempt out queued r)
  then show ?thesis using remove1_length [OF finish(1)] assms(1)
    by (auto simp: connector_inv_def connect_finish_def Let_def split: prod.splits sum.splits if_splits)
next
  case (abandon ie)
  then show ?thesis using remove1_length [OF abandon(2)] assms(1) by (auto simp: connector_inv_def)
next
  case (disconnect ie)
  then show ?thesis using remove1_length [OF disconnect(2)] assms(1) by (auto simp: connector_inv_def connector_disconnect_def)
qed

interpretation connector_sys: step_invariant connector_step "connector_inv slots"
  by unfold_locales (rule connector_step_inv)

text \<open>What the policy is asked for a connection of each kind of loop.\<close>

definition mode_action :: "accept_mode \<Rightarrow> action" where
  "mode_action mode = (case mode of LookupMode \<Rightarrow> ActLookup Inbound | _ \<Rightarrow> ActConnect Inbound)"

definition listener_inv :: "nat \<Rightarrow> access_control \<Rightarrow> listener \<Rightarrow> bool" where
  "listener_inv slots ac l \<longleftrightarrow> l_free l + length (filter snd (l_loops l)) + length (l_conns l) = slots \<and> l_access l = ac
     \<and> (\<forall>c \<in> set (l_conns l). ac (SubjEndpoint (snd (snd c))) (mode_action (fst (snd c))))
     \<and> (\<forall>ep. Accepted ep \<in> set (l_events l) \<longrightarrow> (\<exists>mode. ac (SubjEndpoint ep) (mode_action mode)))"

lemma loop_round_eq: "loop_round mode r l = accept_round (mode_action mode) mode (if mode = QuicMode \<and> r = AcceptNoEndpoint then AcceptErr else r) l"
  by (cases mode; cases r)
     (simp_all add: loop_round_def listen_loop_def listen_loop_callback_def listen_loop_quic_def mode_action_def accept_round_def)

lemma accept_round_inv:
  assumes "l_free l + length (filter snd (l_loops l)) + length (l_conns l) + 1 = slots" "l_access l = ac"
    "\<forall>c \<in> set (l_conns l). ac (SubjEndpoint (snd (snd c))) (mode_action (fst (snd c)))"
    "\<forall>ep. Accepted ep \<in> set (l_events l) \<longrightarrow> (\<exists>mode. ac (SubjEndpoint ep) (mode_action mode))"
  shows "listener_inv slots ac (accept_round (mode_action mode) mode r l)"
  using assms by (cases r) (auto simp: accept_round_def listener_inv_def)

lemma listener_step_inv:
  assumes "listener_inv slots ac l" "listener_step l l'"
  shows "listener_inv slots ac l'"
  using assms(2)
proof cases
  case (started U bound ep es mode)
  then show ?thesis using assms(1) by (auto simp: listener_inv_def listener_start_def split: sum.splits)
next
  case (acquired a mode b)
  then show ?thesis using assms(1) by (auto simp: listener_inv_def)
next
  case (accepted a mode b r)
  then show ?thesis using assms(1) by (auto simp: loop_round_eq listener_inv_def [of _ _ l] intro!: accept_round_inv)
next
  case (ended c)
  then show ?thesis using remove1_length [OF ended(2)] assms(1) set_remove1_subset [of c "l_conns l"]
    by (auto simp: listener_inv_def on_disconnect_def)
next
  case (panicked c)
  then show ?thesis using remove1_length [OF panicked(2)] assms(1) set_remove1_subset [of c "l_conns l"]
    by (auto simp: listener_inv_def)
qed

interpretation listener_sys: step_invariant listener_step "listener_inv slots ac"
  by unfold_locales (rule listener_step_inv)


definition ex_dial :: "bytes list option \<Rightarrow> (nat, nat) dial_api" where
  "ex_dial certs = \<lparr>d_tls_config = Inr (), d_quic_config = Inr (), d_tcp_connect = (\<lambda>_. Inr 1),
     d_tls_handshake = (\<lambda>s. Inr (s, certs)), d_quic_dial = (\<lambda>_. Inr (2, certs)), d_open_stream = (\<lambda>_. Inr 3)\<rparr>"

section \<open>Properties\<close>





text \<open>Dialling an identity: if the TLS and QUIC handshakes complete only with a certificate chain whose first
  certificate the verifier accepted for the expected peer id, then a successful dial of a TLS or
  QUIC endpoint with an expected peer id passes exactly this identity on to the peer handshake; a TCP dial passes none.\<close>

lemma dial_identity:
  assumes "dial E C D ep = Inr r"
    and "\<forall>s s' certs. d_tls_handshake D s = Inr (s', certs) \<longrightarrow> (\<exists>der chain. certs = Some (der # chain) \<and> verify_server_cert E C (Some pid) der = Inr ())"
    and "\<forall>e q certs. d_quic_dial D e = Inr (q, certs) \<longrightarrow> (\<exists>der chain. certs = Some (der # chain) \<and> verify_server_cert E C (Some pid) der = Inr ())"
  shows "case ep of Tcp _ _ \<Rightarrow> \<exists>s. r = DialChannel s None
     | Tls _ _ \<Rightarrow> \<exists>s. r = DialChannel s (Some pid)
     | Quic _ _ \<Rightarrow> \<exists>s q. r = DialQuic s q (Some pid)
     | _ \<Rightarrow> False"
proof -
  have v: "verify_server_cert E C (Some pid) der = Inr () \<Longrightarrow> peer_id_from_certs E C (der # chain) = Some pid" for der chain
    by (auto simp: verify_server_cert_def split: sum.splits if_splits)
  show ?thesis
  proof (cases ep)
    case (Tls a p)
    then obtain s s' certs where "d_tls_handshake D s = Inr (s', certs)" "r = DialChannel s' (certs_peer_id E C certs)"
      using assms(1) by (auto simp: dial_def res_bind_eq_Inr)
    then show ?thesis using Tls assms(2) v by (fastforce simp: certs_peer_id_def)
  next
    case (Quic a p)
    then obtain q s certs where "d_quic_dial D ep = Inr (q, certs)" "r = DialQuic s q (certs_peer_id E C certs)"
      using assms(1) by (auto simp: dial_def res_bind_eq_Inr)
    then show ?thesis using Quic assms(3) v by (fastforce simp: certs_peer_id_def)
  qed (use assms(1) in \<open>auto simp: dial_def res_bind_eq_Inr\<close>)
qed

lemma dial_identity_witness:
  "\<exists>s. dial ex_ed ex_cert (ex_dial (Some [9 # replicate 96 7])) (Tls (Domain ''x'') 1) = Inr (DialChannel s (Some (replicate 32 7)))"
proof -
  let ?D = "ex_dial (Some [9 # replicate 96 7])"
  have v: "verify_server_cert ex_ed ex_cert (Some (replicate 32 7)) (9 # replicate 96 7) = Inr ()" by code_simp
  have "dial ex_ed ex_cert ?D (Tls (Domain ''x'') 1) = Inr (DialChannel 1 (certs_peer_id ex_ed ex_cert (Some [9 # replicate 96 7])))"
    by (simp add: dial_def ex_dial_def)
  from dial_identity [OF this, of "replicate 32 7"] this show ?thesis using v by (auto simp: ex_dial_def)
qed

end
