(* ===== verification/Kad_Lookup.thy ===== *)
theory Kad_Lookup
  imports Kad_Table P2p_Net
begin

text \<open>
  The lookup plane of the Kademlia discovery: its messages (\<open>p2p/src/discovery/kademlia/messages.rs\<close>) and the lookup
  service (\<open>lookup.rs\<close>), both as a client that asks other peers and as a server that answers from the
  routing table.  Connections deliver explicit lists of received messages and errors; when a list
  ends, the code waits.  Random ids and orders, and the binary codecs, are arguments.
\<close>

section \<open>Messages\<close>

datatype kad_net_cmd = KadPing | KadPong | KadFindPeer | KadPeer | KadPeers | KadShutdown

fun kad_cmd_debug :: "kad_net_cmd \<Rightarrow> string" where
  "kad_cmd_debug KadPing = ''Ping''"
| "kad_cmd_debug KadPong = ''Pong''"
| "kad_cmd_debug KadFindPeer = ''FindPeer''"
| "kad_cmd_debug KadPeer = ''Peer''"
| "kad_cmd_debug KadPeers = ''Peers''"
| "kad_cmd_debug KadShutdown = ''Shutdown''"

record kad_net_msg =
  kad_command :: kad_net_cmd
  kad_payload :: bytes

definition kad_net_msg_new :: "'a bin_enc \<Rightarrow> kad_net_cmd \<Rightarrow> 'a \<Rightarrow> p2p_error + kad_net_msg" where
  "kad_net_msg_new enc cmd t = res_bind (p2p_encode enc t) (\<lambda>p. Inr \<lparr>kad_command = cmd, kad_payload = p\<rparr>)"

definition kad_net_encode ::
  "kad_net_msg bin_enc \<Rightarrow> (u32 \<Rightarrow> string + bytes) \<Rightarrow> (p2p_error \<Rightarrow> string) \<Rightarrow> kad_net_msg \<Rightarrow> buffer \<Rightarrow> net_error + nat \<times> buffer" where
  "kad_net_encode enc enc32 show_err src dst =
     res_bind (map_err (\<lambda>e. IO (IoMsg Other (show_err e))) (p2p_encode enc src))
       (\<lambda>bs. length_encode enc32 MAX_BUFFER_SIZE bs dst)"

definition kad_net_decode ::
  "kad_net_msg bin_dec \<Rightarrow> (bytes \<Rightarrow> string + u32) \<Rightarrow> (p2p_error \<Rightarrow> string) \<Rightarrow> buffer \<Rightarrow> net_error + (nat \<times> kad_net_msg) option" where
  "kad_net_decode dec dec32 show_err src =
     res_bind (length_decode dec32 MAX_BUFFER_SIZE src) (\<lambda>r. case r of
        Some (n, s) \<Rightarrow>
          res_bind (map_err (\<lambda>e. IO (IoMsg Other (show_err e))) (p2p_decode dec s))
            (\<lambda>(m, _). Inr (Some (n, m)))
      | None \<Rightarrow> Inr None)"

record kad_ping_msg =
  pg_nonce :: bytes
  pg_version :: version_int

datatype pong_msg = PongMsg bytes

datatype find_peer_msg = FindPeerMsg peer_id

record peers_msg =
  pms_peers :: "peer_msg list"

text \<open>The binary codecs of the payloads.\<close>

record kad_api =
  ping_enc :: "kad_ping_msg bin_enc"
  ping_dec :: "kad_ping_msg bin_dec"
  pong_enc :: "pong_msg bin_enc"
  pong_dec :: "pong_msg bin_dec"
  find_enc :: "find_peer_msg bin_enc"
  find_dec :: "find_peer_msg bin_dec"
  peer_enc :: "peer_msg bin_enc"
  peer_dec :: "peer_msg bin_dec"
  peers_enc :: "peers_msg bin_enc"
  peers_dec :: "peers_msg bin_dec"
  kshut_enc :: "shutdown_msg bin_enc"
  kad_semver :: semver_api

section \<open>Checks on peer messages\<close>

definition MAX_PEERS_IN_PEERSMSG :: nat where "MAX_PEERS_IN_PEERSMSG = 10"
definition MAX_ADDRS_PER_PEER :: nat where "MAX_ADDRS_PER_PEER = 4"
definition MAX_DISCOVERY_ADDRS_PER_PEER :: nat where "MAX_DISCOVERY_ADDRS_PER_PEER = 3"

definition is_ipv4 :: "ip_addr \<Rightarrow> bool" where
  "is_ipv4 ip = (case ip of V4 _ \<Rightarrow> True | V6 _ \<Rightarrow> False)"

definition advertised_addr :: "endpoint \<Rightarrow> ip_addr option \<Rightarrow> peer_addr option" where
  "advertised_addr ep pub = (case from_endpoint ep 0 of
      None \<Rightarrow> None
    | Some pa \<Rightarrow> Some (case (pub, pa_addr pa) of
        (Some p, Ip ip) \<Rightarrow> if is_ipv4 p = is_ipv4 ip then pa\<lparr>pa_addr := Ip p\<rparr> else pa
      | _ \<Rightarrow> pa))"

definition is_reachable :: "peer_msg \<Rightarrow> bool" where
  "is_reachable p \<longleftrightarrow> pm_addrs p \<noteq> [] \<or> pm_discovery_addrs p \<noteq> []"

definition validate_peer_msg :: "peer_msg \<Rightarrow> p2p_error + peer_msg" where
  "validate_peer_msg p =
     (if MAX_ADDRS_PER_PEER < length (pm_addrs p)
      then Inl (P2pInvalidMsg (''PeerMsg.addrs has '' @ show_nat (length (pm_addrs p)) @ '' entries, max '' @ show_nat MAX_ADDRS_PER_PEER))
      else (let d = filter (\<lambda>a. pa_protocol a \<noteq> TlsT) (pm_discovery_addrs p)
        in if MAX_DISCOVERY_ADDRS_PER_PEER < length d
           then Inl (P2pInvalidMsg (''PeerMsg.discovery_addrs has '' @ show_nat (length d) @ '' entries, max '' @ show_nat MAX_DISCOVERY_ADDRS_PER_PEER))
           else Inr (p\<lparr>pm_discovery_addrs := d\<rparr>)))"

fun validate_all :: "peer_msg list \<Rightarrow> p2p_error + peer_msg list" where
  "validate_all [] = Inr []"
| "validate_all (p # ps) = res_bind (validate_peer_msg p) (\<lambda>p'. res_bind (validate_all ps) (\<lambda>ps'. Inr (p' # ps')))"

section \<open>The service\<close>

record lookup_endpoints =
  le_listen :: "endpoint list"
  le_lookup :: "endpoint option"
  le_refresh :: "endpoint option"

record lookup_service =
  ls_id :: peer_id
  ls_listener :: listener
  ls_connector :: connector
  ls_endpoints :: lookup_endpoints
  ls_config :: p2p_config
  ls_bloom :: local_bloom

definition lookup_service_new :: "peer_id \<Rightarrow> p2p_config \<Rightarrow> local_bloom \<Rightarrow> lookup_endpoints \<Rightarrow> lookup_service" where
  "lookup_service_new pid cfg bl eps = \<lparr>ls_id = pid,
     ls_listener = listener_new (lookup_inbound_slots cfg) (cfg_access_control cfg),
     ls_connector = connector_new (lookup_connect_retries cfg) (lookup_outbound_slots cfg) False,
     ls_endpoints = eps, ls_config = cfg, ls_bloom = bl\<rparr>"

text \<open>What a receive delivers, under the response timeout where there is one.\<close>

datatype lk_ev = LkMsg kad_net_msg | LkErr net_error | LkTimeout

text \<open>A send: the message that goes out, or the error of encoding or writing it.\<close>

definition kad_send :: "'a bin_enc \<Rightarrow> (kad_net_cmd \<Rightarrow> net_error option) \<Rightarrow> kad_net_cmd \<Rightarrow> 'a \<Rightarrow> p2p_error + kad_net_msg" where
  "kad_send enc werr cmd t = res_bind (kad_net_msg_new enc cmd t) (\<lambda>m. case werr cmd of None \<Rightarrow> Inr m | Some e \<Rightarrow> Inl (P2pNet e))"

definition send_ping_msg :: "kad_api \<Rightarrow> lookup_service \<Rightarrow> (kad_net_cmd \<Rightarrow> net_error option) \<Rightarrow> p2p_error + bytes \<Rightarrow> p2p_error + kad_ping_msg \<times> kad_net_msg" where
  "send_ping_msg K L werr nonce = res_bind nonce (\<lambda>n.
     let ping = \<lparr>pg_nonce = n, pg_version = ver_v (cfg_version (ls_config L))\<rparr>
     in res_bind (kad_send (ping_enc K) werr KadPing ping) (\<lambda>m. Inr (ping, m)))"

definition send_pong_msg :: "kad_api \<Rightarrow> (kad_net_cmd \<Rightarrow> net_error option) \<Rightarrow> bytes \<Rightarrow> p2p_error + kad_net_msg" where
  "send_pong_msg K werr nonce = kad_send (pong_enc K) werr KadPong (PongMsg nonce)"

definition send_findpeer_msg :: "kad_api \<Rightarrow> (kad_net_cmd \<Rightarrow> net_error option) \<Rightarrow> peer_id \<Rightarrow> p2p_error + kad_net_msg" where
  "send_findpeer_msg K werr pid = kad_send (find_enc K) werr KadFindPeer (FindPeerMsg pid)"

definition send_peers_msg :: "kad_api \<Rightarrow> (kad_net_cmd \<Rightarrow> net_error option) \<Rightarrow> routing_table \<Rightarrow> peer_id \<Rightarrow> p2p_error + kad_net_msg" where
  "send_peers_msg K werr t pid =
     kad_send (peers_enc K) werr KadPeers \<lparr>pms_peers = map entry_to_peer_msg (closest_entries t pid MAX_PEERS_IN_PEERSMSG)\<rparr>"

definition own_peer_msg :: "lookup_service \<Rightarrow> peer_msg" where
  "own_peer_msg L = (let pub = public_ip (ls_config L) in
     \<lparr>pm_peer_id = ls_id L,
      pm_addrs = List.map_filter (\<lambda>ep. advertised_addr ep pub) (le_listen (ls_endpoints L)),
      pm_discovery_addrs = List.map_filter (\<lambda>ep. case ep of None \<Rightarrow> None | Some e \<Rightarrow> advertised_addr e pub)
         [le_lookup (ls_endpoints L), le_refresh (ls_endpoints L)],
      pm_protocols = advertised (ls_bloom L)\<rparr>)"

definition send_peer_msg :: "kad_api \<Rightarrow> lookup_service \<Rightarrow> (kad_net_cmd \<Rightarrow> net_error option) \<Rightarrow> p2p_error + kad_net_msg list" where
  "send_peer_msg K L werr = (if \<not> is_reachable (own_peer_msg L) then Inr []
     else res_bind (kad_send (peer_enc K) werr KadPeer (own_peer_msg L)) (\<lambda>m. Inr [m]))"

definition send_shutdown_msg :: "kad_api \<Rightarrow> (kad_net_cmd \<Rightarrow> net_error option) \<Rightarrow> p2p_error + kad_net_msg" where
  "send_shutdown_msg K werr = kad_send (kshut_enc K) werr KadShutdown (ShutdownMsg 0)"

text \<open>The receive loop of \<open>handle_outbound\<close>: result and the messages sent by it.\<close>

definition accept_peers :: "kad_api \<Rightarrow> bytes \<Rightarrow> p2p_error + peer_msg list" where
  "accept_peers K p = res_bind (p2p_decode (peers_dec K) p) (\<lambda>(m, _).
     if MAX_PEERS_IN_PEERSMSG < length (pms_peers m) then Inl (LookupError ''Received too many peers in PeersMsg'')
     else res_bind (validate_all (pms_peers m)) (\<lambda>ps. Inr (filter is_reachable ps)))"

fun outbound_loop ::
  "kad_api \<Rightarrow> (kad_net_cmd \<Rightarrow> net_error option) \<Rightarrow> bytes \<Rightarrow> peer_id \<Rightarrow> lk_ev list
     \<Rightarrow> (p2p_error + peer_msg list) poll \<times> kad_net_msg list" where
  "outbound_loop K werr nonce target [] = (Pending, [])"
| "outbound_loop K werr nonce target (LkTimeout # es) = (Ready (Inl (P2pCore CoreTimeout)), [])"
| "outbound_loop K werr nonce target (LkErr e # es) = (Ready (Inl (P2pNet e)), [])"
| "outbound_loop K werr nonce target (LkMsg m # es) = (case kad_command m of
      KadPong \<Rightarrow> (case p2p_decode (pong_dec K) (kad_payload m) of
          Inl e \<Rightarrow> (Ready (Inl e), [])
        | Inr (PongMsg n, _) \<Rightarrow> (if nonce \<noteq> n then (Ready (Inl InvalidPongMsg), [])
            else (case send_findpeer_msg K werr target of
                Inl e \<Rightarrow> (Ready (Inl e), [])
              | Inr f \<Rightarrow> (case outbound_loop K werr nonce target es of (r, out) \<Rightarrow> (r, f # out)))))
    | KadPeers \<Rightarrow> (Ready (accept_peers K (kad_payload m)), [])
    | c \<Rightarrow> (Ready (Inl (P2pInvalidMsg (''Unexpected msg: '' @ kad_cmd_debug c))), []))"

definition handle_outbound ::
  "kad_api \<Rightarrow> lookup_service \<Rightarrow> (kad_net_cmd \<Rightarrow> net_error option) \<Rightarrow> p2p_error + bytes \<Rightarrow> peer_id \<Rightarrow> lk_ev list
     \<Rightarrow> (p2p_error + peer_msg list) poll \<times> kad_net_msg list" where
  "handle_outbound K L werr nonce target es = (case send_ping_msg K L werr nonce of
      Inl e \<Rightarrow> (Ready (Inl e), [])
    | Inr (ping, m) \<Rightarrow> (case outbound_loop K werr (pg_nonce ping) target es of
        (Ready (Inr peers), out) \<Rightarrow> (case send_peer_msg K L werr of
            Inl e \<Rightarrow> (Ready (Inl e), m # out)
          | Inr p \<Rightarrow> (case send_shutdown_msg K werr of
              Inl e \<Rightarrow> (Ready (Inl e), m # out @ p)
            | Inr s \<Rightarrow> (Ready (Inr peers), m # out @ p @ [s])))
      | (r, out) \<Rightarrow> (r, m # out)))"

text \<open>The server side: result, messages sent, and the routing table.  Each event has its time; \<open>LkTimeout\<close> is the
  end of the lifespan that the callback of \<open>start_listener\<close> gives the connection.\<close>

fun handle_inbound ::
  "kad_api \<Rightarrow> lookup_service \<Rightarrow> (kad_net_cmd \<Rightarrow> net_error option) \<Rightarrow> routing_table \<Rightarrow> (int \<times> lk_ev) list
     \<Rightarrow> (p2p_error + unit) poll \<times> kad_net_msg list \<times> routing_table" where
  "handle_inbound K L werr t [] = (Pending, [], t)"
| "handle_inbound K L werr t ((now, LkTimeout) # es) = (Ready (Inl (P2pCore CoreTimeout)), [], t)"
| "handle_inbound K L werr t ((now, LkErr e) # es) = (Ready (Inl (P2pNet e)), [], t)"
| "handle_inbound K L werr t ((now, LkMsg m) # es) = (case kad_command m of
      KadShutdown \<Rightarrow> (Ready (Inr ()), [], t)
    | KadPing \<Rightarrow> (case p2p_decode (ping_dec K) (kad_payload m) of
          Inl e \<Rightarrow> (Ready (Inl e), [], t)
        | Inr (ping, _) \<Rightarrow> (if \<not> version_match (kad_semver K) (ver_req (cfg_version (ls_config L))) (pg_version ping)
            then (Ready (Inl (IncompatibleVersion ''system: {}'')), [], t)
            else (case send_pong_msg K werr (pg_nonce ping) of
                Inl e \<Rightarrow> (Ready (Inl e), [], t)
              | Inr p \<Rightarrow> (case handle_inbound K L werr t es of (r, out, t') \<Rightarrow> (r, p # out, t')))))
    | KadFindPeer \<Rightarrow> (case p2p_decode (find_dec K) (kad_payload m) of
          Inl e \<Rightarrow> (Ready (Inl e), [], t)
        | Inr (FindPeerMsg pid, _) \<Rightarrow> (case send_peers_msg K werr t pid of
            Inl e \<Rightarrow> (Ready (Inl e), [], t)
          | Inr p \<Rightarrow> (case handle_inbound K L werr t es of (r, out, t') \<Rightarrow> (r, p # out, t'))))
    | KadPeer \<Rightarrow> (case res_bind (p2p_decode (peer_dec K) (kad_payload m)) (\<lambda>(p, _). validate_peer_msg p) of
          Inl e \<Rightarrow> (Ready (Inl e), [], t)
        | Inr p \<Rightarrow> (if \<not> is_reachable p then handle_inbound K L werr t es
            else handle_inbound K L werr (snd (add_entry now (peer_msg_to_entry p) t)) es))
    | c \<Rightarrow> (Ready (Inl (P2pInvalidMsg (''Unexpected msg: '' @ kad_cmd_debug c))), [], t))"

text \<open>The lookup listener accepts only TCP endpoints; each connection has a limited lifespan.\<close>

definition start_listener :: "lookup_service \<Rightarrow> p2p_error + endpoint option" where
  "start_listener L = (case le_lookup (ls_endpoints L) of
      None \<Rightarrow> Inr None
    | Some e \<Rightarrow> (if \<not> is_tcp e then Inl (ConfigError (''lookup endpoint must be tcp://..., got '' @ endpoint_display e)) else Inr (Some e)))"

section \<open>Lookups\<close>

text \<open>What the environment does in the \<open>n\<close>-th connection of a lookup: the connector's answer, the nonce, write errors
  and received messages.\<close>

record lookup_env =
  env_conn :: "nat \<Rightarrow> endpoint \<Rightarrow> peer_id option \<Rightarrow> (p2p_error + unit) poll"
  env_nonce :: "nat \<Rightarrow> p2p_error + bytes"
  env_werr :: "nat \<Rightarrow> kad_net_cmd \<Rightarrow> net_error option"
  env_recv :: "nat \<Rightarrow> lk_ev list"

text \<open>\<open>connect\<close>: the access check, the connection, the exchange, and the monitor event at its end.\<close>

definition lookup_connect ::
  "kad_api \<Rightarrow> lookup_service \<Rightarrow> lookup_env \<Rightarrow> nat \<Rightarrow> endpoint \<Rightarrow> peer_id option \<Rightarrow> peer_id
     \<Rightarrow> (p2p_error + peer_msg list) poll \<times> connection_kind list" where
  "lookup_connect K L E n ep pid target =
     (if \<not> cfg_access_control (ls_config L) (SubjEndpoint ep) (ActLookup Outbound) then (Ready (Inl AccessDenied), [])
      else (case env_conn E n ep pid of
          Pending \<Rightarrow> (Pending, [])
        | Ready (Inl e) \<Rightarrow> (Ready (Inl e), [])
        | Ready (Inr _) \<Rightarrow> (case fst (handle_outbound K L (env_werr E n) (env_nonce E n) target (env_recv E n)) of
            Pending \<Rightarrow> (Pending, [])
          | Ready r \<Rightarrow> (Ready r, [Disconnected ep]))))"

fun keep_new :: "peer_id \<Rightarrow> routing_table \<Rightarrow> peer_msg list \<Rightarrow> peer_msg list \<Rightarrow> peer_msg list" where
  "keep_new self t acc [] = acc"
| "keep_new self t acc (p # ps) = (if p \<in> set acc \<or> pm_peer_id p = self \<or> contains_key t (pm_peer_id p)
     then keep_new self t acc ps else keep_new self t (acc @ [p]) ps)"

text \<open>Each round has its random id and the table as it is when the answer arrives.\<close>

fun random_lookup ::
  "kad_api \<Rightarrow> lookup_service \<Rightarrow> lookup_env \<Rightarrow> endpoint \<Rightarrow> peer_id option \<Rightarrow> nat \<Rightarrow> ((p2p_error + peer_id) \<times> routing_table) list
     \<Rightarrow> peer_msg list \<Rightarrow> (p2p_error + peer_msg list) poll" where
  "random_lookup K L E ep pid n [] acc = Ready (Inr acc)"
| "random_lookup K L E ep pid n ((rid, t) # rounds) acc = (case rid of
      Inl e \<Rightarrow> Ready (Inl e)
    | Inr r \<Rightarrow> (case fst (lookup_connect K L E n ep pid r) of
        Pending \<Rightarrow> Pending
      | Ready (Inl e) \<Rightarrow> Ready (Inl e)
      | Ready (Inr peers) \<Rightarrow> random_lookup K L E ep pid (Suc n) rounds (keep_new (ls_id L) t acc peers)))"

definition SUPPORTED_LOOKUP_PROTOCOLS :: "transport list" where
  "SUPPORTED_LOOKUP_PROTOCOLS = [TcpT, QuicT]"

text \<open>The self lookup asks the peers found, in a random order (\<open>sample\<close>), all at once, and takes the answers in the order
  they complete (\<open>finish\<close>).\<close>

fun is_ready :: "'a poll \<Rightarrow> bool" where
  "is_ready (Ready _) = True"
| "is_ready Pending = False"

definition self_asks :: "(peer_msg list \<Rightarrow> peer_msg list) \<Rightarrow> peer_msg list \<Rightarrow> (endpoint \<times> peer_id) list" where
  "self_asks sample random_peers = List.map_filter (\<lambda>p.
     case pick_endpoint (pm_discovery_addrs p) SUPPORTED_LOOKUP_PROTOCOLS of None \<Rightarrow> None | Some ep \<Rightarrow> Some (ep, pm_peer_id p)) (sample random_peers)"

definition self_lookup ::
  "kad_api \<Rightarrow> lookup_service \<Rightarrow> lookup_env \<Rightarrow> (peer_msg list \<Rightarrow> peer_msg list)
     \<Rightarrow> ((p2p_error + peer_msg list) poll list \<Rightarrow> (p2p_error + peer_msg list) poll list) \<Rightarrow> nat \<Rightarrow> peer_msg list \<Rightarrow> peer_msg list poll" where
  "self_lookup K L E sample finish n random_peers =
     (let results = map (\<lambda>(i, ep, p). fst (lookup_connect K L E i ep (Some p) (ls_id L))) (enumerate n (self_asks sample random_peers))
      in if list_all is_ready results
         then Ready (concat (map (\<lambda>r. case r of Ready (Inr ps) \<Rightarrow> ps | _ \<Rightarrow> []) (finish results)))
         else Pending)"

text \<open>Filling the buffer from the back of the random peers, here given in reverse.\<close>

fun fill_buffer :: "peer_msg list \<Rightarrow> peer_msg list \<Rightarrow> peer_msg list" where
  "fill_buffer buf [] = buf"
| "fill_buffer buf (p # ps) = (if length buf < MAX_PEERS_IN_PEERSMSG then fill_buffer (buf @ [p]) ps else buf)"

fun add_peers :: "(nat \<Rightarrow> int) \<Rightarrow> nat \<Rightarrow> peer_msg list \<Rightarrow> routing_table \<Rightarrow> routing_table" where
  "add_peers clock n [] t = t"
| "add_peers clock n (p # ps) t = add_peers clock (Suc n) ps (snd (add_entry (clock n) (peer_msg_to_entry p) t))"

text \<open>\<open>t1\<close> and \<open>t2\<close> are the table during the two rounds of the random lookup, \<open>t\<close> the table at the end.\<close>

definition start_lookup ::
  "kad_api \<Rightarrow> lookup_service \<Rightarrow> lookup_env \<Rightarrow> (peer_msg list \<Rightarrow> peer_msg list)
     \<Rightarrow> ((p2p_error + peer_msg list) poll list \<Rightarrow> (p2p_error + peer_msg list) poll list)
     \<Rightarrow> (p2p_error + peer_id) \<times> routing_table \<Rightarrow> (p2p_error + peer_id) \<times> routing_table \<Rightarrow> (nat \<Rightarrow> int) \<Rightarrow> endpoint \<Rightarrow> peer_id option \<Rightarrow> routing_table
     \<Rightarrow> (p2p_error + unit) poll \<times> routing_table \<times> discovery_kind list" where
  "start_lookup K L E sample finish r1 r2 clock ep pid t =
     (case random_lookup K L E ep pid 0 [r1, r2] [] of
        Pending \<Rightarrow> (Pending, t, [LookupStarted ep])
      | Ready (Inl err) \<Rightarrow> (Ready (Inl err), t, [LookupStarted ep, LookupFailed ep])
      | Ready (Inr random_peers) \<Rightarrow> (case self_lookup K L E sample finish 2 random_peers of
          Pending \<Rightarrow> (Pending, t, [LookupStarted ep])
        | Ready found \<Rightarrow> (let buf = fill_buffer found (rev random_peers)
            in (Ready (Inr ()), add_peers clock 0 buf t, [LookupStarted ep, LookupSucceeded ep (length buf)]))))"

section \<open>Lemmas\<close>

definition addr_limits :: "peer_msg \<Rightarrow> bool" where
  "addr_limits p \<longleftrightarrow> is_reachable p \<and> length (pm_addrs p) \<le> MAX_ADDRS_PER_PEER
     \<and> length (pm_discovery_addrs p) \<le> MAX_DISCOVERY_ADDRS_PER_PEER \<and> (\<forall>a \<in> set (pm_discovery_addrs p). pa_protocol a \<noteq> TlsT)"

definition entry_ok :: "entry \<Rightarrow> bool" where
  "entry_ok e \<longleftrightarrow> addr_limits (entry_to_peer_msg e)"

definition bucket_all :: "(entry \<Rightarrow> bool) \<Rightarrow> bucket \<Rightarrow> bool" where
  "bucket_all P b \<longleftrightarrow> (\<forall>e \<in> set b. P (be_entry e))"

definition table_all :: "(entry \<Rightarrow> bool) \<Rightarrow> routing_table \<Rightarrow> bool" where
  "table_all P t \<longleftrightarrow> (\<forall>b \<in> set (rt_buckets t). bucket_all P b)"

definition kad_table_ok :: "routing_table \<Rightarrow> bool" where
  "kad_table_ok t \<longleftrightarrow> table_inv t \<and> table_all entry_ok t"

text \<open>The decoded peer ids are arrays of 32 bytes.\<close>

definition ids_law :: "kad_api \<Rightarrow> bool" where
  "ids_law K \<longleftrightarrow> (\<forall>b m n. peers_dec K b = Inr (m, n) \<longrightarrow> (\<forall>p \<in> set (pms_peers m). length (pm_peer_id p) = KEY_SIZE))
     \<and> (\<forall>b p n. peer_dec K b = Inr (p, n) \<longrightarrow> length (pm_peer_id p) = KEY_SIZE)"

definition codec_law :: "'a bin_enc \<Rightarrow> 'a bin_dec \<Rightarrow> 'a \<Rightarrow> bool" where
  "codec_law enc dec x \<longleftrightarrow> (\<exists>b n. enc x = Inr b \<and> dec b = Inr (x, n))"

lemma validate_peer_msg_Inr:
  "validate_peer_msg p = Inr q \<longleftrightarrow> q = p\<lparr>pm_discovery_addrs := filter (\<lambda>a. pa_protocol a \<noteq> TlsT) (pm_discovery_addrs p)\<rparr>
     \<and> length (pm_addrs p) \<le> MAX_ADDRS_PER_PEER \<and> length (pm_discovery_addrs q) \<le> MAX_DISCOVERY_ADDRS_PER_PEER"
  by (auto simp: validate_peer_msg_def Let_def)

lemma validate_limits:
  "validate_peer_msg p = Inr q \<Longrightarrow> is_reachable q \<Longrightarrow> addr_limits q \<and> pm_peer_id q = pm_peer_id p"
  by (auto simp: validate_peer_msg_Inr addr_limits_def)

lemma validate_id: "addr_limits p \<Longrightarrow> validate_peer_msg p = Inr p"
  by (auto simp: validate_peer_msg_Inr addr_limits_def filter_id_conv)

lemma validate_all_Inr:
  "validate_all ps = Inr qs \<longleftrightarrow> list_all2 (\<lambda>p q. validate_peer_msg p = Inr q) ps qs"
proof (induction ps arbitrary: qs)
  case (Cons p ps)
  then show ?case by (auto simp: res_bind_eq_Inr list_all2_Cons1)
qed auto

lemma validate_all_id: "\<forall>p \<in> set ps. addr_limits p \<Longrightarrow> validate_all ps = Inr ps"
  by (auto simp: validate_all_Inr list_all2_same validate_id)

lemma list_all2_set2: "list_all2 P xs ys \<Longrightarrow> y \<in> set ys \<Longrightarrow> \<exists>x \<in> set xs. P x y"
  by (induction rule: list_all2_induct) auto

lemma accept_peers_Inr:
  assumes "accept_peers K b = Inr ps"
  shows "length ps \<le> MAX_PEERS_IN_PEERSMSG \<and> (\<forall>p \<in> set ps. addr_limits p \<and> (ids_law K \<longrightarrow> length (pm_peer_id p) = KEY_SIZE))"
proof -
  obtain m n qs where m: "peers_dec K b = Inr (m, n)" "length (pms_peers m) \<le> MAX_PEERS_IN_PEERSMSG"
      "list_all2 (\<lambda>p q. validate_peer_msg p = Inr q) (pms_peers m) qs" "ps = filter is_reachable qs"
    using assms
    by (auto simp: accept_peers_def res_bind_eq_Inr p2p_decode_def map_err_def validate_all_Inr split: sum.splits if_splits)
  have "length ps \<le> length qs" by (simp add: m(4))
  moreover have "addr_limits q \<and> (ids_law K \<longrightarrow> length (pm_peer_id q) = KEY_SIZE)" if "q \<in> set ps" for q
  proof -
    from that m(4) have q: "q \<in> set qs" "is_reachable q" by auto
    obtain p where p: "p \<in> set (pms_peers m)" "validate_peer_msg p = Inr q"
      using list_all2_set2 [OF m(3) q(1)] by blast
    then have "ids_law K \<longrightarrow> length (pm_peer_id p) = KEY_SIZE" using m(1) by (auto simp: ids_law_def)
    then show ?thesis using validate_limits [OF p(2) q(2)] by simp
  qed
  ultimately show ?thesis using m(2) list_all2_lengthD [OF m(3)] by auto
qed

lemma outbound_loop_Inr:
  assumes "outbound_loop K werr nonce target es = (Ready (Inr ps), out)"
  shows "\<exists>b. accept_peers K b = Inr ps"
  using assms
proof (induction es arbitrary: out)
  case (Cons e es)
  show ?case
  proof (cases e)
    case (LkMsg m)
    with Cons show ?thesis
      by (cases "kad_command m") (auto split: sum.splits pong_msg.splits if_splits prod.splits)
  qed (use Cons in auto)
qed simp

lemma handle_outbound_Inr:
  assumes "fst (handle_outbound K L werr nonce target es) = Ready (Inr ps)"
  shows "length ps \<le> MAX_PEERS_IN_PEERSMSG \<and> (\<forall>p \<in> set ps. addr_limits p \<and> (ids_law K \<longrightarrow> length (pm_peer_id p) = KEY_SIZE))"
proof -
  obtain n out where "outbound_loop K werr n target es = (Ready (Inr ps), out)"
    using assms by (auto simp: handle_outbound_def split: sum.splits prod.splits poll.splits)
  then show ?thesis using outbound_loop_Inr accept_peers_Inr by blast
qed

lemma lookup_connect_Inr:
  assumes "fst (lookup_connect K L E n ep pid target) = Ready (Inr ps)"
  shows "length ps \<le> MAX_PEERS_IN_PEERSMSG \<and> (\<forall>p \<in> set ps. addr_limits p \<and> (ids_law K \<longrightarrow> length (pm_peer_id p) = KEY_SIZE))"
  using assms handle_outbound_Inr by (fastforce simp: lookup_connect_def split: if_splits poll.splits sum.splits)

subsection \<open>Table contents\<close>

lemma set_update_subset: "x \<in> set (xs[i := y]) \<Longrightarrow> x = y \<or> x \<in> set xs"
  using set_update_subset_insert by fast

lemma table_all_upd:
  assumes "table_all P t" "bucket_all P b"
  shows "table_all P (t\<lparr>rt_buckets := (rt_buckets t)[i := b]\<rparr>)"
  using assms by (auto simp: table_all_def dest: set_update_subset)

lemma bucket_remove_all: "bucket_all P b \<Longrightarrow> bucket_all P (bucket_remove k b)"
  by (induction b) (auto simp: bucket_all_def)

lemma bucket_add_all: "bucket_all P b \<Longrightarrow> P en \<Longrightarrow> bucket_all P (bucket_add now en b)"
  by (auto simp: bucket_add_def bucket_all_def)

lemma bucket_update_all: "bucket_all P b \<Longrightarrow> bucket_all P (bucket_update now k flag b)"
  by (induction b) (auto simp: entry_update_def Let_def bucket_all_def)

lemmas table_all_intros = table_all_upd bucket_remove_all bucket_add_all bucket_update_all

lemma table_all_bucket:
  assumes "table_inv t" "table_all P t" "length k = KEY_SIZE" "bucket_index (rt_key t) k = Some i"
  shows "bucket_all P (rt_buckets t ! i)"
  using table_bucket(1) [OF assms(1,4,3)] assms(2) by (simp add: table_all_def)

lemma add_entry_all:
  assumes "table_inv t" "table_all P t" "length (e_key en) = KEY_SIZE" "P en"
  shows "table_all P (snd (add_entry now en t))"
proof (cases "bucket_index (rt_key t) (e_key en)")
  case (Some i)
  obtain r t' where rt: "add_entry now en t = (r, t')" by fastforce
  note b = table_all_bucket [OF assms(1-3) Some]
  from rt Some show ?thesis
    by (cases rule: add_entry_cases) (simp_all add: rt assms(2,4) b table_all_intros)
qed (use assms(2) in \<open>simp add: add_entry_def\<close>)

lemma table_exec_all:
  assumes "table_inv t" "table_all P t" "table_op_ok x" "\<And>now en. x = OpAdd now en \<Longrightarrow> P en"
  shows "table_all P (table_exec x t)"
proof (cases x)
  case (OpAdd now en)
  then show ?thesis using assms add_entry_all by simp
next
  case (OpRemove k)
  then show ?thesis using assms(2,3) table_all_bucket [OF assms(1,2), of k]
    by (simp add: remove_entry_def table_all_intros split: option.splits)
next
  case (OpUpdate now k flag)
  then show ?thesis using assms(2,3) table_all_bucket [OF assms(1,2), of k]
    by (simp add: update_entry_def table_all_intros split: option.splits)
qed

text \<open>Every table operation of the discovery keeps the table well formed and its entries within the limits.\<close>

fun kad_op_ok :: "table_op \<Rightarrow> bool" where
  "kad_op_ok (OpAdd now e) = (length (e_key e) = KEY_SIZE \<and> entry_ok e)"
| "kad_op_ok x = table_op_ok x"

interpretation kad_ops: op_invariant table_exec kad_table_ok kad_op_ok
proof
  fix x t assume "kad_op_ok x" "kad_table_ok t"
  then have "table_op_ok x" "table_inv t" "table_all entry_ok t" "\<And>now en. x = OpAdd now en \<Longrightarrow> entry_ok en"
    by (cases x; simp add: kad_table_ok_def)+
  then show "kad_table_ok (table_exec x t)"
    using table_exec_all tbl_ops.exec_inv unfolding kad_table_ok_def by blast
qed

lemma rt_new_ok: "length self = KEY_SIZE \<Longrightarrow> kad_table_ok (rt_new self)"
  using rt_new_inv by (simp add: kad_table_ok_def table_all_def bucket_all_def rt_new_def)

subsection \<open>Lookups: lemmas\<close>

definition found_ok :: "kad_api \<Rightarrow> peer_msg \<Rightarrow> bool" where
  "found_ok K p \<longleftrightarrow> addr_limits p \<and> (ids_law K \<longrightarrow> length (pm_peer_id p) = KEY_SIZE)"

lemma keep_new_spec:
  "set (keep_new self t acc ps) \<subseteq> set acc \<union> set ps \<and> length (keep_new self t acc ps) \<le> length acc + length ps"
  by (induction self t acc ps rule: keep_new.induct) auto

lemma random_lookup_spec:
  assumes "random_lookup K L E ep pid n rounds acc = Ready (Inr ps)" "\<forall>p \<in> set acc. found_ok K p"
  shows "(\<forall>p \<in> set ps. found_ok K p) \<and> length ps \<le> length acc + MAX_PEERS_IN_PEERSMSG * length rounds"
  using assms
proof (induction K L E ep pid n rounds acc arbitrary: ps rule: random_lookup.induct)
  case (2 K L E ep pid n rid t rounds acc)
  from "2.prems"(1) obtain r peers where r: "rid = Inr r" "fst (lookup_connect K L E n ep pid r) = Ready (Inr peers)"
      "random_lookup K L E ep pid (Suc n) rounds (keep_new (ls_id L) t acc peers) = Ready (Inr ps)"
    by (auto split: sum.splits poll.splits)
  have p: "length peers \<le> MAX_PEERS_IN_PEERSMSG" "\<forall>p \<in> set peers. found_ok K p"
    using lookup_connect_Inr [OF r(2)] by (auto simp: found_ok_def)
  then have "\<forall>p \<in> set (keep_new (ls_id L) t acc peers). found_ok K p"
    using keep_new_spec [of "ls_id L" t acc peers] "2.prems"(2) by blast
  from "2.IH" [OF r(1,2) refl r(3) this] show ?case
    using keep_new_spec [of "ls_id L" t acc peers] p(1) by simp
qed simp

lemma fill_buffer_spec:
  "set (fill_buffer buf ps) \<subseteq> set buf \<union> set ps \<and> length (fill_buffer buf ps) \<le> max (length buf) MAX_PEERS_IN_PEERSMSG"
  by (induction buf ps rule: fill_buffer.induct) auto

lemma sum_length_concat: "\<forall>xs \<in> set xss. length xs \<le> k \<Longrightarrow> length (concat xss) \<le> k * length xss"
  by (induction xss) auto

lemma self_lookup_spec:
  assumes "self_lookup K L E sample finish n rp = Ready ps" "\<And>rs. mset (finish rs) = mset rs" "length (sample rp) \<le> length rp"
  shows "(\<forall>p \<in> set ps. found_ok K p) \<and> length ps \<le> MAX_PEERS_IN_PEERSMSG * length rp"
proof -
  define rs where "rs = map (\<lambda>(i, ep, p). fst (lookup_connect K L E i ep (Some p) (ls_id L))) (enumerate n (self_asks sample rp))"
  define got where "got = (\<lambda>r :: (p2p_error + peer_msg list) poll. case r of Ready (Inr ps) \<Rightarrow> ps | _ \<Rightarrow> [])"
  have ps: "ps = concat (map got (finish rs))"
    using assms(1) by (auto simp: self_lookup_def rs_def got_def Let_def split: if_splits)
  have set: "set (finish rs) = set rs" and len: "length (finish rs) = length rs"
    using assms(2) [of rs] by (metis set_mset_mset, metis size_mset)
  have "length (self_asks sample rp) \<le> length (sample rp)" by (simp add: self_asks_def map_filter_def)
  then have l: "length rs \<le> length rp" using assms(3) by (simp add: rs_def)
  have each: "length (got r) \<le> MAX_PEERS_IN_PEERSMSG \<and> (\<forall>p \<in> set (got r). found_ok K p)" if r: "r \<in> set rs" for r
  proof -
    from r obtain i ep p where r': "r = fst (lookup_connect K L E i ep (Some p) (ls_id L))"
      by (auto simp: rs_def)
    show ?thesis
    proof (cases "\<exists>qs. r = Ready (Inr qs)")
      case True
      then show ?thesis using lookup_connect_Inr r' by (fastforce simp: got_def found_ok_def)
    qed (auto simp: got_def split: poll.splits sum.splits)
  qed
  then have "length ps \<le> MAX_PEERS_IN_PEERSMSG * length rs"
    using sum_length_concat [of "map got (finish rs)"] by (simp add: ps set len)
  also have "\<dots> \<le> MAX_PEERS_IN_PEERSMSG * length rp" using l by simp
  finally show ?thesis using each by (auto simp: ps set)
qed

lemma found_entry: "found_ok K p \<Longrightarrow> ids_law K \<Longrightarrow> kad_op_ok (OpAdd now (peer_msg_to_entry p))"
  by (simp add: found_ok_def entry_ok_def peer_msg_to_entry_def entry_to_peer_msg_def addr_limits_def is_reachable_def)

text \<open>The lookup plane changes the table only by adding entries within the limits.\<close>

definition kad_adds :: "table_op list \<Rightarrow> bool" where
  "kad_adds ops \<longleftrightarrow> (\<forall>x \<in> set ops. kad_op_ok x \<and> (\<exists>now en. x = OpAdd now en))"

lemma kad_adds_simps [simp]: "kad_adds []" "kad_adds (x # ops) \<longleftrightarrow> kad_op_ok x \<and> (\<exists>now en. x = OpAdd now en) \<and> kad_adds ops"
  by (auto simp: kad_adds_def)

lemma kad_adds_ok: "kad_adds ops \<Longrightarrow> kad_table_ok t \<Longrightarrow> kad_table_ok (fold table_exec ops t)"
  by (rule kad_ops.fold_inv) (auto simp: kad_adds_def list_all_iff)

lemma add_peers_ops:
  assumes "ids_law K" "\<forall>p \<in> set ps. found_ok K p"
  shows "\<exists>ops. kad_adds ops \<and> add_peers clock n ps t = fold table_exec ops t"
  using assms(2)
proof (induction ps arbitrary: n t)
  case Nil
  then show ?case by (auto intro: exI [of _ "[]"])
next
  case (Cons p ps)
  then obtain ops where "kad_adds ops"
      "add_peers clock (Suc n) ps (snd (add_entry (clock n) (peer_msg_to_entry p) t)) = fold table_exec ops (snd (add_entry (clock n) (peer_msg_to_entry p) t))"
    by fastforce
  then show ?case using found_entry [OF _ assms(1), of p "clock n"] Cons.prems
    by (intro exI [of _ "OpAdd (clock n) (peer_msg_to_entry p) # ops"]) simp
qed

subsection \<open>Both sides of an exchange\<close>

lemma inbound_peer_ok:
  assumes "res_bind (p2p_decode (peer_dec K) b) (\<lambda>(p, _). validate_peer_msg p) = Inr p" "is_reachable p" "ids_law K"
  shows "kad_op_ok (OpAdd now (peer_msg_to_entry p))"
proof (rule found_entry [OF _ assms(3)])
  obtain q n where q: "peer_dec K b = Inr (q, n)" "validate_peer_msg q = Inr p"
    using assms(1) by (auto simp: res_bind_eq_Inr p2p_decode_def map_err_def split: sum.splits)
  moreover from q(1) have "length (pm_peer_id q) = KEY_SIZE" using assms(3) unfolding ids_law_def by blast
  ultimately show "found_ok K p"
    using validate_limits [OF q(2) assms(2)] by (simp add: found_ok_def)
qed

lemma handle_inbound_ops:
  assumes "ids_law K"
  shows "\<exists>ops. kad_adds ops \<and> snd (snd (handle_inbound K L werr t es)) = fold table_exec ops t"
proof (induction es arbitrary: t)
  case Nil
  then show ?case by (auto intro: exI [of _ "[]"])
next
  case (Cons e es)
  obtain now ev where e: "e = (now, ev)" by fastforce
  have stay: ?case if "snd (snd (handle_inbound K L werr t (e # es))) \<in> {t, snd (snd (handle_inbound K L werr t es))}"
    using that Cons.IH [of t] by (auto intro: exI [of _ "[]"])
  show ?case
  proof (cases ev)
    case (LkMsg m)
    show ?thesis
    proof (cases "kad_command m = KadPeer")
      case True
      let ?r = "res_bind (p2p_decode (peer_dec K) (kad_payload m)) (\<lambda>(p, _). validate_peer_msg p)"
      show ?thesis
      proof (cases "\<exists>p. ?r = Inr p \<and> is_reachable p")
        case added: True
        then obtain p where p: "?r = Inr p" "is_reachable p" by blast
        let ?x = "OpAdd now (peer_msg_to_entry p)"
        have x: "kad_op_ok ?x" using inbound_peer_ok [OF p assms] .
        obtain ops where ops: "kad_adds ops" "snd (snd (handle_inbound K L werr (table_exec ?x t) es)) = fold table_exec ops (table_exec ?x t)"
          using Cons.IH by blast
        have "snd (snd (handle_inbound K L werr t (e # es))) = fold table_exec (?x # ops) t"
          using ops(2) p True by (simp add: e LkMsg)
        then show ?thesis using ops(1) x by (intro exI [of _ "?x # ops"]) (simp del: fold_simps)
      next
        case False
        then show ?thesis by (intro stay) (simp add: e LkMsg True split: sum.splits)
      qed
    next
      case False
      then show ?thesis
        by (intro stay; cases "kad_command m") (auto simp: e LkMsg split: sum.splits prod.splits find_peer_msg.splits)
    qed
  qed (intro stay; simp add: e)+
qed

lemma closest_entries_sub:
  assumes "table_inv t" "length target = KEY_SIZE" "table_all P t" "mx \<noteq> 0"
  shows "length (closest_entries t target mx) \<le> mx \<and> (\<forall>e \<in> set (closest_entries t target mx). P e)"
proof -
  have "P (be_entry e)" if "i \<in> set (bucket_indexes t target)" "e \<in> set (rt_buckets t ! i)" for i e
    using bucket_indexes_less [OF assms(1,2) that(1)] that(2) assms(3) by (auto simp: table_all_def bucket_all_def)
  then show ?thesis using assms(4)
    by (auto simp: closest_entries_def closest_entries_spec Let_def dest!: in_set_takeD)
qed

lemma kad_send_ok: "enc x = Inr b \<Longrightarrow> kad_send enc (\<lambda>_. None) c x = Inr \<lparr>kad_command = c, kad_payload = b\<rparr>"
  by (simp add: kad_send_def kad_net_msg_new_def p2p_encode_def map_err_def)

lemma p2p_decode_ok: "dec b = Inr r \<Longrightarrow> p2p_decode dec b = Inr r"
  by (simp add: p2p_decode_def map_err_def)

lemma start_lookup_cases:
  assumes "start_lookup K L E sample finish r1 r2 clock ep pid t = (r, t', evs)" "ids_law K"
    and "\<forall>rs. mset (finish rs) = mset rs" "\<forall>ps. mset (sample ps) = mset ps"
  obtains (pending) "t' = t" "r = Pending" "evs = [LookupStarted ep]"
  | (failed) e where "t' = t" "r = Ready (Inl e)" "evs = [LookupStarted ep, LookupFailed ep]"
  | (found) n ops where "r = Ready (Inr ())" "kad_adds ops" "t' = fold table_exec ops t" "n \<le> 200" "evs = [LookupStarted ep, LookupSucceeded ep n]"
proof -
  consider (other) "t' = t" "(r = Pending \<and> evs = [LookupStarted ep]) \<or> (\<exists>e. r = Ready (Inl e) \<and> evs = [LookupStarted ep, LookupFailed ep])"
    | (found) rp ps where "random_lookup K L E ep pid 0 [r1, r2] [] = Ready (Inr rp)" "self_lookup K L E sample finish 2 rp = Ready ps"
      "r = Ready (Inr ())" "t' = add_peers clock 0 (fill_buffer ps (rev rp)) t"
      "evs = [LookupStarted ep, LookupSucceeded ep (length (fill_buffer ps (rev rp)))]"
    using assms(1) by (auto simp: start_lookup_def Let_def split: poll.splits sum.splits)
  then show ?thesis
  proof cases
    case f: found
    have rp: "\<forall>p \<in> set rp. found_ok K p" "length rp \<le> 20"
      using random_lookup_spec [OF f(1)] by (simp_all add: MAX_PEERS_IN_PEERSMSG_def)
    have "length (sample rp) \<le> length rp" using mset_eq_length [of "sample rp" rp] assms(4) by simp
    then have ps: "\<forall>p \<in> set ps. found_ok K p" "length ps \<le> 10 * length rp"
      using self_lookup_spec [OF f(2)] assms(3) by (simp_all add: MAX_PEERS_IN_PEERSMSG_def)
    have buf: "\<forall>p \<in> set (fill_buffer ps (rev rp)). found_ok K p" "length (fill_buffer ps (rev rp)) \<le> 200"
      using fill_buffer_spec [of ps "rev rp"] rp ps by (auto simp: MAX_PEERS_IN_PEERSMSG_def)
    obtain ops where "kad_adds ops" "t' = fold table_exec ops t" using add_peers_ops [OF assms(2) buf(1)] f(4) by blast
    then show ?thesis using found f(3,5) buf(2) by blast
  qed (use pending failed in blast)
qed

text \<open>What the server does with the client's own address message.\<close>

definition server_end :: "lookup_service \<Rightarrow> int \<Rightarrow> routing_table \<Rightarrow> (p2p_error + unit) poll \<times> routing_table" where
  "server_end C now t = (if \<not> is_reachable (own_peer_msg C) then (Ready (Inr ()), t)
     else (case validate_peer_msg (own_peer_msg C) of
         Inl e \<Rightarrow> (Ready (Inl e), t)
       | Inr p \<Rightarrow> (Ready (Inr ()), if is_reachable p then snd (add_entry now (peer_msg_to_entry p) t) else t)))"

definition exchange_law :: "kad_api \<Rightarrow> lookup_service \<Rightarrow> bytes \<Rightarrow> peer_id \<Rightarrow> peer_msg list \<Rightarrow> bool" where
  "exchange_law K C nonce target ps \<longleftrightarrow> codec_law (ping_enc K) (ping_dec K) \<lparr>pg_nonce = nonce, pg_version = ver_v (cfg_version (ls_config C))\<rparr>
     \<and> codec_law (pong_enc K) (pong_dec K) (PongMsg nonce) \<and> codec_law (find_enc K) (find_dec K) (FindPeerMsg target)
     \<and> codec_law (peers_enc K) (peers_dec K) \<lparr>pms_peers = ps\<rparr> \<and> codec_law (peer_enc K) (peer_dec K) (own_peer_msg C)
     \<and> is_ok (kshut_enc K (ShutdownMsg 0))"

lemma exchange_client:
  assumes "exchange_law K C nonce target ps" "length ps \<le> MAX_PEERS_IN_PEERSMSG" "\<forall>p \<in> set ps. addr_limits p"
    and "pong_enc K (PongMsg nonce) = Inr b" "peers_enc K \<lparr>pms_peers = ps\<rparr> = Inr c"
  shows "handle_outbound K C (\<lambda>_. None) (Inr nonce) target
      [LkMsg \<lparr>kad_command = KadPong, kad_payload = b\<rparr>, LkMsg \<lparr>kad_command = KadPeers, kad_payload = c\<rparr>] =
    (Ready (Inr ps),
     [\<lparr>kad_command = KadPing, kad_payload = projr (ping_enc K \<lparr>pg_nonce = nonce, pg_version = ver_v (cfg_version (ls_config C))\<rparr>)\<rparr>,
      \<lparr>kad_command = KadFindPeer, kad_payload = projr (find_enc K (FindPeerMsg target))\<rparr>]
     @ (if is_reachable (own_peer_msg C) then [\<lparr>kad_command = KadPeer, kad_payload = projr (peer_enc K (own_peer_msg C))\<rparr>] else [])
     @ [\<lparr>kad_command = KadShutdown, kad_payload = projr (kshut_enc K (ShutdownMsg 0))\<rparr>])"
proof -
  have f: "filter is_reachable ps = ps" using assms(3) by (auto simp: addr_limits_def filter_id_conv)
  obtain s where s: "kshut_enc K (ShutdownMsg 0) = Inr s" using assms(1) by (auto simp: exchange_law_def is_ok_def split: sum.splits)
  show ?thesis using assms s f
    by (auto simp: exchange_law_def codec_law_def handle_outbound_def send_ping_msg_def send_findpeer_msg_def send_peer_msg_def
        send_shutdown_msg_def Let_def kad_send_ok p2p_decode_ok accept_peers_def validate_all_id)
qed

lemma exchange_server:
  assumes "exchange_law K C nonce target ps" "ps = map entry_to_peer_msg (closest_entries t target MAX_PEERS_IN_PEERSMSG)"
    and "version_match (kad_semver K) (ver_req (cfg_version (ls_config S))) (ver_v (cfg_version (ls_config C)))"
    and "pong_enc K (PongMsg nonce) = Inr b" "peers_enc K \<lparr>pms_peers = ps\<rparr> = Inr c"
  shows "handle_inbound K S (\<lambda>_. None) t (map (\<lambda>m. (now, LkMsg m))
     ([\<lparr>kad_command = KadPing, kad_payload = projr (ping_enc K \<lparr>pg_nonce = nonce, pg_version = ver_v (cfg_version (ls_config C))\<rparr>)\<rparr>,
      \<lparr>kad_command = KadFindPeer, kad_payload = projr (find_enc K (FindPeerMsg target))\<rparr>]
     @ (if is_reachable (own_peer_msg C) then [\<lparr>kad_command = KadPeer, kad_payload = projr (peer_enc K (own_peer_msg C))\<rparr>] else [])
     @ [\<lparr>kad_command = KadShutdown, kad_payload = projr (kshut_enc K (ShutdownMsg 0))\<rparr>])) =
    (fst (server_end C now t), [\<lparr>kad_command = KadPong, kad_payload = b\<rparr>, \<lparr>kad_command = KadPeers, kad_payload = c\<rparr>], snd (server_end C now t))"
  using assms
  by (auto simp: exchange_law_def codec_law_def send_pong_msg_def send_peers_msg_def kad_send_ok p2p_decode_ok server_end_def
      split: sum.splits)

section \<open>Examples\<close>

definition ex_lookup :: "u8 \<Rightarrow> lookup_service" where
  "ex_lookup i = lookup_service_new (i # replicate 31 0)
     \<lparr>cfg_version = ex_version, enable_monitor = False, cfg_access_control = allow_all,
        handshake_timeout = 4, ping_interval = 20, ping_timeout = 2, max_connect_retries = 3,
        bootstrap_peers = [], listen_endpoints = [], discovery_endpoints = [], dial_peers = [], public_ip = None,
        inbound_slots = 12, outbound_slots = 12, seeding_interval = 60,
        lookup_inbound_slots = 20, lookup_outbound_slots = 20, lookup_response_timeout = 1,
        lookup_connection_lifespan = 3, lookup_connect_retries = 3,
        refresh_interval = 1800, refresh_response_timeout = 1, refresh_connect_retries = 3\<rparr>
     local_bloom_default \<lparr>le_listen = [Tcp (Ip (V4 [10, 0, i, 1])) 8000], le_lookup = Some (Tcp (Ip (V4 [10, 0, i, 1])) 8001), le_refresh = None\<rparr>"

definition ex_table :: routing_table where
  "ex_table = table_exec (OpAdd 0 (example_entry 1)) (rt_new (replicate 32 0))"

definition ex_kad :: "peer_msg list \<Rightarrow> kad_api" where
  "ex_kad ps = \<lparr>ping_enc = (\<lambda>p. Inr (pg_nonce p)), ping_dec = (\<lambda>b. Inr (\<lparr>pg_nonce = b, pg_version = ver_v ex_version\<rparr>, length b)),
     pong_enc = (\<lambda>p. case p of PongMsg b \<Rightarrow> Inr b), pong_dec = (\<lambda>b. Inr (PongMsg b, length b)),
     find_enc = (\<lambda>p. case p of FindPeerMsg b \<Rightarrow> Inr b), find_dec = (\<lambda>b. Inr (FindPeerMsg b, length b)),
     peer_enc = (\<lambda>p. Inr (pm_peer_id p)), peer_dec = (\<lambda>b. if length b = KEY_SIZE then Inr (own_peer_msg (ex_lookup (hd b)), length b) else Inl ''short''),
     peers_enc = (\<lambda>p. Inr []), peers_dec = (\<lambda>b. if b = [] then Inr (\<lparr>pms_peers = ps\<rparr>, 0) else Inl ''long''),
     kshut_enc = (\<lambda>_. Inr [0]), kad_semver = ex_semver\<rparr>"

lemma ex_table_ok: "kad_table_ok ex_table"
proof -
  have "kad_table_ok (rt_new (replicate 32 0))"
    by (rule rt_new_ok) (simp add: KEY_SIZE_def)
  moreover have "kad_op_ok (OpAdd 0 (example_entry 1))"
    by (simp add: example_entry_def KEY_SIZE_def entry_ok_def addr_limits_def entry_to_peer_msg_def is_reachable_def
        MAX_ADDRS_PER_PEER_def MAX_DISCOVERY_ADDRS_PER_PEER_def)
  ultimately show ?thesis unfolding ex_table_def by (rule kad_ops.exec_inv [rotated])
qed

lemma ex_closest: "closest_entries ex_table (1 # replicate 31 0) MAX_PEERS_IN_PEERSMSG = [example_entry 1]"
  by code_simp

lemma ex_exchange: "exchange_law (ex_kad ps) (ex_lookup 2) nonce target ps"
  by (simp add: exchange_law_def codec_law_def ex_kad_def ex_lookup_def lookup_service_new_def own_peer_msg_def is_ok_def KEY_SIZE_def)

lemma ex_ids: "\<forall>p \<in> set ps. length (pm_peer_id p) = KEY_SIZE \<Longrightarrow> ids_law (ex_kad ps)"
  by (auto simp: ids_law_def ex_kad_def own_peer_msg_def ex_lookup_def lookup_service_new_def KEY_SIZE_def split: if_splits)

definition ex_env :: "lookup_env" where
  "ex_env = \<lparr>env_conn = (\<lambda>n ep pid. Ready (Inr ())), env_nonce = (\<lambda>n. Inr [7]), env_werr = (\<lambda>n c. None),
     env_recv = (\<lambda>n. [LkMsg \<lparr>kad_command = KadPong, kad_payload = [7]\<rparr>, LkMsg \<lparr>kad_command = KadPeers, kad_payload = []\<rparr>])\<rparr>"

lemma ex_start:
  "start_lookup (ex_kad [entry_to_peer_msg (example_entry 1)]) (ex_lookup 2) ex_env rev rev (Inr (replicate 32 9), rt_new (replicate 32 0))
     (Inr (replicate 32 8), rt_new (replicate 32 0)) (\<lambda>_. 6) (Tcp (Ip (V4 [10, 0, 9, 9])) 1) None (rt_new (replicate 32 0))
   = (Ready (Inr ()), snd (add_entry 6 (example_entry 1) (rt_new (replicate 32 0))),
      [LookupStarted (Tcp (Ip (V4 [10, 0, 9, 9])) 1), LookupSucceeded (Tcp (Ip (V4 [10, 0, 9, 9])) 1) 1])"
  by code_simp

section \<open>Properties\<close>



text \<open>C20. Nothing a remote peer sends can break the limits: a lookup that succeeds has at most ten peers, each
  with an address, at most four data and three discovery addresses and no TLS discovery address;
  and whatever a client sends to the server, the routing table stays well formed and every entry within
  the limits.\<close>

theorem lookup_untrusted:
  assumes "ids_law K" "kad_table_ok t"
  shows "(fst (handle_outbound K L werr nonce target es) = Ready (Inr ps) \<longrightarrow> length ps \<le> 10
       \<and> (\<forall>p \<in> set ps. is_reachable p \<and> length (pm_addrs p) \<le> 4 \<and> length (pm_discovery_addrs p) \<le> 3
            \<and> (\<forall>a \<in> set (pm_discovery_addrs p). pa_protocol a \<noteq> TlsT)))
     \<and> kad_table_ok (snd (snd (handle_inbound K L' werr' t ms)))"
  using handle_inbound_ops [OF assms(1), of L' werr' t ms] kad_adds_ok [OF _ assms(2)] handle_outbound_Inr [of K L werr nonce target es ps]
  by (auto simp: addr_limits_def MAX_PEERS_IN_PEERSMSG_def MAX_ADDRS_PER_PEER_def MAX_DISCOVERY_ADDRS_PER_PEER_def)

theorem lookup_untrusted_witness:
  "kad_table_ok (snd (snd (handle_inbound (ex_kad []) (ex_lookup 0) (\<lambda>_. None) ex_table
     [(3, LkMsg \<lparr>kad_command = KadPeer, kad_payload = 2 # replicate 31 0\<rparr>)])))"
  by (rule conjunct2 [OF lookup_untrusted [OF ex_ids ex_table_ok]]) simp

text \<open>C21. A whole lookup, whatever the peers asked answer: an unsuccessful or unfinished one leaves the table as it is; a
  successful one reports how many peers it offered to the table, 200 at most, and leaves a well-formed
  table with every entry within the limits.\<close>

theorem start_lookup_sound:
  assumes "ids_law K" "kad_table_ok t" "\<forall>rs. mset (finish rs) = mset rs" "\<forall>ps. mset (sample ps) = mset ps"
    and "start_lookup K L E sample finish r1 r2 clock ep pid t = (r, t', evs)"
  shows "kad_table_ok t' \<and> (case r of
      Pending \<Rightarrow> t' = t \<and> evs = [LookupStarted ep]
    | Ready (Inl e) \<Rightarrow> t' = t \<and> evs = [LookupStarted ep, LookupFailed ep]
    | Ready (Inr _) \<Rightarrow> \<exists>n \<le> 200. evs = [LookupStarted ep, LookupSucceeded ep n])"
  using assms(5,1,3,4)
  by (cases rule: start_lookup_cases) (use assms(2) kad_adds_ok in auto)

theorem start_lookup_sound_witness:
  "kad_table_ok (snd (add_entry 6 (example_entry 1) (rt_new (replicate 32 0))))"
  using start_lookup_sound [OF ex_ids rt_new_ok _ _ ex_start]
  by (simp add: KEY_SIZE_def entry_to_peer_msg_def example_entry_def)

text \<open>A lookup has no overall deadline: a server that answers with pongs keeps the outbound connection, and its slot, for any number of
  messages; each pong makes the client send another FindPeer and wait again.\<close>

lemma lookup_pong_flood:
  assumes "ping_enc K \<lparr>pg_nonce = nonce, pg_version = ver_v (cfg_version (ls_config L))\<rparr> = Inr a"
    and "find_enc K (FindPeerMsg target) = Inr f" and "pong_dec K b = Inr (PongMsg nonce, m)"
  shows "handle_outbound K L (\<lambda>_. None) (Inr nonce) target (replicate n (LkMsg \<lparr>kad_command = KadPong, kad_payload = b\<rparr>))
    = (Pending, \<lparr>kad_command = KadPing, kad_payload = a\<rparr> # replicate n \<lparr>kad_command = KadFindPeer, kad_payload = f\<rparr>)"
proof -
  have "outbound_loop K (\<lambda>_. None) nonce target (replicate n (LkMsg \<lparr>kad_command = KadPong, kad_payload = b\<rparr>))
    = (Pending, replicate n \<lparr>kad_command = KadFindPeer, kad_payload = f\<rparr>)"
    using assms(2,3) by (induction n) (simp_all add: p2p_decode_ok send_findpeer_msg_def kad_send_ok)
  then show ?thesis using assms(1) by (simp add: handle_outbound_def send_ping_msg_def kad_send_ok Let_def)
qed

lemma lookup_pong_flood_witness:
  "fst (handle_outbound (ex_kad []) (ex_lookup 2) (\<lambda>_. None) (Inr [7]) (replicate 32 1)
     (replicate 1000 (LkMsg \<lparr>kad_command = KadPong, kad_payload = [7]\<rparr>))) = Pending"
  by (subst lookup_pong_flood [of _ _ _ "[7]" _ "replicate 32 1" _ "1"]) (simp_all add: ex_kad_def)

end
