(* ===== verification/Kad_Refresh.thy ===== *)
theory Kad_Refresh
  imports Kad_Lookup
begin

text \<open>
  The refresh service of the Kademlia discovery (\<open>p2p/src/discovery/kademlia/refresh.rs\<close>): answering pings over UDP under a
  rate limit, and the periodic rounds that ping the entries of the routing table and evict
  those that fail.  Token counts are exact multiples of half a nanosecond's refill; the rounding of
  floating-point numbers is not modelled.
\<close>

datatype refresh_msg = RefreshPing bytes | RefreshPong bytes

definition REFRESH_MAX_FAILURES :: u32 where "REFRESH_MAX_FAILURES = 3"
definition MAX_UDP_BUF :: nat where "MAX_UDP_BUF = 1024"
definition REFRESH_PER_BUCKET :: nat where "REFRESH_PER_BUCKET = 8"

section \<open>The rate limit\<close>

text \<open>Tokens are counted in units of \<open>1 / (2 * 10 ^ 9)\<close>, so that a nanosecond refills one unit at half a token per second.\<close>

definition TOKEN :: nat where "TOKEN = 2 * 10 ^ 9"
definition RL_CAPACITY :: nat where "RL_CAPACITY = 5 * TOKEN"
definition rl_refill :: "nat \<Rightarrow> nat" where "rl_refill elapsed_ns = elapsed_ns"

record rate_bucket =
  tokens :: nat
  last_refill :: nat

definition rate_bucket_new :: "nat \<Rightarrow> rate_bucket" where
  "rate_bucket_new now = \<lparr>tokens = RL_CAPACITY, last_refill = now\<rparr>"

definition rate_allow :: "nat \<Rightarrow> rate_bucket \<Rightarrow> bool \<times> rate_bucket" where
  "rate_allow now b = (let tk = min (tokens b + rl_refill (now - last_refill b)) RL_CAPACITY
     in if TOKEN \<le> tk then (True, \<lparr>tokens = tk - TOKEN, last_refill = now\<rparr>)
        else (False, \<lparr>tokens = tk, last_refill = now\<rparr>))"

section \<open>Answering pings\<close>

record refresh_api =
  rf_enc :: "refresh_msg bin_enc"
  rf_dec :: "refresh_msg bin_dec"

text \<open>One round of the listen loop: the time, the routing table, what \<open>recv_from\<close> gives, and the error of \<open>send_to\<close>, if any.\<close>

record refresh_ev =
  rv_now :: nat
  rv_table :: routing_table
  rv_recv :: "net_error + bytes \<times> socket_addr"
  rv_send :: "net_error option"

type_synonym limiter = "ip_addr \<rightharpoonup> rate_bucket"

text \<open>Result, limiter, monitor events and datagrams sent.  A datagram longer than the buffer is cut off.\<close>

definition answer_ping :: "refresh_api \<Rightarrow> net_error option \<Rightarrow> bytes \<Rightarrow> socket_addr \<Rightarrow> (p2p_error + unit) \<times> (bytes \<times> socket_addr) list" where
  "answer_ping A send d sender = (case p2p_decode (rf_dec A) d of
      Inl e \<Rightarrow> (Inl e, [])
    | Inr (RefreshPong _, _) \<Rightarrow> (Inl (P2pInvalidMsg ''Unexpected pong msg''), [])
    | Inr (RefreshPing m, _) \<Rightarrow> (case p2p_encode (rf_enc A) (RefreshPong m) of
        Inl e \<Rightarrow> (Inl e, [])
      | Inr encoded \<Rightarrow> (case send of Some e \<Rightarrow> (Inl (P2pNet e), []) | None \<Rightarrow> (Inr (), [(encoded, sender)]))))"

definition listen_to_ping_msg ::
  "refresh_api \<Rightarrow> access_control \<Rightarrow> refresh_ev \<Rightarrow> limiter
     \<Rightarrow> (p2p_error + unit) \<times> limiter \<times> connection_kind list \<times> (bytes \<times> socket_addr) list" where
  "listen_to_ping_msg A ac ev lim = (case rv_recv ev of
      Inl e \<Rightarrow> (Inl (P2pNet e), lim, [], [])
    | Inr (d, sender) \<Rightarrow>
        if \<not> has_discovery_ip (rv_table ev) (sa_ip sender) then (Inr (), lim, [], [])
        else (let b = (case lim (sa_ip sender) of Some b \<Rightarrow> b | None \<Rightarrow> rate_bucket_new (rv_now ev));
                  (allowed, b') = rate_allow (rv_now ev) b;
                  lim' = lim(sa_ip sender \<mapsto> b');
                  ep = new_udp_addr sender
              in if \<not> allowed then (Inr (), lim', [], [])
                 else if \<not> ac (SubjEndpoint ep) (ActProbe Inbound) then (Inr (), lim', [], [])
                 else (case answer_ping A (rv_send ev) (take MAX_UDP_BUF d) sender of
                     (Inl e, out) \<Rightarrow> (Inl e, lim', [Accepted ep], out)
                   | (Inr _, out) \<Rightarrow> (Inr (), lim', [Accepted ep, Disconnected ep], out))))"

fun refresh_rounds ::
  "refresh_api \<Rightarrow> access_control \<Rightarrow> refresh_ev list \<Rightarrow> limiter \<Rightarrow> limiter \<times> connection_kind list \<times> (bytes \<times> socket_addr) list" where
  "refresh_rounds A ac [] lim = (lim, [], [])"
| "refresh_rounds A ac (ev # evs) lim = (case listen_to_ping_msg A ac ev lim of (r, lim1, ks, out) \<Rightarrow>
     (case refresh_rounds A ac evs lim1 of (lim2, ks2, out2) \<Rightarrow>
       (lim2, ks @ (case r of Inl _ \<Rightarrow> [AcceptFailed] | Inr _ \<Rightarrow> []) @ ks2, out @ out2)))"

definition refresh_listen_loop ::
  "refresh_api \<Rightarrow> access_control \<Rightarrow> net_error + unit \<Rightarrow> endpoint \<Rightarrow> refresh_ev list
     \<Rightarrow> (p2p_error + unit) poll \<times> connection_kind list \<times> (bytes \<times> socket_addr) list" where
  "refresh_listen_loop A ac bound ep evs = (case bound of
      Inl e \<Rightarrow> (Ready (Inl (P2pNet e)), [ListenFailed ep], [])
    | Inr _ \<Rightarrow> (case refresh_rounds A ac evs Map.empty of (_, ks, out) \<Rightarrow> (Pending, Listening ep # ks, out)))"

section \<open>Pinging an entry\<close>

text \<open>One ping: the random nonce, the error of sending, and what arrives within the response timeout.\<close>

record ping_try =
  pt_nonce :: "bytes option"
  pt_send :: "net_error option"
  pt_recv :: "core_error + (net_error + bytes)"

definition refresh_send_ping :: "refresh_api \<Rightarrow> ping_try \<Rightarrow> p2p_error + unit" where
  "refresh_send_ping A p = res_bind (ok_or RandError (pt_nonce p)) (\<lambda>nonce.
     res_bind (p2p_encode (rf_enc A) (RefreshPing nonce)) (\<lambda>_.
     res_bind (case pt_send p of None \<Rightarrow> Inr () | Some e \<Rightarrow> Inl (P2pNet e)) (\<lambda>_.
     res_bind (map_err P2pCore (pt_recv p)) (\<lambda>r.
     res_bind (map_err P2pNet r) (\<lambda>d.
     res_bind (p2p_decode (rf_dec A) (take MAX_UDP_BUF d)) (\<lambda>(msg, _). case msg of
        RefreshPong n \<Rightarrow> if n \<noteq> nonce then Inl InvalidPongMsg else Inr ()
      | RefreshPing _ \<Rightarrow> Inl (P2pInvalidMsg ''Unexpected ping msg'')))))))"

text \<open>The retry loop: result and number of pings sent; \<^term>\<open>None\<close> is an overflow of the backoff.\<close>

fun ping_retries :: "refresh_api \<Rightarrow> (nat \<Rightarrow> ping_try) \<Rightarrow> nat \<Rightarrow> nat \<Rightarrow> backoff \<Rightarrow> ((p2p_error + unit) \<times> nat) option" where
  "ping_retries A try 0 k b = Some (Inl P2pTimeout, k)"
| "ping_retries A try (Suc left) k b = (case refresh_send_ping A (try k) of
      Inr _ \<Rightarrow> Some (Inr (), Suc k)
    | Inl P2pTimeout \<Rightarrow> (case backoff_sleep b of None \<Rightarrow> None | Some (_, b') \<Rightarrow> ping_retries A try left (Suc k) b')
    | Inl e \<Rightarrow> Some (Inl e, Suc k))"

definition refresh_connect ::
  "refresh_api \<Rightarrow> p2p_config \<Rightarrow> (endpoint \<Rightarrow> net_error + unit) \<Rightarrow> (endpoint \<Rightarrow> net_error + socket_addr) \<Rightarrow> (nat \<Rightarrow> ping_try) \<Rightarrow> entry
     \<Rightarrow> ((p2p_error + unit) \<times> nat) option" where
  "refresh_connect A cfg udp_dial addr try e = (case pick_endpoint (e_discovery_addrs e) [UdpT] of
      None \<Rightarrow> Some (Inl (LookupError ''No UDP discovery address available''), 0)
    | Some ep \<Rightarrow> if \<not> cfg_access_control cfg (SubjEndpoint ep) (ActProbe Outbound) then Some (Inl AccessDenied, 0)
        else (case udp_dial ep of
            Inl err \<Rightarrow> Some (Inl (P2pNet err), 0)
          | Inr _ \<Rightarrow> (case addr ep of
              Inl err \<Rightarrow> Some (Inl (P2pNet err), 0)
            | Inr _ \<Rightarrow> ping_retries A try (refresh_connect_retries cfg) 0 (backoff_new 100 5000))))"

section \<open>Refresh rounds\<close>

text \<open>\<open>conn\<close> is the outcome of \<open>connect\<close> and \<open>clock\<close> the time of its end, for each entry.\<close>

definition refresh_entry ::
  "(entry \<Rightarrow> p2p_error + unit) \<Rightarrow> (key \<Rightarrow> int) \<Rightarrow> bucket_entry \<Rightarrow> routing_table \<Rightarrow> bool \<times> routing_table \<times> discovery_kind list" where
  "refresh_entry conn clock be t = (case conn (be_entry be) of
      Inr _ \<Rightarrow> (True, update_entry (clock (be_key be)) (be_key be) PENDING_ENTRY t, [])
    | Inl _ \<Rightarrow> if REFRESH_MAX_FAILURES \<le> be_failures be
        then (False, remove_entry (be_key be) t, [EntryEvicted (be_key be)])
        else (False, update_entry (clock (be_key be)) (be_key be) UNREACHABLE_ENTRY t, []))"

text \<open>The entries of a chunk that have failed too often are removed while the others are collected.\<close>

fun evict_failed :: "bucket_entry list \<Rightarrow> routing_table \<Rightarrow> bucket_entry list \<times> routing_table \<times> discovery_kind list" where
  "evict_failed [] t = ([], t, [])"
| "evict_failed (be # bes) t = (if REFRESH_MAX_FAILURES \<le> be_failures be
     then (case evict_failed bes (remove_entry (be_key be) t) of (l, t', ks) \<Rightarrow> (l, t', EntryEvicted (be_key be) # ks))
     else (case evict_failed bes t of (l, t', ks) \<Rightarrow> (be # l, t', ks)))"

fun run_tasks ::
  "(entry \<Rightarrow> p2p_error + unit) \<Rightarrow> (key \<Rightarrow> int) \<Rightarrow> bucket_entry list \<Rightarrow> routing_table \<Rightarrow> nat \<times> routing_table \<times> discovery_kind list" where
  "run_tasks conn clock [] t = (0, t, [])"
| "run_tasks conn clock (be # bes) t = (case refresh_entry conn clock be t of (good, t1, ks1) \<Rightarrow>
     (case run_tasks conn clock bes t1 of (n, t2, ks2) \<Rightarrow> ((if good then Suc n else n), t2, ks1 @ ks2)))"

text \<open>\<open>finish\<close> gives the order in which the tasks of a chunk complete.\<close>

function chunks :: "nat \<Rightarrow> 'a list \<Rightarrow> 'a list list" where
  "chunks n xs = (if n = 0 \<or> xs = [] then [] else take n xs # chunks n (drop n xs))"
  by auto
termination by (relation "measure (length \<circ> snd)") auto

declare chunks.simps [simp del]

fun refresh_chunks ::
  "(entry \<Rightarrow> p2p_error + unit) \<Rightarrow> (key \<Rightarrow> int) \<Rightarrow> (bucket_entry list \<Rightarrow> bucket_entry list) \<Rightarrow> bucket_entry list list \<Rightarrow> routing_table
     \<Rightarrow> nat \<times> routing_table \<times> discovery_kind list" where
  "refresh_chunks conn clock finish [] t = (0, t, [])"
| "refresh_chunks conn clock finish (c # cs) t = (case evict_failed c t of (tasks, t1, ks1) \<Rightarrow>
     (case run_tasks conn clock (finish tasks) t1 of (n, t2, ks2) \<Rightarrow>
       (case refresh_chunks conn clock finish cs t2 of (m, t3, ks3) \<Rightarrow> (n + m, t3, ks1 @ ks2 @ ks3))))"

definition do_refresh ::
  "(entry \<Rightarrow> p2p_error + unit) \<Rightarrow> (key \<Rightarrow> int) \<Rightarrow> (bucket_entry list \<Rightarrow> bucket_entry list) \<Rightarrow> bucket_entry list \<Rightarrow> routing_table
     \<Rightarrow> nat \<times> routing_table \<times> discovery_kind list" where
  "do_refresh conn clock finish entries t = refresh_chunks conn clock finish (chunks 16 entries) t"

text \<open>One iteration of \<open>refresh_loop\<close>.\<close>

definition refresh_round ::
  "(entry \<Rightarrow> p2p_error + unit) \<Rightarrow> (key \<Rightarrow> int) \<Rightarrow> (bucket_entry list \<Rightarrow> bucket_entry list) \<Rightarrow> routing_table \<Rightarrow> routing_table \<times> discovery_kind list" where
  "refresh_round conn clock finish t = (let entries = refresh_candidates t REFRESH_PER_BUCKET in
     case do_refresh conn clock finish entries t of (succeeded, t', ks) \<Rightarrow>
       (t', RefreshStarted # ks @ [if entries \<noteq> [] \<and> succeeded = 0 then RefreshFailed else RefreshSucceeded succeeded]))"

section \<open>The rate limit: lemmas\<close>

definition limiter_ok :: "nat \<Rightarrow> limiter \<Rightarrow> bool" where
  "limiter_ok now lim \<longleftrightarrow> (\<forall>ip b. lim ip = Some b \<longrightarrow> tokens b \<le> RL_CAPACITY \<and> last_refill b \<le> now)"

definition level :: "limiter \<Rightarrow> ip_addr \<Rightarrow> nat \<Rightarrow> nat" where
  "level lim ip now = (case lim ip of None \<Rightarrow> RL_CAPACITY | Some b \<Rightarrow> min (tokens b + (now - last_refill b)) RL_CAPACITY)"

definition sent_to :: "ip_addr \<Rightarrow> (bytes \<times> socket_addr) list \<Rightarrow> nat" where
  "sent_to ip out = length (filter (\<lambda>(d, a). sa_ip a = ip) out)"

lemma sent_to_append [simp]: "sent_to ip (xs @ ys) = sent_to ip xs + sent_to ip ys" "sent_to ip [] = 0"
  by (simp_all add: sent_to_def)

lemma answer_ping_out:
  "answer_ping A send d sender = (r, out) \<Longrightarrow> out = [] \<or> (\<exists>e m n. out = [(e, sender)] \<and> rf_dec A d = Inr (RefreshPing m, n) \<and> rf_enc A (RefreshPong m) = Inr e)"
  by (auto simp: answer_ping_def p2p_decode_def p2p_encode_def map_err_def split: sum.splits option.splits refresh_msg.splits)

lemma listen_to_ping_msg_cases:
  assumes "listen_to_ping_msg A ac ev lim = (r, lim', ks, out)"
  obtains (skip) "lim' = lim" "out = []"
  | (known) d a b ok b' where "rv_recv ev = Inr (d, a)" "has_discovery_ip (rv_table ev) (sa_ip a)"
      "b = (case lim (sa_ip a) of Some b \<Rightarrow> b | None \<Rightarrow> rate_bucket_new (rv_now ev))" "rate_allow (rv_now ev) b = (ok, b')"
      "lim' = lim(sa_ip a \<mapsto> b')"
      "out = [] \<or> ok \<and> ac (SubjEndpoint (new_udp_addr a)) (ActProbe Inbound) \<and> (\<exists>e m n. out = [(e, a)]
         \<and> rf_dec A (take MAX_UDP_BUF d) = Inr (RefreshPing m, n) \<and> rf_enc A (RefreshPong m) = Inr e)"
proof (cases "rv_recv ev")
  case (Inr da)
  obtain d a where da: "da = (d, a)" by fastforce
  let ?b = "case lim (sa_ip a) of Some b \<Rightarrow> b | None \<Rightarrow> rate_bucket_new (rv_now ev)"
  obtain ok b' where ra: "rate_allow (rv_now ev) ?b = (ok, b')" by fastforce
  show ?thesis
  proof (cases "has_discovery_ip (rv_table ev) (sa_ip a)")
    case True
    have o: "out = [] \<or> ok \<and> ac (SubjEndpoint (new_udp_addr a)) (ActProbe Inbound)
        \<and> (\<exists>r'. answer_ping A (rv_send ev) (take MAX_UDP_BUF d) a = (r', out))" "lim' = lim(sa_ip a \<mapsto> b')"
      using assms Inr da True ra
      by (auto simp: listen_to_ping_msg_def Let_def split: if_splits sum.splits prod.splits)
    then show ?thesis
      using known [OF Inr [unfolded da] True refl ra] answer_ping_out by blast
  qed (use assms Inr da skip in \<open>simp add: listen_to_ping_msg_def\<close>)
qed (use assms skip in \<open>simp add: listen_to_ping_msg_def\<close>)

lemma level_later:
  assumes "limiter_ok now lim" "now \<le> now'"
  shows "level lim ip now' \<le> level lim ip now + (now' - now)"
proof (cases "lim ip")
  case (Some b)
  then have "last_refill b \<le> now" using assms(1) by (auto simp: limiter_ok_def)
  then show ?thesis using Some assms(2) by (auto simp: level_def min_def)
qed (simp add: level_def)

lemma level_step:
  assumes "listen_to_ping_msg A ac ev lim = (r, lim', ks, out)" "limiter_ok now lim" "now \<le> rv_now ev"
  shows "limiter_ok (rv_now ev) lim' \<and> TOKEN * sent_to ip out + level lim' ip (rv_now ev) \<le> level lim ip now + (rv_now ev - now)"
  using assms(1)
proof (cases rule: listen_to_ping_msg_cases)
  case skip
  moreover have "limiter_ok (rv_now ev) lim" using assms(2,3) by (auto simp: limiter_ok_def intro: order_trans)
  ultimately show ?thesis using level_later [OF assms(2,3)] by simp
next
  case (known d a b ok b')
  have b: "tokens b \<le> RL_CAPACITY" "last_refill b \<le> rv_now ev"
    using assms(2,3) known(3) by (auto simp: limiter_ok_def rate_bucket_new_def split: option.splits intro: order_trans)
  have b': "tokens b' \<le> RL_CAPACITY" "last_refill b' = rv_now ev"
      "tokens b' + (if ok then TOKEN else 0) = min (tokens b + (rv_now ev - last_refill b)) RL_CAPACITY"
    using known(4) b by (auto simp: rate_allow_def Let_def rl_refill_def split: if_splits)
  have "limiter_ok (rv_now ev) lim'"
    using assms(2,3) b' known(5) by (auto simp: limiter_ok_def intro: order_trans)
  moreover have "TOKEN * sent_to ip out + level lim' ip (rv_now ev) \<le> level lim ip now + (rv_now ev - now)"
  proof (cases "ip = sa_ip a")
    case True
    have "sent_to ip out \<le> (if ok then 1 else 0)" using known(6) by (auto simp: sent_to_def)
    then have "TOKEN * sent_to ip out + tokens b' \<le> tokens b' + (if ok then TOKEN else 0)" by (cases ok) auto
    moreover have "level lim' ip (rv_now ev) \<le> tokens b'" using True known(5) b' by (simp add: level_def)
    moreover have "min (tokens b + (rv_now ev - last_refill b)) RL_CAPACITY = level lim ip (rv_now ev)"
      using True known(3) by (auto simp: level_def rate_bucket_new_def split: option.splits)
    ultimately show ?thesis using b'(3) level_later [OF assms(2,3), of ip] by linarith
  next
    case False
    have "sent_to ip out = 0" using known(6) False by (auto simp: sent_to_def)
    moreover have "level lim' ip (rv_now ev) = level lim ip (rv_now ev)" using False known(5) by (simp add: level_def)
    ultimately show ?thesis using level_later [OF assms(2,3)] by simp
  qed
  ultimately show ?thesis by blast
qed

lemma rounds_level:
  assumes "refresh_rounds A ac evs lim = (lim', ks, out)" "limiter_ok now lim" "sorted (now # map rv_now evs)"
  shows "limiter_ok (last (now # map rv_now evs)) lim'
     \<and> TOKEN * sent_to ip out + level lim' ip (last (now # map rv_now evs)) \<le> level lim ip now + (last (now # map rv_now evs) - now)"
  using assms
proof (induction evs arbitrary: lim now ks out)
  case (Cons ev evs)
  obtain r lim1 ks1 out1 where s: "listen_to_ping_msg A ac ev lim = (r, lim1, ks1, out1)" by (metis prod_cases4)
  obtain lim2 ks2 out2 where r: "refresh_rounds A ac evs lim1 = (lim2, ks2, out2)" by (metis prod_cases3)
  have e: "lim' = lim2" "out = out1 @ out2" using Cons.prems(1) s r by auto
  have st: "limiter_ok (rv_now ev) lim1" "TOKEN * sent_to ip out1 + level lim1 ip (rv_now ev) \<le> level lim ip now + (rv_now ev - now)"
    using level_step [OF s Cons.prems(2)] Cons.prems(3) by auto
  have so: "sorted (rv_now ev # map rv_now evs)" "now \<le> rv_now ev" using Cons.prems(3) by auto
  have "rv_now ev \<le> last (rv_now ev # map rv_now evs)" using so(1) by (metis last_in_set list.distinct(1) list.set_intros(1) set_ConsD sorted_simps(2) order_refl)
  then show ?case using Cons.IH [OF r [folded e(1)] st(1) so(1)] st(2) so(2) e by (auto simp: algebra_simps)
qed simp

section \<open>Rounds: lemmas\<close>

subsection \<open>Table operations as maps over the entries\<close>

definition entries_map :: "(bucket_entry \<Rightarrow> bucket_entry option) \<Rightarrow> routing_table \<Rightarrow> routing_table" where
  "entries_map f t = t\<lparr>rt_buckets := map (List.map_filter f) (rt_buckets t)\<rparr>"

definition at_key :: "key \<Rightarrow> (bucket_entry \<Rightarrow> bucket_entry option) \<Rightarrow> bucket_entry \<Rightarrow> bucket_entry option" where
  "at_key k g e = (if be_key e = k then g e else Some e)"

lemma map_filter_id: "(\<And>e. e \<in> set b \<Longrightarrow> f e = Some e) \<Longrightarrow> List.map_filter f b = b"
  by (induction b) (simp_all add: map_filter_simps)

lemma map_filter_cong: "(\<And>e. e \<in> set b \<Longrightarrow> f e = g e) \<Longrightarrow> List.map_filter f b = List.map_filter g b"
  by (induction b) (simp_all add: map_filter_simps split: option.splits)

lemma map_filter_comp: "List.map_filter f (List.map_filter g b) = List.map_filter (\<lambda>e. case g e of None \<Rightarrow> None | Some e' \<Rightarrow> f e') b"
  by (induction b) (simp_all add: map_filter_simps split: option.splits)

lemma at_key_other: "k \<notin> be_key ` set b \<Longrightarrow> List.map_filter (at_key k g) b = b"
  by (rule map_filter_id) (auto simp: at_key_def)

lemma bucket_update_map:
  "distinct (map be_key b) \<Longrightarrow> bucket_update now k flag b = List.map_filter (at_key k (\<lambda>e. Some (entry_update now flag e))) b"
proof (induction b)
  case (Cons e b)
  then show ?case using at_key_other [of k b] by (cases "be_key e = k") (simp_all add: map_filter_simps at_key_def [of _ _ e])
qed (simp add: map_filter_simps)

lemma bucket_remove_map: "distinct (map be_key b) \<Longrightarrow> bucket_remove k b = List.map_filter (at_key k (\<lambda>_. None)) b"
proof (induction b)
  case (Cons e b)
  then show ?case using at_key_other [of k b] by (cases "be_key e = k") (simp_all add: map_filter_simps at_key_def [of _ _ e])
qed (simp add: map_filter_simps)

lemma table_entry:
  assumes "table_inv t" "i < length (rt_buckets t)" "e \<in> set (rt_buckets t ! i)"
  shows "bucket_index (rt_key t) (be_key e) = Some i \<and> length (be_key e) = KEY_SIZE"
  using assms by (auto simp: table_inv_def bucket_inv_def)

lemma entry_unique:
  assumes "table_inv t" "b \<in> set (rt_buckets t)" "b' \<in> set (rt_buckets t)" "e \<in> set b" "e' \<in> set b'" "be_key e = be_key e'"
  shows "e = e' \<and> b = b'"
proof -
  obtain i j where i: "i < length (rt_buckets t)" "b = rt_buckets t ! i" "j < length (rt_buckets t)" "b' = rt_buckets t ! j"
    using assms(2,3) by (metis in_set_conv_nth)
  have "i = j"
    using table_entry [OF assms(1) i(1), of e] table_entry [OF assms(1) i(3), of e'] i(2,4) assms(4-6) by simp
  moreover have "distinct (map be_key b)" using assms(1) i(1,2) by (auto simp: table_inv_def bucket_inv_def)
  ultimately show ?thesis using i assms(4-6) by (auto simp: distinct_map inj_on_def)
qed

lemma op_is_map:
  assumes inv: "table_inv t" and k: "length k = KEY_SIZE"
    and h: "\<And>b. distinct (map be_key b) \<Longrightarrow> h b = List.map_filter (at_key k g) b"
  shows "(case bucket_index (rt_key t) k of None \<Rightarrow> t | Some i \<Rightarrow> t\<lparr>rt_buckets := (rt_buckets t)[i := h (rt_buckets t ! i)]\<rparr>)
    = entries_map (at_key k g) t"
proof -
  have other: "List.map_filter (at_key k g) (rt_buckets t ! j) = rt_buckets t ! j"
    if "j < length (rt_buckets t)" "bucket_index (rt_key t) k \<noteq> Some j" for j
    by (rule map_filter_id) (use table_entry [OF inv that(1)] that(2) in \<open>auto simp: at_key_def\<close>)
  show ?thesis
  proof (cases "bucket_index (rt_key t) k")
    case None
    then have "map (List.map_filter (at_key k g)) (rt_buckets t) = rt_buckets t"
      by (intro nth_equalityI) (simp_all add: other)
    then show ?thesis using None by (simp add: entries_map_def)
  next
    case (Some i)
    then have i: "i < length (rt_buckets t)" using table_bucket(1) inv k by blast
    have "h (rt_buckets t ! i) = List.map_filter (at_key k g) (rt_buckets t ! i)"
      by (rule h) (use inv i in \<open>auto simp: table_inv_def bucket_inv_def\<close>)
    then have "(rt_buckets t)[i := h (rt_buckets t ! i)] = map (List.map_filter (at_key k g)) (rt_buckets t)"
      using Some by (intro nth_equalityI [where ys = "map _ _"]) (simp_all add: nth_list_update other i)
    then show ?thesis using Some by (simp add: entries_map_def)
  qed
qed

lemma update_is_map:
  "table_inv t \<Longrightarrow> length k = KEY_SIZE \<Longrightarrow> update_entry now k flag t = entries_map (at_key k (\<lambda>e. Some (entry_update now flag e))) t"
  unfolding update_entry_def by (rule op_is_map) (simp_all add: bucket_update_map)

lemma remove_is_map:
  "table_inv t \<Longrightarrow> length k = KEY_SIZE \<Longrightarrow> remove_entry k t = entries_map (at_key k (\<lambda>_. None)) t"
  unfolding remove_entry_def by (rule op_is_map) (simp_all add: bucket_remove_map)

subsection \<open>A round as a sequence of table operations\<close>

definition too_many_failures :: "bucket_entry \<Rightarrow> bool" where
  "too_many_failures be \<longleftrightarrow> REFRESH_MAX_FAILURES \<le> be_failures be"

definition ping_flag :: "p2p_error + unit \<Rightarrow> status_flag" where
  "ping_flag r = (if is_ok r then PENDING_ENTRY else UNREACHABLE_ENTRY)"

definition refresh_op :: "(entry \<Rightarrow> p2p_error + unit) \<Rightarrow> (key \<Rightarrow> int) \<Rightarrow> bucket_entry \<Rightarrow> table_op" where
  "refresh_op conn clock be = (if too_many_failures be then OpRemove (be_key be)
     else OpUpdate (clock (be_key be)) (be_key be) (ping_flag (conn (be_entry be))))"

definition refresh_act :: "(entry \<Rightarrow> p2p_error + unit) \<Rightarrow> (key \<Rightarrow> int) \<Rightarrow> bucket_entry \<Rightarrow> bucket_entry \<Rightarrow> bucket_entry option" where
  "refresh_act conn clock be e = (if too_many_failures be then None
     else Some (entry_update (clock (be_key be)) (ping_flag (conn (be_entry be))) e))"

lemma refresh_op_map:
  "table_inv t \<Longrightarrow> length (be_key be) = KEY_SIZE \<Longrightarrow>
     table_exec (refresh_op conn clock be) t = entries_map (at_key (be_key be) (refresh_act conn clock be)) t"
  by (cases "too_many_failures be") (simp_all add: refresh_op_def refresh_act_def [abs_def] remove_is_map update_is_map)

lemma entries_map_comp: "entries_map f (entries_map g t) = entries_map (\<lambda>e. case g e of None \<Rightarrow> None | Some e' \<Rightarrow> f e') t"
  by (simp add: entries_map_def map_filter_comp)

lemma entry_update_key [simp]: "be_entry (entry_update now flag e) = be_entry e"
  by (simp add: entry_update_def Let_def)

lemma fold_ops_map:
  assumes "table_inv t" "\<forall>be \<in> set l. length (be_key be) = KEY_SIZE" "distinct (map be_key l)"
  shows "fold (\<lambda>be. table_exec (refresh_op conn clock be)) l t =
    entries_map (\<lambda>e. case map_of (map (\<lambda>be. (be_key be, refresh_act conn clock be)) l) (be_key e) of None \<Rightarrow> Some e | Some g \<Rightarrow> g e) t"
  using assms
proof (induction l arbitrary: t)
  case Nil
  then show ?case by (simp add: entries_map_def map_filter_id map_idI)
next
  case (Cons be l)
  let ?F = "\<lambda>l e. case map_of (map (\<lambda>be. (be_key be, refresh_act conn clock be)) l) (be_key e) of None \<Rightarrow> Some e | Some g \<Rightarrow> g e"
  have "table_op_ok (refresh_op conn clock be)" using Cons.prems(2) by (simp add: refresh_op_def)
  then have inv: "table_inv (table_exec (refresh_op conn clock be) t)" by (rule tbl_ops.exec_inv) (rule Cons.prems(1))
  have n: "map_of (map (\<lambda>be. (be_key be, refresh_act conn clock be)) l) (be_key be) = None"
    using Cons.prems(3) by (simp add: map_of_eq_None_iff image_image)
  have "fold (\<lambda>be. table_exec (refresh_op conn clock be)) (be # l) t = entries_map (?F l) (entries_map (at_key (be_key be) (refresh_act conn clock be)) t)"
    using Cons.IH [OF inv] Cons.prems refresh_op_map [OF Cons.prems(1)] by simp
  also have "\<dots> = entries_map (?F (be # l)) t"
    unfolding entries_map_comp by (rule arg_cong [where f = "\<lambda>f. entries_map f t"]) (auto simp: at_key_def refresh_act_def n)
  finally show ?case .
qed

lemma evict_failed_spec:
  "evict_failed c t = (filter (\<lambda>be. \<not> too_many_failures be) c, fold (\<lambda>be. table_exec (refresh_op conn clock be)) (filter too_many_failures c) t,
     map (\<lambda>be. EntryEvicted (be_key be)) (filter too_many_failures c))"
  by (induction c arbitrary: t) (simp_all add: too_many_failures_def refresh_op_def)

lemma run_tasks_spec:
  "\<forall>be \<in> set l. \<not> too_many_failures be \<Longrightarrow>
   run_tasks conn clock l t = (length (filter (\<lambda>be. is_ok (conn (be_entry be))) l), fold (\<lambda>be. table_exec (refresh_op conn clock be)) l t, [])"
  by (induction l arbitrary: t) (auto simp: refresh_entry_def refresh_op_def too_many_failures_def ping_flag_def is_ok_def split: sum.splits)

definition pings_ok :: "(entry \<Rightarrow> p2p_error + unit) \<Rightarrow> bucket_entry list \<Rightarrow> nat" where
  "pings_ok conn l = length (filter (\<lambda>be. \<not> too_many_failures be \<and> is_ok (conn (be_entry be))) l)"

lemma refresh_chunks_spec:
  assumes fin: "\<forall>l. mset (finish l) = mset l"
  shows "\<exists>ord. mset ord = mset (concat cs) \<and> refresh_chunks conn clock finish cs t =
     (pings_ok conn (concat cs), fold (\<lambda>be. table_exec (refresh_op conn clock be)) ord t, map (\<lambda>be. EntryEvicted (be_key be)) (filter too_many_failures (concat cs)))"
proof (induction cs arbitrary: t)
  case (Cons c cs)
  let ?ops = "\<lambda>l. fold (\<lambda>be. table_exec (refresh_op conn clock be)) l"
  let ?bad = "filter too_many_failures c" and ?good = "filter (\<lambda>be. \<not> too_many_failures be) c"
  have "set (finish ?good) = set ?good" using fin mset_eq_setD by blast
  then have "\<forall>be \<in> set (finish ?good). \<not> too_many_failures be" by simp
  note rt = run_tasks_spec [OF this, of conn clock "?ops ?bad t"]
  obtain ord where ord: "mset ord = mset (concat cs)" "refresh_chunks conn clock finish cs (?ops (finish ?good) (?ops ?bad t)) =
      (pings_ok conn (concat cs), ?ops ord (?ops (finish ?good) (?ops ?bad t)), map (\<lambda>be. EntryEvicted (be_key be)) (filter too_many_failures (concat cs)))"
    using Cons.IH by blast
  have "mset (filter (\<lambda>be. is_ok (conn (be_entry be))) (finish ?good)) = mset (filter (\<lambda>be. is_ok (conn (be_entry be))) ?good)"
    using fin by (simp only: mset_filter)
  from mset_eq_length [OF this] have n: "length (filter (\<lambda>be. is_ok (conn (be_entry be))) (finish ?good)) = pings_ok conn c"
    by (simp add: pings_ok_def)
  have "refresh_chunks conn clock finish (c # cs) t = (pings_ok conn (concat (c # cs)), ?ops (?bad @ finish ?good @ ord) t,
      map (\<lambda>be. EntryEvicted (be_key be)) (filter too_many_failures (concat (c # cs))))"
    using ord(2) by (simp add: evict_failed_spec [of c t conn clock] rt n pings_ok_def)
  moreover have "mset (?bad @ finish ?good @ ord) = mset (concat (c # cs))"
    using ord(1) fin multiset_partition [of "mset c" too_many_failures] by simp
  ultimately show ?case by blast
qed (simp add: pings_ok_def)

lemma concat_chunks: "n \<noteq> 0 \<Longrightarrow> concat (chunks n xs) = xs"
proof (induction n xs rule: chunks.induct)
  case (1 n xs)
  then show ?case by (subst chunks.simps) auto
qed

subsection \<open>The effect of a round\<close>

definition round_candidates :: "bucket \<Rightarrow> bucket_entry list" where
  "round_candidates b = take REFRESH_PER_BUCKET (filter (\<lambda>e. \<not> is_connected e \<and> \<not> is_incompatible e) b)"

definition refreshed_bucket :: "(entry \<Rightarrow> p2p_error + unit) \<Rightarrow> (key \<Rightarrow> int) \<Rightarrow> bucket \<Rightarrow> bucket" where
  "refreshed_bucket conn clock b = List.map_filter (\<lambda>e. if e \<in> set (round_candidates b) then refresh_act conn clock e e else Some e) b"

lemma candidates_concat: "refresh_candidates t REFRESH_PER_BUCKET = concat (map round_candidates (rt_buckets t))"
  by (simp add: refresh_candidates_def round_candidates_def [abs_def])

lemma round_candidates_sub: "set (round_candidates b) \<subseteq> set b"
  by (auto simp: round_candidates_def dest: in_set_takeD)

lemma distinct_candidates:
  assumes "table_inv t"
  shows "distinct (map be_key (refresh_candidates t REFRESH_PER_BUCKET))"
proof -
  have "distinct (map be_key (concat (map round_candidates bs)))"
    if "\<And>i j e e'. i < length bs \<Longrightarrow> j < length bs \<Longrightarrow> e \<in> set (bs ! i) \<Longrightarrow> e' \<in> set (bs ! j) \<Longrightarrow> be_key e = be_key e' \<Longrightarrow> i = j"
      "\<And>b. b \<in> set bs \<Longrightarrow> distinct (map be_key b)" for bs
    using that
  proof (induction bs)
    case (Cons b bs)
    have IH: "distinct (map be_key (concat (map round_candidates bs)))"
    proof (rule Cons.IH)
      show "i = j" if "i < length bs" "j < length bs" "e \<in> set (bs ! i)" "e' \<in> set (bs ! j)" "be_key e = be_key e'" for i j e e'
        using Cons.prems(1) [of "Suc i" "Suc j" e e'] that by simp
    qed (use Cons.prems(2) in simp)
    have b: "distinct (map be_key (round_candidates b))"
      using Cons.prems(2) [of b] by (simp add: round_candidates_def distinct_map_filter flip: take_map)
    have "be_key e \<noteq> be_key e'" if "e \<in> set b" "b' \<in> set bs" "e' \<in> set b'" for e b' e'
    proof -
      obtain i where "i < length bs" "b' = bs ! i" using \<open>b' \<in> set bs\<close> by (auto simp: in_set_conv_nth)
      then show ?thesis using Cons.prems(1) [of 0 "Suc i" e e'] that by auto
    qed
    then have "be_key ` set (round_candidates b) \<inter> be_key ` set (concat (map round_candidates bs)) = {}"
      using round_candidates_sub by (fastforce simp: image_iff)
    then show ?case using IH b by simp
  qed simp
  note key = this
  show ?thesis unfolding candidates_concat
  proof (rule key)
    fix i j e e'
    assume "i < length (rt_buckets t)" "j < length (rt_buckets t)" "e \<in> set (rt_buckets t ! i)" "e' \<in> set (rt_buckets t ! j)" "be_key e = be_key e'"
    then show "i = j" using table_entry [OF assms, of i e] table_entry [OF assms, of j e'] by simp
  next
    fix b assume "b \<in> set (rt_buckets t)"
    then show "distinct (map be_key b)" using assms by (auto simp: table_inv_def bucket_inv_def in_set_conv_nth)
  qed
qed

lemma round_effect:
  assumes inv: "table_inv t" and ord: "mset ord = mset (refresh_candidates t REFRESH_PER_BUCKET)"
  shows "fold (\<lambda>be. table_exec (refresh_op conn clock be)) ord t = t\<lparr>rt_buckets := map (refreshed_bucket conn clock) (rt_buckets t)\<rparr>"
proof -
  let ?acts = "map (\<lambda>be. (be_key be, refresh_act conn clock be)) ord"
  have set: "set ord = (\<Union>b \<in> set (rt_buckets t). set (round_candidates b))"
    using mset_eq_setD [OF ord] by (simp add: candidates_concat)
  have "mset (map be_key ord) = mset (map be_key (refresh_candidates t REFRESH_PER_BUCKET))" using ord by simp
  then have d: "distinct (map be_key ord)" using distinct_candidates [OF inv] mset_eq_imp_distinct_iff by blast
  have len: "\<forall>be \<in> set ord. length (be_key be) = KEY_SIZE"
  proof
    fix be assume "be \<in> set ord"
    then obtain b where "b \<in> set (rt_buckets t)" "be \<in> set b" using set round_candidates_sub by blast
    moreover from this obtain i where "i < length (rt_buckets t)" "b = rt_buckets t ! i" by (auto simp: in_set_conv_nth)
    ultimately show "length (be_key be) = KEY_SIZE" using table_entry [OF inv] by simp
  qed
  have act: "(case map_of ?acts (be_key e) of None \<Rightarrow> Some e | Some g \<Rightarrow> g e)
      = (if e \<in> set (round_candidates b) then refresh_act conn clock e e else Some e)" if b: "b \<in> set (rt_buckets t)" "e \<in> set b" for b e
  proof (cases "e \<in> set (round_candidates b)")
    case True
    then have "map_of ?acts (be_key e) = Some (refresh_act conn clock e)"
      using d b set by (intro map_of_is_SomeI) (auto simp: comp_def)
    then show ?thesis using True by simp
  next
    case False
    have "be_key e \<notin> be_key ` set ord"
    proof
      assume "be_key e \<in> be_key ` set ord"
      then obtain b' e' where "b' \<in> set (rt_buckets t)" "e' \<in> set (round_candidates b')" "be_key e = be_key e'" by (auto simp: set)
      moreover from this have "e' \<in> set b'" using round_candidates_sub by blast
      ultimately show False using entry_unique [OF inv b(1) _ b(2)] False by blast
    qed
    then have "map_of ?acts (be_key e) = None" by (simp add: map_of_eq_None_iff image_image)
    then show ?thesis using False by simp
  qed
  show ?thesis unfolding fold_ops_map [OF inv len d] entries_map_def refreshed_bucket_def
    by (auto intro!: arg_cong [where f = "\<lambda>bs. t\<lparr>rt_buckets := bs\<rparr>"] map_filter_cong simp: act)
qed

lemma refresh_round_eq:
  assumes "table_inv t" "\<forall>l. mset (finish l) = mset l"
  shows "refresh_round conn clock finish t = (t\<lparr>rt_buckets := map (refreshed_bucket conn clock) (rt_buckets t)\<rparr>,
     (let cs = concat (map round_candidates (rt_buckets t)); n = pings_ok conn cs in
       RefreshStarted # map (\<lambda>e. EntryEvicted (be_key e)) (filter too_many_failures cs)
        @ [if cs \<noteq> [] \<and> n = 0 then RefreshFailed else RefreshSucceeded n]))"
proof -
  obtain ord where "mset ord = mset (refresh_candidates t REFRESH_PER_BUCKET)"
      "do_refresh conn clock finish (refresh_candidates t REFRESH_PER_BUCKET) t =
        (pings_ok conn (refresh_candidates t REFRESH_PER_BUCKET), fold (\<lambda>be. table_exec (refresh_op conn clock be)) ord t,
         map (\<lambda>be. EntryEvicted (be_key be)) (filter too_many_failures (refresh_candidates t REFRESH_PER_BUCKET)))"
    using refresh_chunks_spec [OF assms(2), of "chunks 16 (refresh_candidates t REFRESH_PER_BUCKET)" conn clock t]
    by (auto simp: do_refresh_def concat_chunks)
  then show ?thesis using round_effect [OF assms(1)]
    by (simp add: refresh_round_def Let_def candidates_concat)
qed

lemma refresh_op_ok: "length (be_key be) = KEY_SIZE \<Longrightarrow> kad_op_ok (refresh_op conn clock be)"
  by (simp add: refresh_op_def)

lemma round_keeps_ok:
  assumes "kad_table_ok t" "\<forall>l. mset (finish l) = mset l"
  shows "kad_table_ok (fst (refresh_round conn clock finish t))"
proof -
  have inv: "table_inv t" using assms(1) by (simp add: kad_table_ok_def)
  let ?cs = "refresh_candidates t REFRESH_PER_BUCKET"
  have "length (be_key be) = KEY_SIZE" if "be \<in> set ?cs" for be
  proof -
    from that obtain b where "b \<in> set (rt_buckets t)" "be \<in> set b"
      unfolding candidates_concat using round_candidates_sub by auto
    moreover from this obtain i where "i < length (rt_buckets t)" "b = rt_buckets t ! i" by (auto simp: in_set_conv_nth)
    ultimately show ?thesis using table_entry [OF inv] by simp
  qed
  then have "list_all kad_op_ok (map (refresh_op conn clock) ?cs)" by (auto simp: list_all_iff refresh_op_ok)
  from kad_ops.fold_inv [OF this assms(1)]
  have "kad_table_ok (fold (\<lambda>be. table_exec (refresh_op conn clock be)) ?cs t)" by (simp add: fold_map comp_def)
  then show ?thesis using round_effect [OF inv refl] refresh_round_eq [OF inv assms(2)] by simp
qed

subsection \<open>Entries that no round reaches\<close>

definition starved :: "(entry \<Rightarrow> p2p_error + unit) \<Rightarrow> bucket_entry \<Rightarrow> bucket \<Rightarrow> bool" where
  "starved conn x b \<longleftrightarrow> distinct (map be_key b) \<and> x \<in> set b \<and> x \<notin> set (round_candidates b)
     \<and> (\<forall>c \<in> set (round_candidates b). \<not> too_many_failures c \<and> is_ok (conn (be_entry c)))"

lemma starved_round:
  assumes "starved conn x b"
  shows "starved conn x (refreshed_bucket conn clock b)"
proof -
  let ?P = "\<lambda>e. \<not> is_connected e \<and> \<not> is_incompatible e"
  define u where "u = (\<lambda>e. if e \<in> set (round_candidates b) then entry_update (clock (be_key e)) PENDING_ENTRY e else e)"
  have s: "distinct (map be_key b)" "x \<in> set b" "x \<notin> set (round_candidates b)"
      "\<And>c. c \<in> set (round_candidates b) \<Longrightarrow> \<not> too_many_failures c \<and> is_ok (conn (be_entry c))"
    using assms by (auto simp: starved_def)
  have "refreshed_bucket conn clock b = List.map_filter (\<lambda>e. Some (u e)) b"
    unfolding refreshed_bucket_def by (rule map_filter_cong) (auto simp: u_def refresh_act_def ping_flag_def dest: s(4))
  then have b': "refreshed_bucket conn clock b = map u b" by (simp add: map_filter_def comp_def)
  have [simp]: "be_entry (u e) = be_entry e" for e by (simp add: u_def)
  have "?P (u e) = ?P e" for e
    by (auto simp: u_def round_candidates_def entry_update_def Let_def is_connected_def is_incompatible_def is_unreachable_def is_unstable_def
        status_flags dest!: in_set_takeD)
  then have rc: "round_candidates (map u b) = map u (round_candidates b)"
    by (simp add: round_candidates_def filter_map comp_def take_map)
  have "x \<noteq> u c" if c: "c \<in> set (round_candidates b)" for c
  proof
    assume "x = u c"
    then have "be_key x = be_key c" by simp
    moreover have "c \<in> set b" using c round_candidates_sub by blast
    ultimately show False using s(1-3) c by (auto simp: distinct_map inj_on_def)
  qed
  then have "x \<notin> set (round_candidates (map u b))" by (auto simp: rc)
  moreover have "x \<in> set (map u b)" using s(2,3) by (force simp: u_def)
  moreover have "\<not> too_many_failures (u c) \<and> is_ok (conn (be_entry (u c)))" if "c \<in> set (round_candidates b)" for c
    using s(4) [OF that]
    by (auto simp: too_many_failures_def u_def entry_update_def Let_def is_unreachable_def is_unstable_def status_flags)
  ultimately show ?thesis using s(1) by (auto simp: starved_def b' rc comp_def)
qed

fun many_rounds ::
  "(entry \<Rightarrow> p2p_error + unit) \<Rightarrow> ((key \<Rightarrow> int) \<times> (bucket_entry list \<Rightarrow> bucket_entry list)) list \<Rightarrow> routing_table \<Rightarrow> routing_table" where
  "many_rounds conn [] t = t"
| "many_rounds conn ((clock, finish) # rs) t = many_rounds conn rs (fst (refresh_round conn clock finish t))"

lemma starved_rounds:
  assumes "kad_table_ok t" "i < TABLE_SIZE" "starved conn x (rt_buckets t ! i)" "\<forall>(clock, finish) \<in> set rs. \<forall>l. mset (finish l) = mset l"
  shows "starved conn x (rt_buckets (many_rounds conn rs t) ! i)"
  using assms
proof (induction rs arbitrary: t)
  case (Cons r rs)
  obtain clock finish where r: "r = (clock, finish)" by fastforce
  have fin: "\<forall>l. mset (finish l) = mset l" using Cons.prems(4) by (auto simp: r)
  have inv: "table_inv t" using Cons.prems(1) by (simp add: kad_table_ok_def)
  have i: "i < length (rt_buckets t)" using inv Cons.prems(2) by (simp add: table_inv_def)
  have "starved conn x (rt_buckets (fst (refresh_round conn clock finish t)) ! i)"
    using starved_round [OF Cons.prems(3), of clock] i by (simp add: refresh_round_eq [OF inv fin])
  from Cons.IH [OF round_keeps_ok [OF Cons.prems(1) fin] Cons.prems(2) this] show ?case
    using Cons.prems(4) by (simp add: r)
qed simp

subsection \<open>Answers\<close>

definition answered_ping :: "refresh_api \<Rightarrow> access_control \<Rightarrow> refresh_ev \<Rightarrow> bytes \<times> socket_addr \<Rightarrow> bool" where
  "answered_ping A ac ev out = (case out of (e, a) \<Rightarrow> \<exists>d m n. rv_recv ev = Inr (d, a) \<and> has_discovery_ip (rv_table ev) (sa_ip a)
     \<and> ac (SubjEndpoint (new_udp_addr a)) (ActProbe Inbound) \<and> rf_dec A (take 1024 d) = Inr (RefreshPing m, n) \<and> rf_enc A (RefreshPong m) = Inr e)"

lemma rounds_answers:
  assumes "refresh_rounds A ac evs lim = (lim', ks, out)" "o1 \<in> set out"
  shows "\<exists>ev \<in> set evs. answered_ping A ac ev o1"
  using assms
proof (induction evs arbitrary: lim ks out)
  case (Cons ev evs)
  obtain r lim1 ks1 out1 where s: "listen_to_ping_msg A ac ev lim = (r, lim1, ks1, out1)" by (metis prod_cases4)
  obtain lim2 ks2 out2 where r: "refresh_rounds A ac evs lim1 = (lim2, ks2, out2)" by (metis prod_cases3)
  have e: "lim' = lim2" "out = out1 @ out2" using Cons.prems(1) s r by auto
  have "answered_ping A ac ev o1" if "o1 \<in> set out1"
    using s that by (cases rule: listen_to_ping_msg_cases) (auto simp: answered_ping_def MAX_UDP_BUF_def)
  then show ?case using Cons.IH [OF r [folded e(1)]] Cons.prems(2) e(2) by auto
qed simp

definition ex_refresh :: refresh_api where
  "ex_refresh = \<lparr>rf_enc = (\<lambda>m. case m of RefreshPing b \<Rightarrow> Inr (0 # b) | RefreshPong b \<Rightarrow> Inr (1 # b)),
     rf_dec = (\<lambda>b. case b of [] \<Rightarrow> Inl ''empty'' | c # m \<Rightarrow> if c = 0 then Inr (RefreshPing m, length b) else Inr (RefreshPong m, length b))\<rparr>"

definition ex_full_table :: routing_table where
  "ex_full_table = fold table_exec (map (\<lambda>n. OpAdd 0 (example_entry (of_nat n))) [128..<137]) (rt_new (replicate 32 0))"

definition ex_last :: bucket_entry where
  "ex_last = \<lparr>be_status = PENDING_ENTRY, be_entry = example_entry 136, be_failures = 0, be_last_seen = 0\<rparr>"

definition ex_silent :: "entry \<Rightarrow> p2p_error + unit" where
  "ex_silent e = (if e_key e = 136 # replicate 31 0 then Inl (P2pCore CoreTimeout) else Inr ())"

lemma ex_full_ok: "kad_table_ok ex_full_table"
  unfolding ex_full_table_def
proof (rule kad_ops.fold_inv)
  show "kad_table_ok (rt_new (replicate 32 0))" by (rule rt_new_ok) (simp add: KEY_SIZE_def)
  show "list_all kad_op_ok (map (\<lambda>n. OpAdd 0 (example_entry (of_nat n))) [128..<137])"
    by (auto simp: list_all_iff example_entry_def KEY_SIZE_def entry_ok_def addr_limits_def entry_to_peer_msg_def is_reachable_def
        MAX_ADDRS_PER_PEER_def MAX_DISCOVERY_ADDRS_PER_PEER_def)
qed

lemma ex_starved: "starved ex_silent ex_last (rt_buckets ex_full_table ! 31)"
  by code_simp

definition ex_known :: routing_table where
  "ex_known = table_exec (OpAdd 0 ((example_entry 1)\<lparr>e_discovery_addrs := e_addrs (example_entry 1)\<rparr>)) (rt_new (replicate 32 0))"

definition ex_ping :: "nat \<Rightarrow> refresh_ev" where
  "ex_ping now = \<lparr>rv_now = now, rv_table = ex_known, rv_recv = Inr ([0, 7], SockV4 [10, 0, 1, 1] 9), rv_send = None\<rparr>"

definition ex_pings :: "refresh_ev list" where
  "ex_pings = [ex_ping 0, ex_ping 1, ex_ping 2, ex_ping 3, ex_ping 4, ex_ping 5, ex_ping 6]"

abbreviation ex_answers :: "(bytes \<times> socket_addr) list" where
  "ex_answers \<equiv> snd (snd (refresh_rounds ex_refresh allow_all ex_pings Map.empty))"

lemma ex_known_ip: "has_discovery_ip ex_known (V4 [10, 0, 1, 1])"
  by code_simp

lemma ex_ping_step:
  "listen_to_ping_msg ex_refresh allow_all (ex_ping now) lim =
    (let (allowed, b) = rate_allow now (case lim (V4 [10, 0, 1, 1]) of Some b \<Rightarrow> b | None \<Rightarrow> rate_bucket_new now);
         ep = new_udp_addr (SockV4 [10, 0, 1, 1] 9)
     in (Inr (), lim(V4 [10, 0, 1, 1] \<mapsto> b), if allowed then [Accepted ep, Disconnected ep] else [],
         if allowed then [([1, 7], SockV4 [10, 0, 1, 1] 9)] else []))"
  by (cases "rate_allow now (case lim (V4 [10, 0, 1, 1]) of Some b \<Rightarrow> b | None \<Rightarrow> rate_bucket_new now)")
     (simp add: listen_to_ping_msg_def ex_ping_def ex_known_ip allow_all_def answer_ping_def ex_refresh_def p2p_decode_def p2p_encode_def
      map_err_def MAX_UDP_BUF_def Let_def cong: option.case_cong)

lemma ex_answers: "length ex_answers = 5"
  by (simp add: ex_pings_def ex_ping_step rate_allow_def rate_bucket_new_def rl_refill_def RL_CAPACITY_def TOKEN_def Let_def)

section \<open>Properties\<close>

text \<open>C13. What a refresh round does to the table, whatever the order in which the concurrent pings complete: in
  each bucket the first eight entries that are neither connected nor incompatible are handled, all
  others stay as they are.  An entry with three failures is evicted and reported without a
  ping; one that answers becomes pending and keeps its failure count; one that does not becomes unreachable with one more
  failure.  The chunked concurrent round thus refines a map over each bucket, and it keeps the table well formed.\<close>

theorem refresh_round_refines:
  assumes "kad_table_ok t" "\<forall>l. mset (finish l) = mset l" "refresh_round conn clock finish t = (t', evs)"
  shows "kad_table_ok t' \<and> rt_buckets t' = map (\<lambda>b. List.map_filter (\<lambda>e.
       if e \<notin> set (take 8 (filter (\<lambda>e. \<not> is_connected e \<and> \<not> is_incompatible e) b)) then Some e
       else if 3 \<le> be_failures e then None
       else Some (if is_ok (conn (be_entry e)) then e\<lparr>be_status := PENDING_ENTRY, be_last_seen := clock (be_key e)\<rparr>
                  else e\<lparr>be_status := UNREACHABLE_ENTRY, be_failures := be_failures e + 1\<rparr>)) b) (rt_buckets t)
     \<and> (\<forall>k. EntryEvicted k \<in> set evs \<longleftrightarrow> (\<exists>e \<in> set (refresh_candidates t 8). be_key e = k \<and> 3 \<le> be_failures e))"
proof -
  have inv: "table_inv t" using assms(1) by (simp add: kad_table_ok_def)
  note eq = refresh_round_eq [OF inv assms(2), of conn clock, unfolded assms(3)]
  have "refresh_act conn clock e e = (if 3 \<le> be_failures e then None
       else Some (if is_ok (conn (be_entry e)) then e\<lparr>be_status := PENDING_ENTRY, be_last_seen := clock (be_key e)\<rparr>
                  else e\<lparr>be_status := UNREACHABLE_ENTRY, be_failures := be_failures e + 1\<rparr>))" for e
    by (simp add: refresh_act_def too_many_failures_def REFRESH_MAX_FAILURES_def ping_flag_def entry_update_def Let_def
        is_unreachable_def is_unstable_def status_flags)
  then have "rt_buckets t' = map (\<lambda>b. List.map_filter (\<lambda>e.
       if e \<notin> set (take 8 (filter (\<lambda>e. \<not> is_connected e \<and> \<not> is_incompatible e) b)) then Some e
       else if 3 \<le> be_failures e then None
       else Some (if is_ok (conn (be_entry e)) then e\<lparr>be_status := PENDING_ENTRY, be_last_seen := clock (be_key e)\<rparr>
                  else e\<lparr>be_status := UNREACHABLE_ENTRY, be_failures := be_failures e + 1\<rparr>)) b) (rt_buckets t)"
    using eq by (auto simp: refreshed_bucket_def round_candidates_def REFRESH_PER_BUCKET_def intro!: map_filter_cong)
  moreover have "kad_table_ok t'" using round_keeps_ok [OF assms(1,2)] assms(3) by (metis fst_conv)
  moreover have "EntryEvicted k \<in> set evs \<longleftrightarrow> (\<exists>e \<in> set (refresh_candidates t 8). be_key e = k \<and> 3 \<le> be_failures e)" for k
    using eq candidates_concat [of t]
    by (auto simp: Let_def too_many_failures_def REFRESH_MAX_FAILURES_def REFRESH_PER_BUCKET_def)
  ultimately show ?thesis by blast
qed

theorem refresh_round_refines_witness:
  "kad_table_ok (fst (refresh_round ex_silent (\<lambda>_. 9) rev ex_full_table))"
  by (rule conjunct1 [OF refresh_round_refines [OF ex_full_ok _ prod.collapse [symmetric]]]) simp

text \<open>A round always takes the same eight entries of a bucket: while these answer, an entry behind them is
  never pinged, marked or evicted, in any number of rounds, even if it never answers.\<close>

lemma refresh_starves:
  assumes "kad_table_ok t" "i < TABLE_SIZE" "x \<in> set (rt_buckets t ! i)"
    and "x \<notin> set (take 8 (filter (\<lambda>e. \<not> is_connected e \<and> \<not> is_incompatible e) (rt_buckets t ! i)))"
    and "\<forall>c \<in> set (take 8 (filter (\<lambda>e. \<not> is_connected e \<and> \<not> is_incompatible e) (rt_buckets t ! i))). be_failures c < 3 \<and> is_ok (conn (be_entry c))"
    and "\<forall>(clock, finish) \<in> set rounds. \<forall>l. mset (finish l) = mset l"
  shows "x \<in> set (rt_buckets (many_rounds conn rounds t) ! i)"
proof -
  have "distinct (map be_key (rt_buckets t ! i))" using assms(1,2) by (auto simp: kad_table_ok_def table_inv_def bucket_inv_def)
  then have "starved conn x (rt_buckets t ! i)"
    using assms(3-5) by (auto simp: starved_def round_candidates_def REFRESH_PER_BUCKET_def too_many_failures_def REFRESH_MAX_FAILURES_def)
  from starved_rounds [OF assms(1,2) this assms(6)] show ?thesis by (simp add: starved_def)
qed

lemma refresh_starves_witness:
  "ex_last \<in> set (rt_buckets (many_rounds ex_silent (replicate 100 (\<lambda>_. 9, rev)) ex_full_table) ! 31)"
  by (rule refresh_starves [OF ex_full_ok])
     (use ex_starved in \<open>auto simp: starved_def round_candidates_def REFRESH_PER_BUCKET_def too_many_failures_def REFRESH_MAX_FAILURES_def TABLE_SIZE_def\<close>)

text \<open>C28. Answers to refresh pings, against any senders: within any stretch of the listen loop an IP address gets at
  most five answers plus one for every two seconds; and each answer echoes the nonce of a ping
  from a sender whose address is in the routing table and whom the access control allows.\<close>

theorem refresh_answers_limited:
  assumes "sorted (map rv_now (before @ evs))" "evs \<noteq> []"
    and "refresh_rounds A ac before Map.empty = (lim, ks0, out0)" "refresh_rounds A ac evs lim = (lim', ks, out)"
  shows "2 * 10 ^ 9 * length (filter (\<lambda>(d, a). sa_ip a = ip) out) \<le> 5 * (2 * 10 ^ 9) + (rv_now (last evs) - rv_now (hd evs))
     \<and> (\<forall>e a. (e, a) \<in> set out \<longrightarrow> (\<exists>ev \<in> set evs. \<exists>d m n. rv_recv ev = Inr (d, a) \<and> has_discovery_ip (rv_table ev) (sa_ip a)
         \<and> ac (SubjEndpoint (new_udp_addr a)) (ActProbe Inbound) \<and> rf_dec A (take 1024 d) = Inr (RefreshPing m, n)
         \<and> rf_enc A (RefreshPong m) = Inr e))"
proof -
  let ?t0 = "rv_now (hd evs)" and ?b = "last (0 # map rv_now before)"
  have "limiter_ok ?b lim"
    using rounds_level [OF assms(3), of 0] assms(1) by (auto simp: limiter_ok_def sorted_append)
  moreover have "?b \<le> ?t0"
    using assms(1,2) by (cases before rule: rev_cases; cases evs) (auto simp: sorted_append)
  ultimately have ok: "limiter_ok ?t0 lim" by (auto simp: limiter_ok_def intro: order_trans)
  have so: "sorted (?t0 # map rv_now evs)" using assms(1,2) by (cases evs) (auto simp: sorted_append)
  have la: "last (?t0 # map rv_now evs) = rv_now (last evs)" using assms(2) by (simp add: last_map)
  have "level lim ip ?t0 \<le> 5 * (2 * 10 ^ 9)" by (auto simp: level_def RL_CAPACITY_def TOKEN_def split: option.splits)
  then have "2 * 10 ^ 9 * sent_to ip out \<le> 5 * (2 * 10 ^ 9) + (rv_now (last evs) - ?t0)"
    using rounds_level [OF assms(4) ok so, of ip] unfolding la TOKEN_def by linarith
  then show ?thesis using rounds_answers [OF assms(4)] by (fastforce simp: sent_to_def answered_ping_def)
qed

theorem refresh_answers_limited_witness:
  "2 * 10 ^ 9 * length (filter (\<lambda>(d, a). sa_ip a = V4 [10, 0, 1, 1]) ex_answers) \<le> 5 * (2 * 10 ^ 9) + (rv_now (last ex_pings) - rv_now (hd ex_pings))
   \<and> length ex_answers = 5"
proof
  show "2 * 10 ^ 9 * length (filter (\<lambda>(d, a). sa_ip a = V4 [10, 0, 1, 1]) ex_answers) \<le> 5 * (2 * 10 ^ 9) + (rv_now (last ex_pings) - rv_now (hd ex_pings))"
    by (rule conjunct1 [OF refresh_answers_limited [where before = "[]" and A = ex_refresh and ac = allow_all and lim = Map.empty
          and lim' = "fst (refresh_rounds ex_refresh allow_all ex_pings Map.empty)" and ks = "fst (snd (refresh_rounds ex_refresh allow_all ex_pings Map.empty))"]])
       (simp_all add: ex_pings_def ex_ping_def del: refresh_rounds.simps(2))
qed (rule ex_answers)

text \<open>A refresh ping is never repeated: whatever happens to the first ping, and however many retries are
  configured, its outcome is the outcome of the call, and no second ping is sent.  In
  particular a lost datagram counts as a failure at once.\<close>

lemma refresh_never_retries:
  "ping_retries A try n 0 b = Some (if n = 0 then (Inl P2pTimeout, 0) else (refresh_send_ping A (try 0), 1))
   \<and> (\<exists>r k. refresh_connect A cfg udp_dial addr try e = Some (r, k) \<and> k \<le> 1)"
proof -
  have "refresh_send_ping A p \<noteq> Inl P2pTimeout" for p
    by (auto simp: refresh_send_ping_def res_bind_def ok_or_def p2p_encode_def p2p_decode_def map_err_def
        split: sum.splits option.splits refresh_msg.splits if_splits)
  then have eq: "ping_retries A try n 0 b = Some (if n = 0 then (Inl P2pTimeout, 0) else (refresh_send_ping A (try 0), 1))" for n b
    by (cases n) (auto split: sum.splits p2p_error.splits)
  then show ?thesis by (auto simp: refresh_connect_def split: option.splits sum.splits)
qed

end
