(* ===== verification/P2p_Node.thy ===== *)
theory P2p_Node
  imports Kad_Lookup Kad_Refresh P2p_Pool P2p_Ping
begin

text \<open>
  The Kademlia discovery (\<open>p2p/src/discovery/mod.rs\<close>, \<open>p2p/src/discovery/kademlia/mod.rs\<close>) and the node
  (\<open>p2p/src/node.rs\<close>) that connects it with the peer pool: peers found in the routing table are queued,
  dialled and handed to the pool, and the pool's events update the table.  \<open>node_step\<close>
  interleaves the tasks of a node.
\<close>

section \<open>Discovery\<close>

record discovered_peer =
  dp_peer_id :: "peer_id option"
  dp_addrs :: "peer_addr list"
  dp_discovery_addrs :: "peer_addr list"

datatype peer_connection_event = PcConnected peer_id | PcDisconnected peer_id | PcConnectFailed "peer_id option"

definition DISCOVERED_PEER_QUEUE_SIZE :: nat where "DISCOVERED_PEER_QUEUE_SIZE = 128"

definition is_lookup_proto :: "endpoint \<Rightarrow> bool" where
  "is_lookup_proto e = (if is_tcp e then True else if is_quic e then True else False)"

text \<open>\<open>kd_pushing\<close> is the peer that the connect loop waits to push.\<close>

record kad =
  kd_table :: routing_table
  kd_lookup :: lookup_service
  kd_refresh :: "endpoint option"
  kd_queue :: "discovered_peer list"
  kd_pushing :: "discovered_peer option"
  kd_config :: p2p_config
  kd_bloom :: local_bloom

definition kad_new :: "peer_id \<Rightarrow> p2p_config \<Rightarrow> kad" where
  "kad_new pid cfg = (let lookup_ep = List.find is_lookup_proto (discovery_endpoints cfg);
        refresh_ep = List.find is_udp (discovery_endpoints cfg)
     in \<lparr>kd_table = rt_new pid,
         kd_lookup = lookup_service_new pid cfg local_bloom_default
           \<lparr>le_listen = listen_endpoints cfg, le_lookup = lookup_ep, le_refresh = refresh_ep\<rparr>,
         kd_refresh = refresh_ep, kd_queue = [], kd_pushing = None, kd_config = cfg, kd_bloom = local_bloom_default\<rparr>)"

definition entry_to_discovered :: "entry \<Rightarrow> discovered_peer" where
  "entry_to_discovered e = \<lparr>dp_peer_id = Some (e_key e), dp_addrs = e_addrs e, dp_discovery_addrs = e_discovery_addrs e\<rparr>"

text \<open>One turn of the connect loop that finds an entry: it is marked connected and about to be pushed.\<close>

definition connect_pick :: "(bucket list \<Rightarrow> bucket list) \<Rightarrow> (bucket \<Rightarrow> bucket) \<Rightarrow> int \<Rightarrow> kad \<Rightarrow> kad option" where
  "connect_pick sb se now k = (case random_entry_filtered sb se PENDING_ENTRY (kd_bloom k) (kd_table k) of
      None \<Rightarrow> None
    | Some e \<Rightarrow> Some (k\<lparr>kd_table := update_entry now (e_key e) CONNECTED_ENTRY (kd_table k), kd_pushing := Some (entry_to_discovered e)\<rparr>))"

definition connect_push :: "kad \<Rightarrow> kad option" where
  "connect_push k = (case kd_pushing k of
      None \<Rightarrow> None
    | Some p \<Rightarrow> (case aq_push DISCOVERED_PEER_QUEUE_SIZE p (kd_queue k) of
        None \<Rightarrow> None
      | Some q \<Rightarrow> Some (k\<lparr>kd_queue := q, kd_pushing := None\<rparr>)))"

text \<open>The seeding, with \<open>lookup\<close> for \<open>start_lookup\<close> and \<open>sample\<close> for the order of the bootstrap peers.\<close>

fun seed_bootstrap ::
  "(nat \<Rightarrow> endpoint \<Rightarrow> peer_id option \<Rightarrow> routing_table \<Rightarrow> (p2p_error + unit) poll \<times> routing_table) \<Rightarrow> nat \<Rightarrow> endpoint list \<Rightarrow> routing_table
     \<Rightarrow> unit poll \<times> routing_table" where
  "seed_bootstrap lookup n [] t = (Ready (), t)"
| "seed_bootstrap lookup n (ep # eps) t = (case lookup n ep None t of
      (Pending, t1) \<Rightarrow> (Pending, t1)
    | (Ready _, t1) \<Rightarrow> seed_bootstrap lookup (Suc n) eps t1)"

definition start_seeding ::
  "(bucket list \<Rightarrow> bucket list) \<Rightarrow> (bucket \<Rightarrow> bucket) \<Rightarrow> (endpoint list \<Rightarrow> endpoint list)
     \<Rightarrow> (nat \<Rightarrow> endpoint \<Rightarrow> peer_id option \<Rightarrow> routing_table \<Rightarrow> (p2p_error + unit) poll \<times> routing_table) \<Rightarrow> int \<Rightarrow> kad \<Rightarrow> unit poll \<times> kad" where
  "start_seeding sb se sample lookup now k = (case random_entry sb se (PENDING_ENTRY OR CONNECTED_ENTRY) (kd_table k) of
      Some e \<Rightarrow> (case pick_endpoint (e_discovery_addrs e) SUPPORTED_LOOKUP_PROTOCOLS of
          None \<Rightarrow> (Ready (), k)
        | Some ep \<Rightarrow> (case lookup 0 ep (Some (e_key e)) (kd_table k) of
            (Pending, t1) \<Rightarrow> (Pending, k\<lparr>kd_table := t1\<rparr>)
          | (Ready (Inl _), t1) \<Rightarrow> (Ready (), k\<lparr>kd_table := update_entry now (e_key e) UNSTABLE_ENTRY t1\<rparr>)
          | (Ready (Inr _), t1) \<Rightarrow> (Ready (), k\<lparr>kd_table := t1\<rparr>)))
    | None \<Rightarrow> (case seed_bootstrap lookup 0 (sample (bootstrap_peers (kd_config k))) (kd_table k) of
        (r, t1) \<Rightarrow> (r, k\<lparr>kd_table := t1\<rparr>)))"

text \<open>\<open>start\<close>: the lookup listener, the refresh service, and the configured peers, which are pushed one after
  the other; \<^term>\<open>Pending\<close> is a full queue.\<close>

fun push_dial_peers :: "endpoint list \<Rightarrow> kad \<Rightarrow> unit poll \<times> kad" where
  "push_dial_peers [] k = (Ready (), k)"
| "push_dial_peers (ep # eps) k = (case from_endpoint ep 0 of
      None \<Rightarrow> push_dial_peers eps k
    | Some a \<Rightarrow> (case aq_push DISCOVERED_PEER_QUEUE_SIZE \<lparr>dp_peer_id = None, dp_addrs = [a], dp_discovery_addrs = []\<rparr> (kd_queue k) of
        None \<Rightarrow> (Pending, k)
      | Some q \<Rightarrow> push_dial_peers eps (k\<lparr>kd_queue := q\<rparr>)))"

definition kad_start :: "(endpoint \<Rightarrow> p2p_error + unit) \<Rightarrow> kad \<Rightarrow> (p2p_error + unit) poll \<times> kad" where
  "kad_start listening k = (case start_listener (kd_lookup k) of
      Inl e \<Rightarrow> (Ready (Inl e), k)
    | Inr lep \<Rightarrow> (case (case lep of None \<Rightarrow> Inr () | Some ep \<Rightarrow> listening ep) of
        Inl e \<Rightarrow> (Ready (Inl e), k)
      | Inr _ \<Rightarrow> (case push_dial_peers (dial_peers (kd_config k)) k of
          (Pending, k1) \<Rightarrow> (Pending, k1)
        | (Ready _, k1) \<Rightarrow> (Ready (Inr ()), k1))))"

definition kad_recv :: "kad \<Rightarrow> (discovered_peer \<times> kad) option" where
  "kad_recv k = (case aq_recv (kd_queue k) of None \<Rightarrow> None | Some (p, q) \<Rightarrow> Some (p, k\<lparr>kd_queue := q\<rparr>))"

definition on_event :: "int \<Rightarrow> peer_connection_event \<Rightarrow> kad \<Rightarrow> kad" where
  "on_event now ev k = (case ev of
      PcConnected pid \<Rightarrow> k\<lparr>kd_table := update_entry now pid CONNECTED_ENTRY (kd_table k)\<rparr>
    | PcDisconnected pid \<Rightarrow> k\<lparr>kd_table := update_entry now pid DISCONNECTED_ENTRY (kd_table k)\<rparr>
    | PcConnectFailed (Some pid) \<Rightarrow> k\<lparr>kd_table := update_entry now pid UNREACHABLE_ENTRY (kd_table k)\<rparr>
    | PcConnectFailed None \<Rightarrow> k)"

text \<open>The filter is shared with the lookup service.\<close>

definition kad_advertise :: "(bytes \<Rightarrow> u64) \<Rightarrow> bytes \<Rightarrow> protocol_flags \<Rightarrow> kad \<Rightarrow> kad" where
  "kad_advertise sip item flags k = (let b = bloom_ref_add sip item flags (kd_bloom k)
     in k\<lparr>kd_bloom := b, kd_lookup := (kd_lookup k)\<lparr>ls_bloom := b\<rparr>\<rparr>)"

definition find_peers_with :: "(bytes \<Rightarrow> u64) \<Rightarrow> bytes \<Rightarrow> kad \<Rightarrow> discovered_peer list" where
  "find_peers_with sip item k = map entry_to_discovered (entries_with_item sip (kd_table k) item)"

section \<open>The node\<close>

text \<open>\<open>nd_forwarded\<close> counts the pool events already handed to the discovery; \<open>nd_dial\<close> is the dial under way in
  \<open>connect_discovered_peers\<close>.\<close>

record node =
  nd_kad :: kad
  nd_pool :: pool
  nd_connector :: connector
  nd_listener :: listener
  nd_forwarded :: nat
  nd_dial :: "(peer_id option \<times> endpoint) option"
  nd_monitored :: "pool_event list"

definition node_new :: "peer_id \<Rightarrow> p2p_config \<Rightarrow> node" where
  "node_new pid cfg = \<lparr>nd_kad = kad_new pid cfg, nd_pool = pool_new pid cfg,
     nd_connector = connector_new (max_connect_retries cfg) (outbound_slots cfg) True,
     nd_listener = listener_new (inbound_slots cfg) (cfg_access_control cfg),
     nd_forwarded = 0, nd_dial = None, nd_monitored = []\<rparr>"

definition node_advertise :: "(bytes \<Rightarrow> u64) \<Rightarrow> bytes \<Rightarrow> protocol_flags \<Rightarrow> node \<Rightarrow> node" where
  "node_advertise sip item flags n = n\<lparr>nd_kad := kad_advertise sip item flags (nd_kad n)\<rparr>"

definition node_attach_protocol ::
  "(bytes \<Rightarrow> u64) \<Rightarrow> (string \<Rightarrow> bytes) \<Rightarrow> protocol_id \<Rightarrow> p2p_error + version \<Rightarrow> protocol_flags \<Rightarrow> node \<Rightarrow> (p2p_error + unit) \<times> node" where
  "node_attach_protocol sip as_bs i ver flags n = (case attach_protocol i ver flags (nd_pool n) of
      (Inl e, p) \<Rightarrow> (Inl e, n\<lparr>nd_pool := p\<rparr>)
    | (Inr _, p) \<Rightarrow> (Inr (), node_advertise sip (as_bs i) flags (n\<lparr>nd_pool := p\<rparr>)))"

definition attach_core_protocols :: "(bytes \<Rightarrow> u64) \<Rightarrow> (string \<Rightarrow> bytes) \<Rightarrow> semver_api \<Rightarrow> node \<Rightarrow> (p2p_error + unit) \<times> node" where
  "attach_core_protocols sip as_bs S n = node_attach_protocol sip as_bs PING_PROTO_ID (version_from_str S ''0.1.0'') REQUIRED n"

text \<open>\<open>run\<close>: the core protocol, the listeners, which may fail, and the discovery.  The tasks that forward events and
  dial peers are spawned only after it.\<close>

fun start_listeners :: "(endpoint \<Rightarrow> p2p_error + endpoint) \<Rightarrow> endpoint list \<Rightarrow> p2p_error + unit" where
  "start_listeners starting [] = Inr ()"
| "start_listeners starting (ep # eps) = res_bind (starting ep) (\<lambda>_. start_listeners starting eps)"

definition node_run ::
  "(bytes \<Rightarrow> u64) \<Rightarrow> (string \<Rightarrow> bytes) \<Rightarrow> semver_api \<Rightarrow> (endpoint \<Rightarrow> p2p_error + endpoint) \<Rightarrow> (endpoint \<Rightarrow> p2p_error + unit) \<Rightarrow> node
     \<Rightarrow> (p2p_error + unit) poll \<times> node" where
  "node_run sip as_bs S starting listening n = (case attach_core_protocols sip as_bs S n of
      (Inl e, n1) \<Rightarrow> (Ready (Inl e), n1)
    | (Inr _, n1) \<Rightarrow> (case start_listeners starting (listen_endpoints (kd_config (nd_kad n))) of
        Inl e \<Rightarrow> (Ready (Inl e), n1)
      | Inr _ \<Rightarrow> (case kad_start listening (nd_kad n1) of (r, k) \<Rightarrow> (r, n1\<lparr>nd_kad := k\<rparr>))))"

definition map_event :: "peer_event \<Rightarrow> peer_connection_event" where
  "map_event ev = (case ev of
      peer_event.Added pid \<Rightarrow> PcConnected pid
    | Removed pid \<Rightarrow> PcDisconnected pid
    | HandshakeFailed pid \<Rightarrow> PcConnectFailed pid)"

definition forward_peer_event :: "int \<Rightarrow> node \<Rightarrow> node option" where
  "forward_peer_event now n = (if nd_forwarded n < length (emitted (nd_pool n))
     then Some (n\<lparr>nd_kad := on_event now (map_event (emitted (nd_pool n) ! nd_forwarded n)) (nd_kad n), nd_forwarded := nd_forwarded n + 1\<rparr>)
     else None)"

text \<open>One turn of \<open>connect_discovered_peers\<close> up to the dial, and its end.\<close>

definition DIAL_PROTOCOLS :: "transport list" where
  "DIAL_PROTOCOLS = [TcpT, TlsT, QuicT]"

definition connect_discovered :: "node \<Rightarrow> node option" where
  "connect_discovered n = (case kad_recv (nd_kad n) of
      None \<Rightarrow> None
    | Some (p, k) \<Rightarrow> Some (case pick_endpoint (dp_addrs p) DIAL_PROTOCOLS of
        None \<Rightarrow> n\<lparr>nd_kad := k\<rparr>
      | Some ep \<Rightarrow> if \<not> cfg_access_control (kd_config k) (SubjEndpoint ep) (ActConnect Outbound) then n\<lparr>nd_kad := k\<rparr>
          else n\<lparr>nd_kad := k, nd_dial := Some (dp_peer_id p, ep)\<rparr>))"

definition dial_ok :: "endpoint \<Rightarrow> (unit, unit) dial_result \<Rightarrow> node \<Rightarrow> node" where
  "dial_ok ep r n = n\<lparr>nd_dial := None, nd_pool := snd (case r of
      DialChannel _ vpid \<Rightarrow> queue_handle (Some ep) Outbound vpid (nd_pool n)
    | DialQuic _ _ vpid \<Rightarrow> queue_handle_quic (Some ep) Outbound vpid (nd_pool n))\<rparr>"

definition dial_failed :: "int \<Rightarrow> peer_id option \<Rightarrow> endpoint \<Rightarrow> node \<Rightarrow> node" where
  "dial_failed now pid ep n = n\<lparr>nd_dial := None, nd_monitored := nd_monitored n @ [PoolConnectFailed pid ep],
     nd_kad := on_event now (PcConnectFailed pid) (nd_kad n)\<rparr>"

definition node_shutdown :: "pool_api \<Rightarrow> (nat \<Rightarrow> protocol_id list) \<Rightarrow> node \<Rightarrow> node option" where
  "node_shutdown A ord n = map_option (\<lambda>p. n\<lparr>nd_pool := p\<rparr>) (pool_shutdown A ord (nd_pool n))"

section \<open>Interleaving\<close>

definition sub_sample :: "('a list \<Rightarrow> 'a list) \<Rightarrow> bool" where
  "sub_sample f \<longleftrightarrow> (\<forall>xs. set (f xs) \<subseteq> set xs)"

text \<open>The lookup of the seeding, with everything its environment decides.\<close>

definition seeding_lookup :: "kad_api \<Rightarrow> lookup_service \<Rightarrow> (nat \<Rightarrow> endpoint \<Rightarrow> peer_id option \<Rightarrow> routing_table \<Rightarrow> (p2p_error + unit) poll \<times> routing_table) \<Rightarrow> bool" where
  "seeding_lookup K L lookup \<longleftrightarrow> (\<forall>n ep pid t. \<exists>E sample finish r1 r2 clock evs. (\<forall>rs. mset (finish rs) = mset rs) \<and> (\<forall>ps. mset (sample ps) = mset ps)
     \<and> start_lookup K L E sample finish r1 r2 clock ep pid t = (fst (lookup n ep pid t), snd (lookup n ep pid t), evs))"

definition event_peer :: "peer_event \<Rightarrow> peer_id option" where
  "event_peer ev = (case ev of peer_event.Added pid \<Rightarrow> Some pid | Removed pid \<Rightarrow> Some pid | HandshakeFailed pid \<Rightarrow> pid)"

text \<open>The tasks of a running node.  \<open>quiet\<close> restricts the environment: of the peers in it the pool reports no event, and no lookup at
  them fails; it is empty for the unrestricted system.\<close>

inductive node_step :: "pool_api \<Rightarrow> kad_api \<Rightarrow> (bytes \<Rightarrow> u64) \<Rightarrow> peer_id set \<Rightarrow> node \<Rightarrow> node \<Rightarrow> bool"
  for A :: pool_api and K :: kad_api and sip :: "bytes \<Rightarrow> u64" and quiet :: "peer_id set" where
  pool: "\<lbrakk>pool_step A (nd_pool n) p; \<forall>ev \<in> set (drop (length (emitted (nd_pool n))) (emitted p)). \<forall>pid \<in> quiet. event_peer ev \<noteq> Some pid\<rbrakk>
    \<Longrightarrow> node_step A K sip quiet n (n\<lparr>nd_pool := p\<rparr>)"
| forward: "forward_peer_event now n = Some n' \<Longrightarrow> node_step A K sip quiet n n'"
| pick: "\<lbrakk>kd_pushing (nd_kad n) = None; sub_sample sb; sub_sample se; connect_pick sb se now (nd_kad n) = Some k\<rbrakk>
    \<Longrightarrow> node_step A K sip quiet n (n\<lparr>nd_kad := k\<rparr>)"
| push: "connect_push (nd_kad n) = Some k \<Longrightarrow> node_step A K sip quiet n (n\<lparr>nd_kad := k\<rparr>)"
| seed: "\<lbrakk>kd_pushing (nd_kad n) = None; sub_sample sb; sub_sample se; seeding_lookup K (kd_lookup (nd_kad n)) lookup;
     \<forall>i ep t. \<forall>pid \<in> quiet. \<forall>e. fst (lookup i ep (Some pid) t) \<noteq> Ready (Inl e); start_seeding sb se sample lookup now (nd_kad n) = (r, k)\<rbrakk>
    \<Longrightarrow> node_step A K sip quiet n (n\<lparr>nd_kad := k\<rparr>)"
| take_peer: "\<lbrakk>nd_dial n = None; connect_discovered n = Some n'\<rbrakk> \<Longrightarrow> node_step A K sip quiet n n'"
| dialled: "nd_dial n = Some (pid, ep) \<Longrightarrow> node_step A K sip quiet n (dial_ok ep r n)"
| undialled: "nd_dial n = Some (pid, ep) \<Longrightarrow> node_step A K sip quiet n (dial_failed now pid ep n)"
| refresh: "\<forall>l. mset (finish l) = mset l \<Longrightarrow>
     node_step A K sip quiet n (n\<lparr>nd_kad := (nd_kad n)\<lparr>kd_table := fst (refresh_round conn clock finish (kd_table (nd_kad n)))\<rparr>\<rparr>)"
| inbound: "handle_inbound K (kd_lookup (nd_kad n)) werr (kd_table (nd_kad n)) es = (r, out, t) \<Longrightarrow>
     node_step A K sip quiet n (n\<lparr>nd_kad := (nd_kad n)\<lparr>kd_table := t\<rparr>\<rparr>)"
| advertise: "node_step A K sip quiet n (node_advertise sip item flags n)"

section \<open>Lemmas\<close>

subsection \<open>The routing table under the node's operations\<close>

lemma table_exec_key [simp]: "rt_key (table_exec x t) = rt_key t"
  by (cases x) (auto simp: add_entry_def remove_entry_def update_entry_def Let_def split: option.splits)

lemma update_entry_key [simp]: "rt_key (update_entry now k flag t) = rt_key t"
  using table_exec_key [of "OpUpdate now k flag"] by simp

lemma fold_exec_key [simp]: "rt_key (fold table_exec ops t) = rt_key t"
  by (induction ops arbitrary: t) simp_all

lemma update_any_ok:
  assumes "kad_table_ok t"
  shows "kad_table_ok (update_entry now k flag t)"
proof (cases "bucket_index (rt_key t) k")
  case (Some i)
  have inv: "table_inv t" "table_all entry_ok t" using assms by (simp_all add: kad_table_ok_def)
  show ?thesis
  proof (cases "i < TABLE_SIZE")
    case True
    then have b: "bucket_inv (rt_key t) i (rt_buckets t ! i)" "i < length (rt_buckets t)" using inv(1) by (simp_all add: table_inv_def)
    have "length (filter (in_subnet s) (bucket_update now k flag (rt_buckets t ! i))) = length (filter (in_subnet s) (rt_buckets t ! i))" for s
      by (simp add: in_subnet_count)
    then have "table_inv (update_entry now k flag t)"
      using table_inv_replace [OF inv(1) True bucket_inv_update [OF b(1), of now k flag]] Some by (simp add: update_entry_def)
    moreover have "table_all entry_ok (update_entry now k flag t)"
      using table_all_upd [OF inv(2) bucket_update_all] inv(2) b(2) Some by (simp add: update_entry_def table_all_def [of _ t])
    ultimately show ?thesis by (simp add: kad_table_ok_def)
  next
    case False
    then have "update_entry now k flag t = t" using inv(1) Some by (simp add: update_entry_def table_inv_def list_update_beyond)
    then show ?thesis using assms by simp
  qed
qed (simp add: update_entry_def assms)

definition has_connected :: "key \<Rightarrow> routing_table \<Rightarrow> bool" where
  "has_connected k t \<longleftrightarrow> (\<exists>b \<in> set (rt_buckets t). \<exists>e \<in> set b. be_key e = k \<and> is_connected e)"

lemma has_connected_upd:
  assumes "has_connected k t" "\<And>e. i < length (rt_buckets t) \<Longrightarrow> e \<in> set (rt_buckets t ! i) \<Longrightarrow> be_key e = k \<Longrightarrow> is_connected e \<Longrightarrow> e \<in> set b'"
  shows "has_connected k (t\<lparr>rt_buckets := (rt_buckets t)[i := b']\<rparr>)"
proof -
  obtain j e where j: "j < length (rt_buckets t)" "e \<in> set (rt_buckets t ! j)" "be_key e = k" "is_connected e"
    using assms(1) unfolding has_connected_def by (metis in_set_conv_nth)
  then have "e \<in> set ((rt_buckets t)[i := b'] ! j)" using assms(2) by (cases "i = j") auto
  then show ?thesis using j unfolding has_connected_def
    by (intro bexI [of _ "(rt_buckets t)[i := b'] ! j"] bexI [of _ e]) auto
qed

lemma bucket_update_other: "e \<in> set b \<Longrightarrow> be_key e \<noteq> k \<Longrightarrow> e \<in> set (bucket_update now k flag b)"
  by (induction b) auto

lemma has_connected_update:
  "has_connected k t \<Longrightarrow> k' \<noteq> k \<Longrightarrow> has_connected k (update_entry now k' flag t)"
  by (auto simp: update_entry_def intro!: has_connected_upd bucket_update_other split: option.splits)

lemma has_connected_add:
  assumes "has_connected k t" "table_inv t" "length (e_key en) = KEY_SIZE"
  shows "has_connected k (snd (add_entry now en t))"
proof (cases "bucket_index (rt_key t) (e_key en)")
  case (Some i)
  obtain r t' where rt: "add_entry now en t = (r, t')" by fastforce
  have d: "distinct (map be_key (rt_buckets t ! i))"
    using table_bucket(2) [OF assms(2) Some assms(3)] by (simp add: bucket_inv_def)
  from rt Some show ?thesis
  proof (cases rule: add_entry_cases)
    case (repl x)
    have x: "x \<in> set (rt_buckets t ! i)" "is_incompatible x" using repl(1) by (auto simp: find_Some_iff)
    have "e \<in> set (bucket_add now en (bucket_remove (be_key x) (rt_buckets t ! i)))"
      if e: "e \<in> set (rt_buckets t ! i)" "is_connected e" for e
    proof -
      have "x \<noteq> e" using x(2) e(2) by (auto simp: is_incompatible_def is_connected_def status_flags xor_zero_iff)
      then have "be_key x \<noteq> be_key e" using d x(1) e(1) by (auto simp: distinct_map inj_on_def)
      then show ?thesis using e(1) bucket_remove_filter [OF d] by (auto simp: bucket_add_def)
    qed
    then show ?thesis using assms(1) repl(4) rt by (simp add: has_connected_upd)
  next
    case free
    then show ?thesis using assms(1) rt by (simp add: has_connected_upd bucket_add_def)
  qed (use rt assms(1) in simp_all)
qed (use assms(1) in \<open>simp add: add_entry_def\<close>)

lemma has_connected_adds:
  assumes "kad_adds ops" "kad_table_ok t" "has_connected k t"
  shows "has_connected k (fold table_exec ops t)"
  using assms
proof (induction ops arbitrary: t)
  case (Cons x ops)
  obtain now en where x: "x = OpAdd now en" "length (e_key en) = KEY_SIZE" using Cons.prems(1) by auto
  have "has_connected k (table_exec x t)"
    using has_connected_add [OF Cons.prems(3) _ x(2)] Cons.prems(2) x(1) by (simp add: kad_table_ok_def)
  moreover have "kad_table_ok (table_exec x t)" using Cons.prems(1,2) kad_ops.exec_inv by simp
  ultimately show ?case using Cons by simp
qed simp

lemma has_connected_refresh:
  assumes "kad_table_ok t" "has_connected k t" "\<forall>l. mset (finish l) = mset l"
  shows "has_connected k (fst (refresh_round conn clock finish t))"
proof -
  obtain b e where e: "b \<in> set (rt_buckets t)" "e \<in> set b" "be_key e = k" "is_connected e"
    using assms(2) by (auto simp: has_connected_def)
  then have "e \<notin> set (round_candidates b)" by (auto simp: round_candidates_def dest: in_set_takeD)
  then have "e \<in> set (refreshed_bucket conn clock b)"
    using e(2) by (force simp: refreshed_bucket_def map_filter_def)
  moreover have "table_inv t" using assms(1) by (simp add: kad_table_ok_def)
  ultimately show ?thesis using e refresh_round_eq [OF _ assms(3)] by (auto simp: has_connected_def)
qed

subsection \<open>Seeding\<close>

text \<open>A property of tables that adding entries keeps is kept by lookups and by the seeding.\<close>

lemma lookup_keeps:
  assumes "seeding_lookup K L lookup" "ids_law K" "P t" "\<And>ops t. kad_adds ops \<Longrightarrow> P t \<Longrightarrow> P (fold table_exec ops t)"
  shows "P (snd (lookup n ep pid t))"
proof -
  obtain E sample finish r1 r2 clock evs where l: "\<forall>rs. mset (finish rs) = mset rs" "\<forall>ps. mset (sample ps) = mset ps"
      "start_lookup K L E sample finish r1 r2 clock ep pid t = (fst (lookup n ep pid t), snd (lookup n ep pid t), evs)"
    using assms(1) unfolding seeding_lookup_def by meson
  from l(3) assms(2) l(1,2) show ?thesis
    by (cases rule: start_lookup_cases) (use assms(3,4) in simp_all)
qed

lemma bootstrap_keeps:
  assumes "seeding_lookup K L lookup" "ids_law K" "P t" "\<And>ops t. kad_adds ops \<Longrightarrow> P t \<Longrightarrow> P (fold table_exec ops t)"
  shows "P (snd (seed_bootstrap lookup n eps t))"
  using assms(3)
proof (induction eps arbitrary: n t)
  case (Cons ep eps)
  obtain r t1 where l: "lookup n ep None t = (r, t1)" by fastforce
  have "P t1" using lookup_keeps [OF assms(1,2) Cons.prems assms(4), of n ep None] l by simp
  then show ?case using Cons.IH l by (simp split: poll.splits)
qed simp

lemma random_entry_in:
  assumes "random_entry_filtered sb se flag loc t = Some en" "sub_sample sb" "sub_sample se"
  shows "\<exists>b \<in> set (rt_buckets t). \<exists>e \<in> set b. be_entry e = en \<and> random_ok flag loc e"
proof -
  obtain e where e: "List.find (random_ok flag loc) (concat (map se (sb (rt_buckets t)))) = Some e" "be_entry e = en"
    using assms(1) by (auto simp: random_entry_filtered_def)
  then have "e \<in> set (concat (map se (sb (rt_buckets t))))" "random_ok flag loc e" by (metis find_Some_iff nth_mem)+
  then show ?thesis using assms(2,3) e(2) unfolding sub_sample_def by fastforce
qed

lemma start_seeding_keeps:
  assumes "start_seeding sb se sample lookup now k = (r, k')" "seeding_lookup K L lookup" "ids_law K" "P (kd_table k)"
    and "\<And>ops t. kad_adds ops \<Longrightarrow> P t \<Longrightarrow> P (fold table_exec ops t)"
    and "\<And>key t ep e. fst (lookup 0 ep (Some key) (kd_table k)) = Ready (Inl e) \<Longrightarrow> P t \<Longrightarrow> P (update_entry now key UNSTABLE_ENTRY t)"
  shows "\<exists>t. k' = k\<lparr>kd_table := t\<rparr> \<and> P t"
proof (cases "random_entry sb se (PENDING_ENTRY OR CONNECTED_ENTRY) (kd_table k)")
  case None
  obtain r' t1 where s: "seed_bootstrap lookup 0 (sample (bootstrap_peers (kd_config k))) (kd_table k) = (r', t1)" by fastforce
  have "P t1" using bootstrap_keeps [OF assms(2-5), of 0 "sample (bootstrap_peers (kd_config k))"] s by simp
  then show ?thesis using assms(1) None s by (auto simp: start_seeding_def)
next
  case (Some e)
  show ?thesis
  proof (cases "pick_endpoint (e_discovery_addrs e) SUPPORTED_LOOKUP_PROTOCOLS")
    case None
    then show ?thesis using assms(1,4) Some by (auto simp: start_seeding_def intro!: exI [of _ "kd_table k"])
  next
    case ep: (Some ep)
    obtain r' t1 where l: "lookup 0 ep (Some (e_key e)) (kd_table k) = (r', t1)" by fastforce
    have "P t1" using lookup_keeps [OF assms(2-5), of 0 ep "Some (e_key e)"] l by simp
    then show ?thesis using assms(1) assms(6) [of ep "e_key e"] Some ep l
      by (auto simp: start_seeding_def split: poll.splits sum.splits)
  qed
qed

subsection \<open>The node invariant\<close>

definition dialable :: "p2p_config \<Rightarrow> endpoint \<Rightarrow> bool" where
  "dialable cfg ep \<longleftrightarrow> cfg_access_control cfg (SubjEndpoint ep) (ActConnect Outbound)
     \<and> (\<exists>a p. ep = Tcp a p \<or> ep = Tls a p \<or> ep = Quic a p)"

definition kad_inv :: "peer_id \<Rightarrow> p2p_config \<Rightarrow> kad \<Rightarrow> bool" where
  "kad_inv own cfg k \<longleftrightarrow> kad_table_ok (kd_table k) \<and> rt_key (kd_table k) = own \<and> kd_config k = cfg
     \<and> length (kd_queue k) \<le> DISCOVERED_PEER_QUEUE_SIZE
     \<and> (\<forall>p \<in> set (kd_queue k) \<union> set_option (kd_pushing k). dp_peer_id p \<noteq> Some own)"

definition node_inv :: "peer_id \<Rightarrow> p2p_config \<Rightarrow> node \<Rightarrow> bool" where
  "node_inv own cfg n \<longleftrightarrow> kad_inv own cfg (nd_kad n)
     \<and> (\<forall>pid ep. nd_dial n = Some (pid, ep) \<longrightarrow> pid \<noteq> Some own \<and> dialable cfg ep)"

lemma kad_inv_table:
  "kad_inv own cfg k \<Longrightarrow> kad_table_ok t \<Longrightarrow> rt_key t = own \<Longrightarrow> kad_inv own cfg (k\<lparr>kd_table := t\<rparr>)"
  by (simp add: kad_inv_def)

lemma on_event_inv: "kad_inv own cfg k \<Longrightarrow> kad_inv own cfg (on_event now ev k)"
  by (auto simp: on_event_def kad_inv_def update_any_ok split: peer_connection_event.splits option.splits)

lemma not_self:
  assumes "kad_table_ok t" "b \<in> set (rt_buckets t)" "e \<in> set b"
  shows "be_key e \<noteq> rt_key t"
proof -
  have inv: "table_inv t" using assms(1) by (simp add: kad_table_ok_def)
  obtain i where "i < length (rt_buckets t)" "b = rt_buckets t ! i" using assms(2) by (auto simp: in_set_conv_nth)
  then show ?thesis using table_entry [OF inv, of i e] bucket_index_None [of "rt_key t" "be_key e"] inv assms(3)
    by (auto simp: table_inv_def)
qed

lemma connect_pick_Some:
  assumes "connect_pick sb se now k = Some k'" "sub_sample sb" "sub_sample se"
  obtains b e where "b \<in> set (rt_buckets (kd_table k))" "e \<in> set b" "random_ok PENDING_ENTRY (kd_bloom k) e"
    "k' = k\<lparr>kd_table := update_entry now (be_key e) CONNECTED_ENTRY (kd_table k), kd_pushing := Some (entry_to_discovered (be_entry e))\<rparr>"
proof -
  obtain en where en: "random_entry_filtered sb se PENDING_ENTRY (kd_bloom k) (kd_table k) = Some en"
      "k' = k\<lparr>kd_table := update_entry now (e_key en) CONNECTED_ENTRY (kd_table k), kd_pushing := Some (entry_to_discovered en)\<rparr>"
    using assms(1) by (auto simp: connect_pick_def split: option.splits)
  from random_entry_in [OF en(1) assms(2,3)] show ?thesis using that en(2) by blast
qed

lemma connect_push_Some:
  assumes "connect_push k = Some k'"
  obtains p where "kd_pushing k = Some p" "length (kd_queue k) < DISCOVERED_PEER_QUEUE_SIZE" "k' = k\<lparr>kd_queue := kd_queue k @ [p], kd_pushing := None\<rparr>"
  using assms by (auto simp: connect_push_def aq_push_def split: option.splits if_splits)

lemma connect_discovered_Some:
  assumes "connect_discovered n = Some n'"
  obtains p q where "kd_queue (nd_kad n) = p # q" "n' = n\<lparr>nd_kad := (nd_kad n)\<lparr>kd_queue := q\<rparr>\<rparr>
     \<or> (\<exists>ep. dialable (kd_config (nd_kad n)) ep \<and> n' = n\<lparr>nd_kad := (nd_kad n)\<lparr>kd_queue := q\<rparr>, nd_dial := Some (dp_peer_id p, ep)\<rparr>)"
proof -
  obtain p q where q: "kd_queue (nd_kad n) = p # q"
    using assms by (auto simp: connect_discovered_def kad_recv_def aq_recv_def split: option.splits list.splits)
  have "\<exists>a port. ep = Tcp a port \<or> ep = Tls a port \<or> ep = Quic a port" if "pick_endpoint (dp_addrs p) DIAL_PROTOCOLS = Some ep" for ep
    using pick_endpoint_best [of "dp_addrs p" DIAL_PROTOCOLS] that by (auto simp: DIAL_PROTOCOLS_def to_endpoint_def)
  then show ?thesis using that [OF q] assms q
    by (auto simp: connect_discovered_def kad_recv_def aq_recv_def dialable_def split: option.splits if_splits)
qed

lemma node_step_inv:
  assumes "ids_law K" "node_inv own cfg n" "node_step A K sip quiet n n'"
  shows "node_inv own cfg n'"
proof -
  have kad: "kad_inv own cfg (nd_kad n)" and dial: "\<And>pid ep. nd_dial n = Some (pid, ep) \<Longrightarrow> pid \<noteq> Some own \<and> dialable cfg ep"
    using assms(2) by (auto simp: node_inv_def)
  have tab: "kad_table_ok (kd_table (nd_kad n))" "rt_key (kd_table (nd_kad n)) = own" using kad by (simp_all add: kad_inv_def)
  have upd: "node_inv own cfg (n\<lparr>nd_kad := k\<rparr>)" if "kad_inv own cfg k" for k using that dial by (simp add: node_inv_def)
  show ?thesis
    using assms(3)
  proof cases
    case (pool p)
    then show ?thesis using assms(2) by (simp add: node_inv_def)
  next
    case (forward now)
    then show ?thesis using on_event_inv [OF kad] dial by (auto simp: forward_peer_event_def node_inv_def split: if_splits)
  next
    case (pick sb se now k)
    from pick(5,3,4) show ?thesis
    proof (rule connect_pick_Some)
      fix b e
      assume be: "b \<in> set (rt_buckets (kd_table (nd_kad n)))" "e \<in> set b"
        and k: "k = (nd_kad n)\<lparr>kd_table := update_entry now (be_key e) CONNECTED_ENTRY (kd_table (nd_kad n)), kd_pushing := Some (entry_to_discovered (be_entry e))\<rparr>"
      have "be_key e \<noteq> own" using not_self [OF tab(1) be] tab(2) by simp
      then show ?thesis using pick(1) upd kad k by (simp add: kad_inv_def entry_to_discovered_def update_any_ok)
    qed
  next
    case (push k)
    from push(2) show ?thesis
    proof (rule connect_push_Some)
      fix p assume "kd_pushing (nd_kad n) = Some p" "length (kd_queue (nd_kad n)) < DISCOVERED_PEER_QUEUE_SIZE"
        "k = (nd_kad n)\<lparr>kd_queue := kd_queue (nd_kad n) @ [p], kd_pushing := None\<rparr>"
      then show ?thesis using push(1) upd kad by (simp add: kad_inv_def)
    qed
  next
    case (seed sb se lookup sample now r k)
    have "\<exists>t. k = (nd_kad n)\<lparr>kd_table := t\<rparr> \<and> (kad_table_ok t \<and> rt_key t = own)"
      by (rule start_seeding_keeps [OF seed(7,5) assms(1)]) (use tab kad_adds_ok update_any_ok in simp_all)
    then show ?thesis using seed(1) upd kad_inv_table [OF kad] by blast
  next
    case take_peer
    from take_peer(2) show ?thesis
      by (rule connect_discovered_Some) (use kad dial in \<open>auto simp: node_inv_def kad_inv_def\<close>)
  next
    case (dialled pid ep r)
    then show ?thesis using kad by (simp add: node_inv_def dial_ok_def)
  next
    case (undialled pid ep now)
    then show ?thesis using on_event_inv [OF kad] by (simp add: node_inv_def dial_failed_def)
  next
    case (refresh finish conn clock)
    have "rt_key (fst (refresh_round conn clock finish (kd_table (nd_kad n)))) = own"
      using refresh_round_eq [OF _ refresh(2)] tab by (simp add: kad_table_ok_def)
    then show ?thesis using refresh(1) upd kad_inv_table [OF kad] round_keeps_ok [OF tab(1) refresh(2)] by blast
  next
    case (inbound werr es r out t)
    obtain ops where "kad_adds ops" "t = fold table_exec ops (kd_table (nd_kad n))"
      using handle_inbound_ops [OF assms(1), of "kd_lookup (nd_kad n)" werr "kd_table (nd_kad n)" es] inbound(2) by auto
    then show ?thesis using inbound(1) upd kad_inv_table [OF kad] kad_adds_ok [OF _ tab(1)] tab(2) by simp
  next
    case (advertise item flags)
    then show ?thesis using kad dial by (simp add: node_inv_def node_advertise_def kad_advertise_def kad_inv_def Let_def)
  qed
qed

lemma node_inv_new: "length own = KEY_SIZE \<Longrightarrow> node_inv own cfg (node_new own cfg)"
  using rt_new_ok by (simp add: node_inv_def node_new_def kad_inv_def kad_new_def Let_def rt_new_def)

subsection \<open>Entries nobody dials\<close>

lemma pool_emitted:
  assumes "pool_step A s s'"
  shows "\<exists>es. emitted s' = emitted s @ es"
  using assms
proof cases
  case (queue_conn e dir vpid quic r)
  then show ?thesis by (auto dest!: queue_push_Some)
next
  case (attach i ver flags r)
  then show ?thesis by (elim attach_cases) simp
next
  case (run_loop io)
  from run_loop(2) show ?thesis by (cases rule: run_once_cases) (simp_all add: pool_reject_def)
next
  case (disconnect pid t p)
  then show ?thesis using remove_take_cases(2) [OF disconnect(1,4)] by simp
next
  case (shutdown l1 pid t st l2 p ord st' u)
  from shutdown(6) show ?thesis by (cases rule: peer_shutdown_cases) (use shutdown in simp_all)
next
  case (bc_one b1 b b2 b' u)
  then show ?thesis by (elim broadcast_one_cases) simp
next
  case (send sh pid proto msg r)
  then show ?thesis by (elim send_to_cases) simp_all
qed (simp_all add: remove_announce_def announce_def)

definition forgotten :: "peer_id \<Rightarrow> node \<Rightarrow> bool" where
  "forgotten k n \<longleftrightarrow> kad_table_ok (kd_table (nd_kad n)) \<and> has_connected k (kd_table (nd_kad n))
     \<and> (\<forall>p \<in> set (kd_queue (nd_kad n)) \<union> set_option (kd_pushing (nd_kad n)). dp_peer_id p \<noteq> Some k)
     \<and> (\<forall>ep. nd_dial n \<noteq> Some (Some k, ep))
     \<and> (\<forall>ev \<in> set (drop (nd_forwarded n) (emitted (nd_pool n))). event_peer ev \<noteq> Some k)"

lemma forgotten_table:
  "forgotten k n \<Longrightarrow> kad_table_ok t \<Longrightarrow> has_connected k t \<Longrightarrow> forgotten k (n\<lparr>nd_kad := (nd_kad n)\<lparr>kd_table := t\<rparr>\<rparr>)"
  by (simp add: forgotten_def)

lemma on_event_forgotten:
  assumes "kad_table_ok (kd_table kd)" "has_connected k (kd_table kd)" "ev \<noteq> PcConnected k" "ev \<noteq> PcDisconnected k" "ev \<noteq> PcConnectFailed (Some k)"
  shows "\<exists>t. on_event now ev kd = kd\<lparr>kd_table := t\<rparr> \<and> kad_table_ok t \<and> has_connected k t"
proof -
  have "\<exists>t. kd\<lparr>kd_table := update_entry now pid flag (kd_table kd)\<rparr> = kd\<lparr>kd_table := t\<rparr> \<and> kad_table_ok t \<and> has_connected k t" if "pid \<noteq> k" for pid flag
    using assms(1,2) update_any_ok has_connected_update that by blast
  then show ?thesis using assms by (auto simp: on_event_def split: peer_connection_event.splits option.splits)
qed

lemma connected_not_pending:
  assumes "kad_table_ok t" "has_connected k t" "b \<in> set (rt_buckets t)" "e \<in> set b" "random_ok PENDING_ENTRY loc e"
  shows "be_key e \<noteq> k"
proof
  assume k: "be_key e = k"
  obtain b' e' where "b' \<in> set (rt_buckets t)" "e' \<in> set b'" "be_key e' = k" "is_connected e'"
    using assms(2) by (auto simp: has_connected_def)
  then have "is_connected e" using entry_unique [of t b b' e e'] assms(1,3,4) k by (auto simp: kad_table_ok_def)
  then show False using assms(5) by (auto simp: is_connected_def random_ok_def status_flags xor_zero_iff)
qed

lemma forgotten_step:
  assumes "ids_law K" "forgotten k n" "node_step A K sip {k} n n'"
  shows "forgotten k n'"
proof -
  let ?kd = "nd_kad n"
  have f: "kad_table_ok (kd_table ?kd)" "has_connected k (kd_table ?kd)"
      "\<And>p. p \<in> set (kd_queue ?kd) \<union> set_option (kd_pushing ?kd) \<Longrightarrow> dp_peer_id p \<noteq> Some k" "\<And>ep. nd_dial n \<noteq> Some (Some k, ep)"
      "\<And>ev. ev \<in> set (drop (nd_forwarded n) (emitted (nd_pool n))) \<Longrightarrow> event_peer ev \<noteq> Some k"
    using assms(2) by (auto simp: forgotten_def)
  show ?thesis
    using assms(3)
  proof cases
    case (pool p)
    obtain es where es: "emitted p = emitted (nd_pool n) @ es" using pool_emitted [OF pool(2)] by blast
    have "event_peer ev \<noteq> Some k" if "ev \<in> set (drop (nd_forwarded n) (emitted p))" for ev
      using that f(5) pool(3) unfolding es by (auto dest: in_set_dropD)
    then show ?thesis using assms(2) pool(1) by (simp add: forgotten_def)
  next
    case (forward now)
    let ?i = "nd_forwarded n" and ?es = "emitted (nd_pool n)"
    have i: "?i < length ?es" and n': "n' = n\<lparr>nd_kad := on_event now (map_event (?es ! ?i)) ?kd, nd_forwarded := ?i + 1\<rparr>"
      using forward by (auto simp: forward_peer_event_def split: if_splits)
    have "drop ?i ?es = ?es ! ?i # drop (Suc ?i) ?es" using i by (simp add: Cons_nth_drop_Suc)
    then have ev: "event_peer (?es ! ?i) \<noteq> Some k" "\<And>ev. ev \<in> set (drop (Suc ?i) ?es) \<Longrightarrow> event_peer ev \<noteq> Some k" using f(5) by auto
    have "\<exists>t. on_event now (map_event (?es ! ?i)) ?kd = ?kd\<lparr>kd_table := t\<rparr> \<and> kad_table_ok t \<and> has_connected k t"
      by (rule on_event_forgotten [OF f(1,2)]) (use ev(1) in \<open>auto simp: map_event_def event_peer_def split: peer_event.splits\<close>)
    then show ?thesis using assms(2) ev(2) n' by (auto simp: forgotten_def)
  next
    case (pick sb se now kd)
    from pick(5,3,4) show ?thesis
    proof (rule connect_pick_Some)
      fix b e
      assume be: "b \<in> set (rt_buckets (kd_table ?kd))" "e \<in> set b" "random_ok PENDING_ENTRY (kd_bloom ?kd) e"
        and kd: "kd = ?kd\<lparr>kd_table := update_entry now (be_key e) CONNECTED_ENTRY (kd_table ?kd), kd_pushing := Some (entry_to_discovered (be_entry e))\<rparr>"
      have "be_key e \<noteq> k" by (rule connected_not_pending [OF f(1,2) be])
      then show ?thesis using assms(2) pick(1,2) kd update_any_ok [OF f(1)] has_connected_update [OF f(2)]
        by (simp add: forgotten_def entry_to_discovered_def)
    qed
  next
    case (push kd)
    from push(2) show ?thesis by (rule connect_push_Some) (use assms(2) push(1) in \<open>auto simp: forgotten_def\<close>)
  next
    case (seed sb se lookup sample now r kd)
    have "\<exists>t. kd = ?kd\<lparr>kd_table := t\<rparr> \<and> (kad_table_ok t \<and> has_connected k t)"
    proof (rule start_seeding_keeps [OF seed(7,5) assms(1)])
      fix key t ep e
      assume "fst (lookup 0 ep (Some key) (kd_table ?kd)) = Ready (Inl e)" "kad_table_ok t \<and> has_connected k t"
      moreover from this have "key \<noteq> k" using seed(6) by auto
      ultimately show "kad_table_ok (update_entry now key UNSTABLE_ENTRY t) \<and> has_connected k (update_entry now key UNSTABLE_ENTRY t)"
        using update_any_ok has_connected_update by blast
    qed (use f(1,2) kad_adds_ok has_connected_adds in blast)+
    then show ?thesis using seed(1) forgotten_table [OF assms(2)] by blast
  next
    case take_peer
    from take_peer(2) show ?thesis
      by (rule connect_discovered_Some) (use assms(2) in \<open>auto simp: forgotten_def\<close>)
  next
    case (dialled pid ep r)
    then show ?thesis using assms(2)
      by (auto simp: forgotten_def dial_ok_def queue_handle_def queue_handle_quic_def queue_push_def Let_def split: dial_result.splits)
  next
    case (undialled pid ep now)
    have "pid \<noteq> Some k" using f(4) undialled(2) by auto
    then have "\<exists>t. on_event now (PcConnectFailed pid) ?kd = ?kd\<lparr>kd_table := t\<rparr> \<and> kad_table_ok t \<and> has_connected k t"
      by (intro on_event_forgotten [OF f(1,2)]) auto
    then show ?thesis using assms(2) undialled(1) by (auto simp: forgotten_def dial_failed_def)
  next
    case (refresh finish conn clock)
    then show ?thesis using forgotten_table [OF assms(2)] round_keeps_ok [OF f(1)] has_connected_refresh [OF f(1,2)] by simp
  next
    case (inbound werr es r out t)
    obtain ops where "kad_adds ops" "t = fold table_exec ops (kd_table ?kd)"
      using handle_inbound_ops [OF assms(1), of "kd_lookup ?kd" werr "kd_table ?kd" es] inbound(2) by auto
    then show ?thesis using inbound(1) forgotten_table [OF assms(2)] kad_adds_ok [OF _ f(1)] has_connected_adds [OF _ f(1,2)] by simp
  next
    case (advertise item flags)
    then show ?thesis using assms(2) by (simp add: forgotten_def node_advertise_def kad_advertise_def Let_def)
  qed
qed

subsection \<open>Starting\<close>

lemma push_dial_peers_spec:
  "push_dial_peers eps k =
    (let l = map (\<lambda>a. \<lparr>dp_peer_id = None, dp_addrs = [a], dp_discovery_addrs = []\<rparr>) (List.map_filter (\<lambda>ep. from_endpoint ep 0) eps);
         room = DISCOVERED_PEER_QUEUE_SIZE - length (kd_queue k)
     in (if length l \<le> room then Ready () else Pending, k\<lparr>kd_queue := kd_queue k @ take room l\<rparr>))"
proof (induction eps arbitrary: k)
  case (Cons ep eps)
  show ?case
  proof (cases "from_endpoint ep 0")
    case None
    then show ?thesis using Cons by (simp add: map_filter_simps)
  next
    case (Some a)
    show ?thesis
    proof (cases "length (kd_queue k) < DISCOVERED_PEER_QUEUE_SIZE")
      case True
      obtain room where "DISCOVERED_PEER_QUEUE_SIZE - length (kd_queue k) = Suc room" "DISCOVERED_PEER_QUEUE_SIZE - Suc (length (kd_queue k)) = room"
        using Suc_diff_Suc [OF True] by simp
      then show ?thesis using Cons Some True
        by (simp add: map_filter_simps aq_push_def Let_def)
    next
      case False
      then show ?thesis using Some by (simp add: map_filter_simps aq_push_def Let_def)
    qed
  qed
qed (simp add: map_filter_simps)

section \<open>An example run\<close>

text \<open>A peer is entered into the table by its own lookup, picked, dialled over TCP, and does not answer the handshake.\<close>

definition ex_target :: entry where
  "ex_target = peer_msg_to_entry (own_peer_msg (ex_lookup 2))"

definition ex_node :: node where
  "ex_node = node_new (replicate 32 0) ex_cfg"

definition ex_entered :: routing_table where
  "ex_entered = snd (add_entry 3 ex_target (rt_new (replicate 32 0)))"

definition ex_marked :: routing_table where
  "ex_marked = update_entry 4 (e_key ex_target) CONNECTED_ENTRY ex_entered"

definition ex_at :: "routing_table \<Rightarrow> discovered_peer option \<Rightarrow> discovered_peer list \<Rightarrow> (peer_id option \<times> endpoint) option \<Rightarrow> pool \<Rightarrow> nat \<Rightarrow> node" where
  "ex_at t push q d p fwd = ex_node\<lparr>nd_kad := (nd_kad ex_node)\<lparr>kd_table := t, kd_queue := q, kd_pushing := push\<rparr>,
     nd_dial := d, nd_pool := p, nd_forwarded := fwd\<rparr>"

definition ex_pool0 :: pool where
  "ex_pool0 = pool_new (replicate 32 0) ex_cfg"

definition ex_outconn :: queued_conn where
  "ex_outconn = \<lparr>qc_token = 0, qc_direction = Outbound, qc_remote_endpoint = Tcp (Ip (V4 [10, 0, 2, 1])) 8000, qc_verified = None, qc_quic = False\<rparr>"

definition ex_pool1 :: pool where
  "ex_pool1 = ex_pool0\<lparr>conn_queue := [ex_outconn], next_token := 1, arrived := [0 \<mapsto> ex_outconn]\<rparr>"

lemma ex_node_start: "ex_node = ex_at (rt_new (replicate 32 0)) None [] None ex_pool0 0"
  by (simp add: ex_at_def ex_node_def node_new_def kad_new_def Let_def ex_pool0_def)

lemma ex_picks: "random_entry_filtered id id PENDING_ENTRY local_bloom_default ex_entered = Some ex_target"
  by code_simp

lemma ex_target_addr: "pick_endpoint (e_addrs ex_target) DIAL_PROTOCOLS = Some (Tcp (Ip (V4 [10, 0, 2, 1])) 8000)"
  by code_simp

lemma ex_marked_connected: "has_connected (e_key ex_target) ex_marked"
  by code_simp

lemma ex_inbound:
  "handle_inbound (ex_kad []) L werr (rt_new (replicate 32 0)) [(3, LkMsg \<lparr>kad_command = KadPeer, kad_payload = 2 # replicate 31 0\<rparr>)]
     = (Pending, [], ex_entered)"
proof -
  have "validate_peer_msg (own_peer_msg (ex_lookup 2)) = Inr (own_peer_msg (ex_lookup 2))" "is_reachable (own_peer_msg (ex_lookup 2))"
    by code_simp+
  moreover have "peer_dec (ex_kad []) (2 # replicate 31 0) = Inr (own_peer_msg (ex_lookup 2), 32)"
    by (simp add: ex_kad_def KEY_SIZE_def)
  ultimately show ?thesis by (simp add: p2p_decode_ok ex_entered_def ex_target_def)
qed

lemma ex_at_sel [simp]:
  "nd_kad (ex_at t push q d p fwd) = (nd_kad ex_node)\<lparr>kd_table := t, kd_queue := q, kd_pushing := push\<rparr>"
  "nd_dial (ex_at t push q d p fwd) = d" "nd_pool (ex_at t push q d p fwd) = p" "nd_forwarded (ex_at t push q d p fwd) = fwd"
  by (simp_all add: ex_at_def)

lemma ex_kad_sel [simp]: "kd_bloom (nd_kad ex_node) = local_bloom_default" "kd_config (nd_kad ex_node) = ex_cfg" "kd_pushing (nd_kad ex_node) = None"
  by (simp_all add: ex_node_def node_new_def kad_new_def Let_def)

lemma ex_failed: "\<exists>e. run_once ex_pool_api (ex_io\<lparr>io_msgs := []\<rparr>) ex_pool1 = Ready (pool_reject ex_outconn None e (ex_pool1\<lparr>conn_queue := []\<rparr>))"
  by (auto simp: run_once_def queue_next_def ex_pool1_def handshake_def ex_outconn_def split: sum.splits)

lemma ex_rejected: "pool_reject ex_outconn None e (ex_pool1\<lparr>conn_queue := []\<rparr>) =
    ex_pool0\<lparr>next_token := 1, arrived := [0 \<mapsto> ex_outconn], monitored := [PoolHandshakeFailed None], emitted := [HandshakeFailed None],
      closed := [(0, Inl e)]\<rparr>"
  by (simp add: pool_reject_def ex_pool1_def ex_pool0_def pool_new_def ex_outconn_def)

definition ex_ended :: "p2p_error \<Rightarrow> nat \<Rightarrow> node" where
  "ex_ended e fwd = ex_at ex_marked None [] None (pool_reject ex_outconn None e (ex_pool1\<lparr>conn_queue := []\<rparr>)) fwd"

lemmas ex_at_expand = ex_at_def ex_node_def node_new_def kad_new_def Let_def

lemma ex_run: "\<exists>e. (node_step ex_pool_api (ex_kad []) sip {})\<^sup>*\<^sup>* ex_node (ex_ended e 1)"
proof -
  let ?S = "node_step ex_pool_api (ex_kad []) sip {}" and ?dp = "entry_to_discovered ex_target"
  let ?ep = "Tcp (Ip (V4 [10, 0, 2, 1])) 8000"
  obtain e where e: "run_once ex_pool_api (ex_io\<lparr>io_msgs := []\<rparr>) ex_pool1 = Ready (pool_reject ex_outconn None e (ex_pool1\<lparr>conn_queue := []\<rparr>))"
    using ex_failed by blast
  have 1: "?S (ex_at (rt_new (replicate 32 0)) None [] None ex_pool0 0) (ex_at ex_entered None [] None ex_pool0 0)"
    using node_step.inbound [of "ex_kad []" "ex_at (rt_new (replicate 32 0)) None [] None ex_pool0 0" _
        "[(3, LkMsg \<lparr>kad_command = KadPeer, kad_payload = 2 # replicate 31 0\<rparr>)]" Pending "[]" ex_entered] ex_inbound
    by (simp add: ex_at_expand)
  have 2: "?S (ex_at ex_entered None [] None ex_pool0 0) (ex_at ex_marked (Some ?dp) [] None ex_pool0 0)"
    using node_step.pick [of "ex_at ex_entered None [] None ex_pool0 0" id id 4] ex_picks
    by (simp add: sub_sample_def connect_pick_def ex_marked_def ex_at_expand)
  have 3: "?S (ex_at ex_marked (Some ?dp) [] None ex_pool0 0) (ex_at ex_marked None [?dp] None ex_pool0 0)"
    using node_step.push [of "ex_at ex_marked (Some ?dp) [] None ex_pool0 0"]
    by (simp add: connect_push_def aq_push_def DISCOVERED_PEER_QUEUE_SIZE_def ex_at_expand)
  have 4: "?S (ex_at ex_marked None [?dp] None ex_pool0 0) (ex_at ex_marked None [] (Some (Some (e_key ex_target), ?ep)) ex_pool0 0)"
    by (rule node_step.take_peer)
       (simp_all add: connect_discovered_def kad_recv_def aq_recv_def entry_to_discovered_def ex_target_addr ex_cfg_def allow_all_def ex_at_expand)
  have 5: "?S (ex_at ex_marked None [] (Some (Some (e_key ex_target), ?ep)) ex_pool0 0) (ex_at ex_marked None [] None ex_pool1 0)"
    using node_step.dialled [of "ex_at ex_marked None [] (Some (Some (e_key ex_target), ?ep)) ex_pool0 0" _ ?ep _ _ _ _ "DialChannel () None"]
    by (simp add: dial_ok_def queue_handle_def queue_push_def Let_def ex_pool0_def ex_pool1_def pool_new_def ex_outconn_def ex_at_expand)
  have "pool_step ex_pool_api ex_pool1 (pool_reject ex_outconn None e (ex_pool1\<lparr>conn_queue := []\<rparr>))"
    by (rule pool_step.run_loop [OF _ e]) (simp add: ex_pool1_def ex_pool0_def pool_new_def)
  then have 6: "?S (ex_at ex_marked None [] None ex_pool1 0) (ex_ended e 0)"
    using node_step.pool [of ex_pool_api "ex_at ex_marked None [] None ex_pool1 0"] by (simp add: ex_ended_def ex_at_expand)
  have 7: "?S (ex_ended e 0) (ex_ended e 1)"
    by (rule node_step.forward [where now = 5])
       (simp add: forward_peer_event_def ex_ended_def ex_rejected map_event_def on_event_def, simp add: ex_at_expand)
  show ?thesis unfolding ex_node_start using 1 2 3 4 5 6 7
    by (meson converse_rtranclp_into_rtranclp rtranclp.rtrancl_refl)
qed

lemma ex_ended_forgotten: "forgotten (e_key ex_target) (ex_ended e 1)"
proof -
  have "kad_op_ok (OpAdd 3 ex_target)" by code_simp
  then have "kad_table_ok (table_exec (OpAdd 3 ex_target) (rt_new (replicate 32 0)))"
    by (rule kad_ops.exec_inv) (simp add: rt_new_ok KEY_SIZE_def)
  then have "kad_table_ok ex_marked" unfolding ex_marked_def ex_entered_def by (intro update_any_ok) simp
  then show ?thesis
    using ex_marked_connected by (simp add: forgotten_def ex_ended_def ex_rejected)
qed

lemma ex_ping_version: "is_ok (version_from_str ex_semver ''0.1.0'')"
proof -
  have "version_int_display \<lparr>major = 0, minor = 1, patch = 0\<rparr> = ''0.1.0''"
    by (simp add: version_int_display_def show_nat.simps char_of_def bit_0)
  then have "version_int_from_str ''0.1.0'' = Inr \<lparr>major = 0, minor = 1, patch = 0\<rparr>"
    using version_display_roundtrip by metis
  moreover have "split_str '', '' [] ''0.1.0'' = [''0.1.0'']" by code_simp
  ultimately show ?thesis by (simp add: version_from_str_def ex_semver_def is_ok_def map_err_def)
qed

section \<open>Properties\<close>



text \<open>A discovered peer can be lost for good.  The connect loop marks an entry as connected before it is dialled; once
  no dial, queued peer or pool event for it is left, as after a TCP handshake that fails or an endpoint that is skipped, nothing
  puts it back: as long as the peer does not show up by itself and no lookup at it fails, it stays marked as
  connected, is not dialled again, not refreshed and not evicted.\<close>

lemma node_forgets_peer:
  assumes "ids_law K" "(node_step A K sip {k})\<^sup>*\<^sup>* n n'"
    and "kad_table_ok (kd_table (nd_kad n))" "has_connected k (kd_table (nd_kad n))"
    and "\<forall>p \<in> set (kd_queue (nd_kad n)) \<union> set_option (kd_pushing (nd_kad n)). dp_peer_id p \<noteq> Some k" "\<forall>ep. nd_dial n \<noteq> Some (Some k, ep)"
    and "\<forall>ev \<in> set (drop (nd_forwarded n) (emitted (nd_pool n))). event_peer ev \<noteq> Some k"
  shows "has_connected k (kd_table (nd_kad n')) \<and> (\<forall>ep. nd_dial n' \<noteq> Some (Some k, ep))"
proof -
  have "forgotten k n" using assms(3-7) by (simp add: forgotten_def)
  with assms(2) have "forgotten k n'" by (induction rule: rtranclp_induct) (use forgotten_step [OF assms(1)] in blast)+
  then show ?thesis by (simp add: forgotten_def)
qed

lemma node_forgets_peer_witness:
  "\<exists>n. (node_step ex_pool_api (ex_kad []) (\<lambda>_. 0) {})\<^sup>*\<^sup>* (node_new (replicate 32 0) ex_cfg) n \<and> emitted (nd_pool n) = [HandshakeFailed None]
     \<and> nd_forwarded n = 1 \<and> has_connected (e_key ex_target) (kd_table (nd_kad (node_advertise (\<lambda>_. 0) [1] REQUIRED n)))"
proof -
  obtain e where e: "(node_step ex_pool_api (ex_kad []) (\<lambda>_. 0) {})\<^sup>*\<^sup>* (node_new (replicate 32 0) ex_cfg) (ex_ended e 1)"
    using ex_run unfolding ex_node_def by blast
  have "(node_step ex_pool_api (ex_kad []) (\<lambda>_. 0) {e_key ex_target})\<^sup>*\<^sup>* (ex_ended e 1) (node_advertise (\<lambda>_. 0) [1] REQUIRED (ex_ended e 1))"
    by (intro r_into_rtranclp node_step.advertise)
  from node_forgets_peer [OF ex_ids this] ex_ended_forgotten [of e]
  have "has_connected (e_key ex_target) (kd_table (nd_kad (node_advertise (\<lambda>_. 0) [1] REQUIRED (ex_ended e 1))))"
    by (simp add: forgotten_def)
  moreover have "emitted (nd_pool (ex_ended e 1)) = [HandshakeFailed None] \<and> nd_forwarded (ex_ended e 1) = 1"
    by (simp add: ex_ended_def ex_rejected)
  ultimately show ?thesis using e by blast
qed

text \<open>C38. Starting a node whose listeners all start returns exactly when at most 128 of the configured
  peers are dialable: \<open>run\<close> pushes them into the queue of discovered peers before it spawns the task that empties it, so with more
  of them it waits for ever.\<close>

theorem node_run_returns_iff:
  assumes "version_from_str S ''0.1.0'' = Inr v" "\<forall>ep. is_ok (starting ep)"
    and "\<forall>ep. List.find is_lookup_proto (discovery_endpoints cfg) = Some ep \<longrightarrow> is_tcp ep \<and> listening ep = Inr ()"
  shows "fst (node_run sip as_bs S starting listening (node_new own cfg)) =
    (if length (List.map_filter (\<lambda>ep. from_endpoint ep 0) (dial_peers cfg)) \<le> 128 then Ready (Inr ()) else Pending)"
proof -
  obtain n where a: "attach_core_protocols sip as_bs S (node_new own cfg) = (Inr (), n)"
      and k: "nd_kad n = kad_advertise sip (as_bs PING_PROTO_ID) REQUIRED (kad_new own cfg)"
    using assms(1) by (simp add: attach_core_protocols_def node_attach_protocol_def attach_protocol_def Let_def node_advertise_def node_new_def)
  have l: "start_listeners starting eps = Inr ()" for eps
    using assms(2) by (induction eps) (auto simp: is_ok_def res_bind_def split: sum.splits)
  have f: "le_lookup (ls_endpoints (kd_lookup (nd_kad n))) = List.find is_lookup_proto (discovery_endpoints cfg)"
      "kd_config (nd_kad n) = cfg" "kd_queue (nd_kad n) = []"
    by (simp_all add: k kad_advertise_def kad_new_def lookup_service_new_def Let_def)
  obtain lep where s: "start_listener (kd_lookup (nd_kad n)) = Inr lep" "(case lep of None \<Rightarrow> Inr () | Some ep \<Rightarrow> listening ep) = Inr ()"
    using assms(3) by (cases "List.find is_lookup_proto (discovery_endpoints cfg)") (simp_all add: start_listener_def f)
  show ?thesis
    by (simp add: node_run_def a l kad_start_def s f push_dial_peers_spec DISCOVERED_PEER_QUEUE_SIZE_def Let_def)
qed

theorem node_run_returns_iff_witness:
  "fst (node_run (\<lambda>_. 0) (map (\<lambda>_. 0)) ex_semver (\<lambda>ep. Inr ep) (\<lambda>_. Inr ())
     (node_new (replicate 32 0) (ex_cfg\<lparr>dial_peers := replicate 129 (Tcp (Domain ''x'') 1)\<rparr>))) = Pending"
proof -
  obtain v where v: "version_from_str ex_semver ''0.1.0'' = Inr v" using ex_ping_version by (auto simp: is_ok_def split: sum.splits)
  have "length (List.map_filter (\<lambda>ep. from_endpoint ep 0) (replicate n (Tcp (Domain ''x'') 1))) = n" for n
    by (induction n) (simp_all add: map_filter_simps from_endpoint_def)
  then show ?thesis
    by (subst node_run_returns_iff [OF v]) (simp_all add: ex_cfg_def is_ok_def)
qed

end
