(* ===== verification/Event_Emitter.thy ===== *)
theory Event_Emitter
  imports Net_Addr "HOL-Library.Multiset"
begin

text \<open>
  The event emitter (\<open>utils/eventemitter/src/eventemitter.rs\<close>, \<open>utils/eventemitter/src/error.rs\<close> and the derive macro
  \<open>utils/eventemitter/derive/src/lib.rs\<close>).  The channels of the listeners are named by numbers in a
  store; a call of \<open>emit_by_topic\<close> is an emission under way, whose sends complete one by one in any order.
\<close>

section \<open>Values and errors\<close>

datatype ee_error = EeIO io_error | EeEmitter string | EeChannelSend string | EeChannelRecv

text \<open>A Rust type that implements \<open>AsEventValue\<close>: what distinguishes it, its name and the attribute of the derive macro.\<close>

record ev_ty =
  ty_tag :: nat
  ty_name :: string
  ty_event_id_attr :: "string option"

definition event_id :: "ev_ty \<Rightarrow> string" where
  "event_id ty = (case ty_event_id_attr ty of Some i \<Rightarrow> i | None \<Rightarrow> ty_name ty)"

record 'v event =
  ev_created :: int
  ev_type :: ev_ty
  ev_value :: 'v

section \<open>State\<close>

definition DEFAULT_CHANNEL_BUFFER_SIZE :: nat where "DEFAULT_CHANNEL_BUFFER_SIZE = 1000"

type_synonym listener_id = u64

record 'v chan =
  ch_buf :: "'v event list"
  ch_open :: bool

record 't event_listener =
  el_id :: listener_id
  el_event_id :: string
  el_topic :: 't
  el_type :: ev_ty

record ('t, 'v) emission =
  em_topic :: 't
  em_event :: "'v event"
  em_todo :: "(listener_id \<times> nat) list"
  em_failed :: "listener_id list"

text \<open>\<open>ee_handles\<close> are the listeners handed out, by the number of their channel (a dropped listener has its channel closed); \<open>ee_alive\<close> ends when the last reference to the
  emitter is dropped.\<close>

record ('t, 'v) emitter =
  ee_listeners :: "'t \<rightharpoonup> (string \<rightharpoonup> (listener_id \<rightharpoonup> nat))"
  ee_buffer_size :: nat
  ee_chans :: "nat \<rightharpoonup> 'v chan"
  ee_handles :: "nat \<rightharpoonup> 't event_listener"
  ee_next :: nat
  ee_emits :: "nat \<rightharpoonup> ('t, 'v) emission"
  ee_next_emit :: nat
  ee_alive :: bool

definition ee_with_size :: "nat \<Rightarrow> ('t, 'v) emitter" where
  "ee_with_size n = \<lparr>ee_listeners = Map.empty, ee_buffer_size = n, ee_chans = Map.empty, ee_handles = Map.empty, ee_next = 0,
     ee_emits = Map.empty, ee_next_emit = 0, ee_alive = True\<rparr>"

definition ee_new :: "('t, 'v) emitter" where
  "ee_new = ee_with_size DEFAULT_CHANNEL_BUFFER_SIZE"

text \<open>\<^term>\<open>None\<close> is the assertion failure for the size zero.\<close>

definition ee_with_buffer_size :: "nat \<Rightarrow> ('t, 'v) emitter option" where
  "ee_with_buffer_size n = (if n = 0 then None else Some (ee_with_size n))"

section \<open>Operations\<close>

text \<open>\<open>ids\<close> are the random numbers drawn; \<^term>\<open>None\<close> when all of them are taken and the loop goes on.\<close>

definition register :: "listener_id list \<Rightarrow> 't \<Rightarrow> ev_ty \<Rightarrow> ('t, 'v) emitter \<Rightarrow> (nat \<times> ('t, 'v) emitter) option" where
  "register ids topic ty s =
     (let event_ids = (case ee_listeners s topic of Some m \<Rightarrow> m | None \<Rightarrow> Map.empty);
          ls = (case event_ids (event_id ty) of Some m \<Rightarrow> m | None \<Rightarrow> Map.empty)
      in case List.find (\<lambda>i. ls i = None) ids of
          None \<Rightarrow> None
        | Some i \<Rightarrow> Some (ee_next s, s\<lparr>
            ee_listeners := (ee_listeners s)(topic \<mapsto> event_ids(event_id ty \<mapsto> ls(i \<mapsto> ee_next s))),
            ee_chans := (ee_chans s)(ee_next s \<mapsto> \<lparr>ch_buf = [], ch_open = True\<rparr>),
            ee_handles := (ee_handles s)(ee_next s \<mapsto> \<lparr>el_id = i, el_event_id = event_id ty, el_topic = topic, el_type = ty\<rparr>),
            ee_next := ee_next s + 1\<rparr>))"

definition has_listeners :: "'t \<Rightarrow> ('t, 'v) emitter \<Rightarrow> bool" where
  "has_listeners topic s \<longleftrightarrow> ee_listeners s topic \<noteq> None"

definition ee_clear :: "('t, 'v) emitter \<Rightarrow> ('t, 'v) emitter" where
  "ee_clear s = s\<lparr>ee_listeners := Map.empty\<rparr>"

definition unregister_topic :: "'t \<Rightarrow> ('t, 'v) emitter \<Rightarrow> ('t, 'v) emitter" where
  "unregister_topic topic s = s\<lparr>ee_listeners := (ee_listeners s)(topic := None)\<rparr>"

definition ee_remove :: "'t \<Rightarrow> string \<Rightarrow> listener_id list \<Rightarrow> ('t, 'v) emitter \<Rightarrow> ('t, 'v) emitter" where
  "ee_remove topic eid ids s = (case ee_listeners s topic of
      None \<Rightarrow> s
    | Some event_ids \<Rightarrow> (case event_ids eid of
        None \<Rightarrow> s
      | Some ls \<Rightarrow> s\<lparr>ee_listeners := (ee_listeners s)(topic \<mapsto> event_ids(eid \<mapsto> ls |` (- set ids)))\<rparr>))"

text \<open>\<open>send\<close>: the futures it builds, one for each listener in the order \<open>ord\<close> of the map; \<open>show\<close> formats the topic.\<close>

definition ee_send :: "('t \<Rightarrow> string) \<Rightarrow> listener_id list \<Rightarrow> 't \<Rightarrow> ev_ty \<Rightarrow> ('t, 'v) emitter \<Rightarrow> ee_error + (listener_id \<times> nat) list" where
  "ee_send shw ord topic ty s = (case ee_listeners s topic of
      None \<Rightarrow> Inl (EeEmitter (''Emit an event to a non-existent topic '' @ shw topic))
    | Some event_ids \<Rightarrow> (case event_ids (event_id ty) of
        None \<Rightarrow> Inr []
      | Some ls \<Rightarrow> Inr (map (\<lambda>i. (i, the (ls i))) ord)))"

definition emit_begin :: "('t \<Rightarrow> string) \<Rightarrow> listener_id list \<Rightarrow> 't \<Rightarrow> 'v event \<Rightarrow> ('t, 'v) emitter \<Rightarrow> (ee_error + nat) \<times> ('t, 'v) emitter" where
  "emit_begin shw ord topic ev s = (case ee_send shw ord topic (ev_type ev) s of
      Inl e \<Rightarrow> (Inl e, s)
    | Inr todo \<Rightarrow> (Inr (ee_next_emit s), s\<lparr>ee_emits := (ee_emits s)(ee_next_emit s \<mapsto> \<lparr>em_topic = topic, em_event = ev, em_todo = todo, em_failed = []\<rparr>),
        ee_next_emit := ee_next_emit s + 1\<rparr>))"

text \<open>One send future completes: it fails when the receiver is gone, and waits while the buffer is full.\<close>

definition emit_one :: "nat \<Rightarrow> listener_id \<times> nat \<Rightarrow> ('t, 'v) emitter \<Rightarrow> ('t, 'v) emitter option" where
  "emit_one k ic s = (case ee_emits s k of
      None \<Rightarrow> None
    | Some em \<Rightarrow> (if ic \<notin> set (em_todo em) then None else (case ee_chans s (snd ic) of
        None \<Rightarrow> None
      | Some ch \<Rightarrow>
          if \<not> ch_open ch then Some (s\<lparr>ee_emits := (ee_emits s)(k \<mapsto> em\<lparr>em_todo := remove1 ic (em_todo em), em_failed := em_failed em @ [fst ic]\<rparr>)\<rparr>)
          else if length (ch_buf ch) < ee_buffer_size s
          then Some (s\<lparr>ee_chans := (ee_chans s)(snd ic \<mapsto> ch\<lparr>ch_buf := ch_buf ch @ [em_event em]\<rparr>),
                       ee_emits := (ee_emits s)(k \<mapsto> em\<lparr>em_todo := remove1 ic (em_todo em)\<rparr>)\<rparr>)
          else None)))"

definition emit_end :: "nat \<Rightarrow> ('t, 'v) emitter \<Rightarrow> ('t, 'v) emitter option" where
  "emit_end k s = (case ee_emits s k of
      None \<Rightarrow> None
    | Some em \<Rightarrow> (if em_todo em \<noteq> [] then None
        else (let s1 = s\<lparr>ee_emits := (ee_emits s)(k := None)\<rparr>
              in Some (if em_failed em \<noteq> [] then ee_remove (em_topic em) (event_id (ev_type (em_event em))) (em_failed em) s1 else s1))))"

text \<open>A channel is closed when no sender is left: neither in the map nor in an emission.\<close>

definition has_sender :: "('t, 'v) emitter \<Rightarrow> nat \<Rightarrow> bool" where
  "has_sender s c \<longleftrightarrow> (\<exists>topic event_ids eid ls i. ee_listeners s topic = Some event_ids \<and> event_ids eid = Some ls \<and> ls i = Some c)
     \<or> (\<exists>k em i. ee_emits s k = Some em \<and> (i, c) \<in> set (em_todo em))"

text \<open>The outcomes of \<open>recv\<close>: a value, an error, the failed downcast, and the failed upgrade of the reference to the emitter.\<close>

datatype 'v recv_outcome = RecvValue 'v | RecvError ee_error | DowncastPanic | UpgradePanic

definition listener_cancel :: "nat \<Rightarrow> ('t, 'v) emitter \<Rightarrow> ('t, 'v) emitter option" where
  "listener_cancel c s = (if \<not> ee_alive s then None else (case ee_handles s c of
      None \<Rightarrow> Some s
    | Some h \<Rightarrow> Some (ee_remove (el_topic h) (el_event_id h) [el_id h] s)))"

definition listener_recv :: "nat \<Rightarrow> bool \<Rightarrow> ('t, 'v) emitter \<Rightarrow> 'v recv_outcome poll \<times> ('t, 'v) emitter" where
  "listener_recv c closed s = (case (ee_handles s c, ee_chans s c) of
      (Some h, Some ch) \<Rightarrow> (case ch_buf ch of
          ev # evs \<Rightarrow> (let s1 = s\<lparr>ee_chans := (ee_chans s)(c \<mapsto> ch\<lparr>ch_buf := evs\<rparr>)\<rparr>
            in (Ready (if ev_type ev = el_type h then RecvValue (ev_value ev) else DowncastPanic), s1))
        | [] \<Rightarrow> (if \<not> closed then (Pending, s)
            else (case listener_cancel c s of
                None \<Rightarrow> (Ready UpgradePanic, s)
              | Some s1 \<Rightarrow> (Ready (RecvError EeChannelRecv), s1))))
    | _ \<Rightarrow> (Pending, s))"

definition listener_drop :: "nat \<Rightarrow> ('t, 'v) emitter \<Rightarrow> ('t, 'v) emitter" where
  "listener_drop c s = (case ee_chans s c of
      None \<Rightarrow> s
    | Some _ \<Rightarrow> s\<lparr>ee_chans := (ee_chans s)(c \<mapsto> \<lparr>ch_buf = [], ch_open = False\<rparr>)\<rparr>)"

definition ee_drop :: "('t, 'v) emitter \<Rightarrow> ('t, 'v) emitter" where
  "ee_drop s = s\<lparr>ee_listeners := Map.empty, ee_alive := False\<rparr>"

section \<open>Interleaving\<close>

text \<open>A call of \<open>emit_by_topic\<close> with nothing in between, its sends completing in the order \<open>fin\<close>; \<^term>\<open>None\<close> when
  one of them waits.\<close>

fun emit_sends :: "nat \<Rightarrow> (listener_id \<times> nat) list \<Rightarrow> ('t, 'v) emitter \<Rightarrow> ('t, 'v) emitter option" where
  "emit_sends k [] s = Some s"
| "emit_sends k (ic # ics) s = Option.bind (emit_one k ic s) (emit_sends k ics)"

definition emit_by_topic :: "('t \<Rightarrow> string) \<Rightarrow> listener_id list \<Rightarrow> (listener_id \<times> nat) list \<Rightarrow> 't \<Rightarrow> 'v event \<Rightarrow> ('t, 'v) emitter \<Rightarrow>
    ((ee_error + unit) \<times> ('t, 'v) emitter) option" where
  "emit_by_topic shw ord fin topic ev s = (case emit_begin shw ord topic ev s of
      (Inl e, s1) \<Rightarrow> Some (Inl e, s1)
    | (Inr k, s1) \<Rightarrow> map_option (Pair (Inr ())) (Option.bind (emit_sends k fin s1) (emit_end k)))"

text \<open>Everything a program can do with an emitter whose events and listeners have types in \<open>T\<close>.  The iteration
  order of a map is any list of its keys; \<open>do_abort\<close> is the drop of the future of an emission.\<close>

definition listening :: "('t, 'v) emitter \<Rightarrow> nat \<Rightarrow> bool" where
  "listening s c \<longleftrightarrow> (case ee_chans s c of Some ch \<Rightarrow> ch_open ch | None \<Rightarrow> False)"

inductive ee_step :: "ev_ty set \<Rightarrow> ('t, 'v) emitter \<Rightarrow> ('t, 'v) emitter \<Rightarrow> bool" for T :: "ev_ty set" where
  do_register: "\<lbrakk>ee_alive s; ty \<in> T; register ids topic ty s = Some (c, s')\<rbrakk> \<Longrightarrow> ee_step T s s'"
| do_clear: "ee_alive s \<Longrightarrow> ee_step T s (ee_clear s)"
| do_unregister: "ee_alive s \<Longrightarrow> ee_step T s (unregister_topic topic s)"
| do_begin: "\<lbrakk>ee_alive s; ev_type ev \<in> T;
     \<forall>event_ids ls. ee_listeners s topic = Some event_ids \<longrightarrow> event_ids (event_id (ev_type ev)) = Some ls \<longrightarrow> distinct ord \<and> set ord = dom ls;
     emit_begin shw ord topic ev s = (r, s')\<rbrakk> \<Longrightarrow> ee_step T s s'"
| do_one: "emit_one k ic s = Some s' \<Longrightarrow> ee_step T s s'"
| do_end: "emit_end k s = Some s' \<Longrightarrow> ee_step T s s'"
| do_abort: "ee_step T s (s\<lparr>ee_emits := (ee_emits s)(k := None)\<rparr>)"
| do_recv: "\<lbrakk>listening s c; listener_recv c (\<not> has_sender s c) s = (Ready r, s')\<rbrakk> \<Longrightarrow> ee_step T s s'"
| do_cancel: "\<lbrakk>listening s c; listener_cancel c s = Some s'\<rbrakk> \<Longrightarrow> ee_step T s s'"
| do_drop_listener: "ee_step T s (listener_drop c s)"
| do_drop: "ee_emits s = Map.empty \<Longrightarrow> ee_step T s (ee_drop s)"

section \<open>Invariant\<close>

definition chan_ok :: "ev_ty set \<Rightarrow> ('t, 'v) emitter \<Rightarrow> nat \<Rightarrow> 'v chan \<Rightarrow> bool" where
  "chan_ok T s c ch \<longleftrightarrow> c < ee_next s \<and> length (ch_buf ch) \<le> ee_buffer_size s \<and> (\<exists>h. ee_handles s c = Some h \<and> el_event_id h = event_id (el_type h) \<and> el_type h \<in> T \<and>
     (\<forall>ev \<in> set (ch_buf ch). event_id (ev_type ev) = el_event_id h \<and> ev_type ev \<in> T))"

definition serves :: "('t, 'v) emitter \<Rightarrow> 't \<Rightarrow> string \<Rightarrow> listener_id \<Rightarrow> nat \<Rightarrow> bool" where
  "serves s topic eid i c \<longleftrightarrow> ee_chans s c \<noteq> None \<and> (\<exists>ty. ee_handles s c = Some \<lparr>el_id = i, el_event_id = eid, el_topic = topic, el_type = ty\<rparr>)"

definition emission_ok :: "ev_ty set \<Rightarrow> ('t, 'v) emitter \<Rightarrow> ('t, 'v) emission \<Rightarrow> bool" where
  "emission_ok T s em \<longleftrightarrow> ev_type (em_event em) \<in> T \<and>
     (\<forall>ic \<in> set (em_todo em). serves s (em_topic em) (event_id (ev_type (em_event em))) (fst ic) (snd ic))"

definition ee_ok :: "ev_ty set \<Rightarrow> ('t, 'v) emitter \<Rightarrow> bool" where
  "ee_ok T s \<longleftrightarrow> (\<forall>c ch. ee_chans s c = Some ch \<longrightarrow> chan_ok T s c ch)
     \<and> (\<forall>topic event_ids eid ls i c. ee_listeners s topic = Some event_ids \<longrightarrow> event_ids eid = Some ls \<longrightarrow> ls i = Some c \<longrightarrow> serves s topic eid i c)
     \<and> (\<forall>k em. ee_emits s k = Some em \<longrightarrow> emission_ok T s em)
     \<and> (\<forall>k. ee_next_emit s \<le> k \<longrightarrow> ee_emits s k = None)"

lemma ee_ok_intro:
  assumes "\<And>c ch. ee_chans s c = Some ch \<Longrightarrow> chan_ok T s c ch"
    and "\<And>topic event_ids eid ls i c. \<lbrakk>ee_listeners s topic = Some event_ids; event_ids eid = Some ls; ls i = Some c\<rbrakk> \<Longrightarrow> serves s topic eid i c"
    and "\<And>k em. ee_emits s k = Some em \<Longrightarrow> emission_ok T s em"
    and "\<And>k. ee_next_emit s \<le> k \<Longrightarrow> ee_emits s k = None"
  shows "ee_ok T s"
  using assms unfolding ee_ok_def by blast

lemma ee_okD:
  assumes "ee_ok T s"
  shows "ee_chans s c = Some ch \<Longrightarrow> chan_ok T s c ch"
    and "\<lbrakk>ee_listeners s topic = Some event_ids; event_ids eid = Some ls; ls i = Some c\<rbrakk> \<Longrightarrow> serves s topic eid i c"
    and "ee_emits s k = Some em \<Longrightarrow> emission_ok T s em"
    and "ee_next_emit s \<le> k \<Longrightarrow> ee_emits s k = None"
  using assms unfolding ee_ok_def by blast+

text \<open>Changes that keep the channels' owners: fewer listeners, and fewer or shorter emissions.\<close>

lemma ee_ok_shrink:
  assumes ok: "ee_ok T s"
    and same: "ee_handles s' = ee_handles s" "ee_next s' = ee_next s" "ee_buffer_size s' = ee_buffer_size s" "ee_next_emit s' = ee_next_emit s"
    and ch: "\<And>c ch. ee_chans s' c = Some ch \<Longrightarrow> chan_ok T s c ch" "dom (ee_chans s') = dom (ee_chans s)"
    and ls: "\<And>topic event_ids eid ls i c. \<lbrakk>ee_listeners s' topic = Some event_ids; event_ids eid = Some ls; ls i = Some c\<rbrakk> \<Longrightarrow>
      \<exists>event_ids' ls'. ee_listeners s topic = Some event_ids' \<and> event_ids' eid = Some ls' \<and> ls' i = Some c"
    and em: "\<And>k em. ee_emits s' k = Some em \<Longrightarrow> \<exists>em'. ee_emits s k = Some em' \<and> em_topic em = em_topic em' \<and> em_event em = em_event em' \<and> set (em_todo em) \<subseteq> set (em_todo em')"
  shows "ee_ok T s'"
proof (rule ee_ok_intro)
  have sv: "serves s' topic eid i c \<longleftrightarrow> serves s topic eid i c" for topic eid i c
    unfolding serves_def same(1) domIff[symmetric] ch(2) ..
  show "chan_ok T s' c ch" if "ee_chans s' c = Some ch" for c ch
    using ch(1)[OF that] same by (simp add: chan_ok_def)
  show "serves s' topic eid i c" if "ee_listeners s' topic = Some event_ids" "event_ids eid = Some ls" "ls i = Some c" for topic event_ids eid ls i c
    using ls[OF that] ee_okD(2)[OF ok] unfolding sv by blast
  show "emission_ok T s' em" if emk: "ee_emits s' k = Some em" for k em
  proof -
    obtain em' where "ee_emits s k = Some em'" and e: "em_topic em = em_topic em'" "em_event em = em_event em'" "set (em_todo em) \<subseteq> set (em_todo em')"
      using em[OF emk] by blast
    then have "emission_ok T s em'" using ee_okD(3)[OF ok] by blast
    then show ?thesis unfolding emission_ok_def sv e(1,2) using e(3) by blast
  qed
  show "ee_emits s' k = None" if "ee_next_emit s' \<le> k" for k
    using em[of k] ee_okD(4)[OF ok, of k] that unfolding same by (cases "ee_emits s' k") simp_all
qed

lemma ee_remove_fields [simp]:
  "ee_handles (ee_remove t e ids s) = ee_handles s" "ee_next (ee_remove t e ids s) = ee_next s" "ee_chans (ee_remove t e ids s) = ee_chans s"
  "ee_buffer_size (ee_remove t e ids s) = ee_buffer_size s" "ee_emits (ee_remove t e ids s) = ee_emits s" "ee_next_emit (ee_remove t e ids s) = ee_next_emit s"
  "ee_alive (ee_remove t e ids s) = ee_alive s"
  by (auto simp: ee_remove_def split: option.splits)

lemma ee_remove_listeners:
  "\<lbrakk>ee_listeners (ee_remove t e ids s) topic = Some event_ids; event_ids eid = Some ls; ls i = Some c\<rbrakk> \<Longrightarrow>
   \<exists>event_ids' ls'. ee_listeners s topic = Some event_ids' \<and> event_ids' eid = Some ls' \<and> ls' i = Some c"
  by (auto simp: ee_remove_def restrict_map_def split: option.splits if_splits)

lemma ee_remove_ok: "ee_ok T s \<Longrightarrow> ee_ok T (ee_remove t e ids s)"
  by (rule ee_ok_shrink[of T s]) (auto simp: ee_okD dest: ee_remove_listeners)

lemma ee_new_ok: "ee_ok T (ee_with_size n)"
  by (simp add: ee_ok_def ee_with_size_def)

lemma register_ok:
  assumes "ee_ok T s" "ty \<in> T" "register ids topic ty s = Some (c, s')"
  shows "ee_ok T s'"
proof -
  have fresh: "ee_chans s (ee_next s) = None"
    using ee_okD(1)[OF assms(1), of "ee_next s"] by (cases "ee_chans s (ee_next s)") (auto simp: chan_ok_def)
  have sv: "serves s t e i d \<Longrightarrow> serves s' t e i d" for t e i d
    using assms(3) fresh by (auto simp: register_def serves_def Let_def split: option.splits)
  show ?thesis
  proof (rule ee_ok_intro)
    show "chan_ok T s' d ch" if "ee_chans s' d = Some ch" for d ch
      using assms(2,3) that ee_okD(1)[OF assms(1), of d ch]
      by (auto simp: register_def chan_ok_def Let_def split: option.splits if_splits)
    show "serves s' t e i d" if l: "ee_listeners s' t = Some event_ids" "event_ids e = Some ls" "ls i = Some d" for t event_ids e ls i d
    proof (cases "\<exists>m l. ee_listeners s t = Some m \<and> m e = Some l \<and> l i = Some d")
      case True
      then show ?thesis using sv ee_okD(2)[OF assms(1)] by blast
    next
      case False
      then show ?thesis
        using assms(3) l by (auto simp: register_def serves_def Let_def split: option.splits if_splits)
    qed
    have emits: "ee_emits s' = ee_emits s"
      using assms(3) by (auto simp: register_def Let_def split: option.splits)
    show "emission_ok T s' em" if "ee_emits s' k = Some em" for k em
      using ee_okD(3)[OF assms(1), of k em] that sv unfolding emission_ok_def emits by blast
    show "ee_emits s' k = None" if "ee_next_emit s' \<le> k" for k
      using that ee_okD(4)[OF assms(1), of k] assms(3) by (auto simp: register_def Let_def split: option.splits)
  qed
qed

lemma emit_begin_ok:
  assumes "ee_ok T s" "ev_type ev \<in> T" "emit_begin shw ord topic ev s = (r, s')"
    and ord: "\<forall>event_ids ls. ee_listeners s topic = Some event_ids \<longrightarrow> event_ids (event_id (ev_type ev)) = Some ls \<longrightarrow> distinct ord \<and> set ord = dom ls"
  shows "ee_ok T s'"
proof (cases "ee_send shw ord topic (ev_type ev) s")
  case (Inl e)
  then show ?thesis using assms(1,3) by (auto simp: emit_begin_def)
next
  case (Inr todo)
  define em where "em = \<lparr>em_topic = topic, em_event = ev, em_todo = todo, em_failed = []\<rparr>"
  have s': "s' = s\<lparr>ee_emits := (ee_emits s)(ee_next_emit s \<mapsto> em), ee_next_emit := ee_next_emit s + 1\<rparr>"
    using Inr assms(3) by (simp add: emit_begin_def em_def)
  have todo: "serves s topic (event_id (ev_type ev)) (fst ic) (snd ic)" if "ic \<in> set todo" for ic
    using Inr ord that ee_okD(2)[OF assms(1), of topic] by (fastforce simp: ee_send_def split: option.splits)
  have sv: "serves s' t e i d \<longleftrightarrow> serves s t e i d" for t e i d
    by (simp add: s' serves_def)
  show ?thesis
  proof (rule ee_ok_intro)
    show "chan_ok T s' d ch" if "ee_chans s' d = Some ch" for d ch
      using that ee_okD(1)[OF assms(1), of d ch] by (simp add: s' chan_ok_def)
    show "serves s' t e i d" if "ee_listeners s' t = Some event_ids" "event_ids e = Some ls" "ls i = Some d" for t event_ids e ls i d
      using that ee_okD(2)[OF assms(1)] unfolding sv by (simp add: s')
    show "emission_ok T s' em'" if "ee_emits s' k = Some em'" for k em'
      using that ee_okD(3)[OF assms(1), of k em'] todo assms(2) unfolding emission_ok_def sv
      by (auto simp: s' em_def split: if_splits)
    show "ee_emits s' k = None" if "ee_next_emit s' \<le> k" for k
      using that ee_okD(4)[OF assms(1), of k] by (auto simp: s')
  qed
qed

lemma emit_one_cases:
  assumes "emit_one k ic s = Some s'"
  obtains (failed) em ch where "ee_emits s k = Some em" "ic \<in> set (em_todo em)" "ee_chans s (snd ic) = Some ch" "\<not> ch_open ch"
      "s' = s\<lparr>ee_emits := (ee_emits s)(k \<mapsto> em\<lparr>em_todo := remove1 ic (em_todo em), em_failed := em_failed em @ [fst ic]\<rparr>)\<rparr>"
    | (sent) em ch where "ee_emits s k = Some em" "ic \<in> set (em_todo em)" "ee_chans s (snd ic) = Some ch" "ch_open ch" "length (ch_buf ch) < ee_buffer_size s"
      "s' = s\<lparr>ee_chans := (ee_chans s)(snd ic \<mapsto> ch\<lparr>ch_buf := ch_buf ch @ [em_event em]\<rparr>), ee_emits := (ee_emits s)(k \<mapsto> em\<lparr>em_todo := remove1 ic (em_todo em)\<rparr>)\<rparr>"
  using assms unfolding emit_one_def by (auto split: option.splits if_splits)

lemma emit_one_ok:
  assumes "ee_ok T s" "emit_one k ic s = Some s'"
  shows "ee_ok T s'"
  using assms(2)
proof (cases rule: emit_one_cases)
  case (failed em ch)
  then show ?thesis
    by (intro ee_ok_shrink[OF assms(1), of s']) (auto simp: ee_okD[OF assms(1)] split: if_splits dest: in_set_remove1 set_remove1_subset[THEN subsetD])
next
  case (sent em ch)
  have "chan_ok T s (snd ic) (ch\<lparr>ch_buf := ch_buf ch @ [em_event em]\<rparr>)"
  proof -
    have em: "serves s (em_topic em) (event_id (ev_type (em_event em))) (fst ic) (snd ic)" "ev_type (em_event em) \<in> T"
      using ee_okD(3)[OF assms(1) sent(1)] sent(2) by (auto simp: emission_ok_def)
    show ?thesis
      using em ee_okD(1)[OF assms(1) sent(3)] sent(5) by (auto simp: chan_ok_def serves_def)
  qed
  with sent show ?thesis
    by (intro ee_ok_shrink[OF assms(1), of s']) (auto simp: ee_okD[OF assms(1)] split: if_splits dest: set_remove1_subset[THEN subsetD])
qed

lemma listener_recv_cases:
  assumes "listener_recv c closed s = (Ready r, s')"
  obtains (got) h ch ev evs where "ee_handles s c = Some h" "ee_chans s c = Some ch" "ch_buf ch = ev # evs"
      "r = (if ev_type ev = el_type h then RecvValue (ev_value ev) else DowncastPanic)" "s' = s\<lparr>ee_chans := (ee_chans s)(c \<mapsto> ch\<lparr>ch_buf := evs\<rparr>)\<rparr>"
    | (error) ch where "ee_chans s c = Some ch" "ch_buf ch = []" "closed" "listener_cancel c s = Some s'" "r = RecvError EeChannelRecv"
    | (gone) ch where "ee_chans s c = Some ch" "ch_buf ch = []" "closed" "\<not> ee_alive s" "s' = s" "r = UpgradePanic"
  using assms unfolding listener_recv_def
  by (auto simp: Let_def listener_cancel_def split: option.splits list.splits if_splits)

lemma listener_cancel_ok: "\<lbrakk>ee_ok T s; listener_cancel c s = Some s'\<rbrakk> \<Longrightarrow> ee_ok T s'"
  by (auto simp: listener_cancel_def ee_remove_ok split: if_splits option.splits)

lemma listener_recv_ok:
  assumes "ee_ok T s" "listener_recv c closed s = (Ready r, s')"
  shows "ee_ok T s'"
  using assms(2)
proof (cases rule: listener_recv_cases)
  case (got h ch ev evs)
  have "chan_ok T s c (ch\<lparr>ch_buf := evs\<rparr>)"
    using ee_okD(1)[OF assms(1) got(2)] got(3) by (auto simp: chan_ok_def)
  with got show ?thesis
    by (intro ee_ok_shrink[OF assms(1), of s']) (auto simp: ee_okD[OF assms(1)] split: if_splits)
next
  case error
  then show ?thesis using listener_cancel_ok[OF assms(1)] by blast
next
  case gone
  then show ?thesis using assms(1) by simp
qed

lemma listener_drop_ok:
  assumes "ee_ok T s"
  shows "ee_ok T (listener_drop c s)"
proof (cases "ee_chans s c")
  case None
  then show ?thesis using assms by (simp add: listener_drop_def)
next
  case (Some ch)
  have "chan_ok T s c \<lparr>ch_buf = [], ch_open = False\<rparr>"
    using ee_okD(1)[OF assms Some] by (auto simp: chan_ok_def)
  with Some show ?thesis
    by (intro ee_ok_shrink[OF assms]) (auto simp: listener_drop_def ee_okD[OF assms] split: if_splits)
qed

lemma ee_step_ok:
  assumes "ee_ok T s" "ee_step T s s'"
  shows "ee_ok T s'"
  using assms(2)
proof cases
  case (do_register ty ids topic c)
  then show ?thesis using register_ok[OF assms(1)] by blast
next
  case do_clear
  then show ?thesis by (auto intro!: ee_ok_shrink[OF assms(1)] simp: ee_clear_def ee_okD[OF assms(1)])
next
  case do_unregister
  then show ?thesis by (auto intro!: ee_ok_shrink[OF assms(1)] simp: unregister_topic_def ee_okD[OF assms(1)] split: if_splits)
next
  case (do_begin ev topic ord shw r)
  then show ?thesis using emit_begin_ok[OF assms(1)] by blast
next
  case do_one
  then show ?thesis using emit_one_ok[OF assms(1)] by blast
next
  case (do_end k)
  have "ee_ok T (s\<lparr>ee_emits := (ee_emits s)(k := None)\<rparr>)"
    by (auto intro!: ee_ok_shrink[OF assms(1)] simp: ee_okD[OF assms(1)] split: if_splits)
  with do_end show ?thesis by (auto simp: emit_end_def Let_def ee_remove_ok split: option.splits if_splits)
next
  case do_abort
  then show ?thesis by (auto intro!: ee_ok_shrink[OF assms(1)] simp: ee_okD[OF assms(1)] split: if_splits)
next
  case do_recv
  then show ?thesis using listener_recv_ok[OF assms(1)] by blast
next
  case do_cancel
  then show ?thesis using listener_cancel_ok[OF assms(1)] by blast
next
  case do_drop_listener
  then show ?thesis using listener_drop_ok[OF assms(1)] by blast
next
  case do_drop
  then show ?thesis by (auto intro!: ee_ok_shrink[OF assms(1)] simp: ee_drop_def ee_okD[OF assms(1)])
qed

interpretation ee_runs: step_invariant "ee_step T" "ee_ok T"
  for T :: "ev_ty set"
  by unfold_locales (rule ee_step_ok)

section \<open>Emitting without interruption\<close>

definition ee_lookup :: "('t, 'v) emitter \<Rightarrow> 't \<Rightarrow> string \<Rightarrow> listener_id \<Rightarrow> nat option" where
  "ee_lookup s topic eid i = Option.bind (ee_listeners s topic) (\<lambda>m. Option.bind (m eid) (\<lambda>ls. ls i))"

definition put_event :: "'v event \<Rightarrow> 'v chan \<Rightarrow> 'v chan" where
  "put_event ev ch = (if ch_open ch then ch\<lparr>ch_buf := ch_buf ch @ [ev]\<rparr> else ch)"

definition chan_full :: "('t, 'v) emitter \<Rightarrow> nat \<Rightarrow> bool" where
  "chan_full s c \<longleftrightarrow> (case ee_chans s c of None \<Rightarrow> False | Some ch \<Rightarrow> ch_open ch \<and> ee_buffer_size s \<le> length (ch_buf ch))"

definition put_all :: "'v event \<Rightarrow> nat set \<Rightarrow> (nat \<rightharpoonup> 'v chan) \<Rightarrow> (nat \<rightharpoonup> 'v chan)" where
  "put_all ev C chans = (\<lambda>c. if c \<in> C then map_option (put_event ev) (chans c) else chans c)"

lemma emit_sends_run:
  assumes "ee_emits s k = Some em" "distinct (map snd ics)" "mset ics \<subseteq># mset (em_todo em)"
    and "\<forall>ic \<in> set ics. ee_chans s (snd ic) \<noteq> None \<and> \<not> chan_full s (snd ic)"
  shows "emit_sends k ics s = Some (s\<lparr>ee_chans := put_all (em_event em) (snd ` set ics) (ee_chans s),
     ee_emits := (ee_emits s)(k \<mapsto> em\<lparr>em_todo := fold remove1 ics (em_todo em), em_failed := em_failed em @ map fst (filter (\<lambda>ic. \<not> listening s (snd ic)) ics)\<rparr>)\<rparr>)"
  using assms
proof (induction ics arbitrary: s em)
  case Nil
  then show ?case by (simp add: put_all_def fun_upd_idem)
next
  case (Cons ic ics)
  obtain ch where ch: "ee_chans s (snd ic) = Some ch" "\<not> chan_full s (snd ic)"
    using Cons.prems(4) by auto
  define em' where "em' = em\<lparr>em_todo := remove1 ic (em_todo em), em_failed := em_failed em @ (if ch_open ch then [] else [fst ic])\<rparr>"
  define s' where "s' = s\<lparr>ee_chans := (ee_chans s)(snd ic \<mapsto> put_event (em_event em) ch), ee_emits := (ee_emits s)(k \<mapsto> em')\<rparr>"
  have mem: "ic \<in> set (em_todo em)"
    using Cons.prems(3) by (auto dest: mset_subset_eqD)
  have one: "emit_one k ic s = Some s'"
    using mem ch Cons.prems(1) by (auto simp: emit_one_def s'_def em'_def put_event_def chan_full_def fun_upd_idem)
  have sub: "mset ics \<subseteq># mset (em_todo em')"
    using Cons.prems(3) by (simp add: em'_def insert_subset_eq_iff)
  have others: "ee_chans s' (snd jc) = ee_chans s (snd jc)" if "jc \<in> set ics" for jc
  proof -
    have "snd jc \<noteq> snd ic" using that Cons.prems(2) by (auto simp: image_iff)
    then show ?thesis by (simp add: s'_def)
  qed
  have ih: "emit_sends k ics s' = Some (s'\<lparr>ee_chans := put_all (em_event em') (snd ` set ics) (ee_chans s'),
     ee_emits := (ee_emits s')(k \<mapsto> em'\<lparr>em_todo := fold remove1 ics (em_todo em'), em_failed := em_failed em' @ map fst (filter (\<lambda>ic. \<not> listening s' (snd ic)) ics)\<rparr>)\<rparr>)"
    using Cons.prems(2,4) others sub by (intro Cons.IH) (auto simp: s'_def chan_full_def)
  have chans: "put_all (em_event em) (snd ` set ics) (ee_chans s') = put_all (em_event em) (snd ` set (ic # ics)) (ee_chans s)"
    using ch(1) Cons.prems(2) by (auto simp: put_all_def s'_def fun_eq_iff image_iff)
  have closed: "filter (\<lambda>ic. \<not> listening s' (snd ic)) ics = filter (\<lambda>ic. \<not> listening s (snd ic)) ics"
    by (rule filter_cong) (auto simp: listening_def others)
  have em: "em'\<lparr>em_todo := fold remove1 ics (em_todo em'), em_failed := em_failed em' @ map fst (filter (\<lambda>ic. \<not> listening s' (snd ic)) ics)\<rparr> =
      em\<lparr>em_todo := fold remove1 (ic # ics) (em_todo em), em_failed := em_failed em @ map fst (filter (\<lambda>ic. \<not> listening s (snd ic)) (ic # ics))\<rparr>"
    unfolding closed using ch(1) by (simp add: em'_def listening_def)
  have ev: "em_event em' = em_event em" by (simp add: em'_def)
  have upd: "s'\<lparr>ee_chans := A, ee_emits := (ee_emits s')(k \<mapsto> X)\<rparr> = s\<lparr>ee_chans := A, ee_emits := (ee_emits s)(k \<mapsto> X)\<rparr>" for A X
    by (simp add: s'_def)
  show ?case
    unfolding emit_sends.simps one bind.bind_lunit ih upd em ev chans ..
qed

lemma emit_sends_waits:
  assumes "distinct (map snd ics)" "ic \<in> set ics" "chan_full s (snd ic)"
  shows "emit_sends k ics s = None"
  using assms
proof (induction ics arbitrary: s)
  case (Cons jc ics)
  show ?case
  proof (cases "emit_one k jc s")
    case (Some s')
    have "jc \<noteq> ic"
      using Some Cons.prems(3) by (auto simp: emit_one_def chan_full_def split: option.splits if_splits)
    then have "ic \<in> set ics" "snd jc \<noteq> snd ic"
      using Cons.prems(1,2) by (auto simp: image_iff)
    moreover have "chan_full s' (snd ic)"
      using Some Cons.prems(3) \<open>snd jc \<noteq> snd ic\<close> by (cases rule: emit_one_cases) (auto simp: chan_full_def split: option.splits)
    ultimately show ?thesis using Some Cons.IH[of s'] Cons.prems(1) by simp
  qed simp
qed simp

lemma mset_fold_remove1: "mset (fold remove1 ics xs) = mset xs - mset ics"
  by (induction ics arbitrary: xs) (simp_all add: diff_diff_add_mset[symmetric])

lemma ee_lookup_remove:
  "ee_lookup (ee_remove topic eid ids s) t e i = (if t = topic \<and> e = eid \<and> i \<in> set ids then None else ee_lookup s t e i)"
  by (auto simp: ee_lookup_def ee_remove_def restrict_map_def split: option.splits bind_splits)

section \<open>Properties\<close>

lemma confused_run:
  fixes topic :: 't and v :: 'v
  assumes "ty1 \<in> T" "ty2 \<in> T" "ty1 \<noteq> ty2" "event_id ty1 = event_id ty2" "0 < n"
  shows "\<exists>s :: ('t, 'v) emitter. (ee_step T)\<^sup>*\<^sup>* (ee_with_size n) s \<and> listening s 0 \<and>
    (\<exists>s'. listener_recv 0 (\<not> has_sender s 0) s = (Ready DowncastPanic, s'))"
proof -
  define h where "h = \<lparr>el_id = 0, el_event_id = event_id ty1, el_topic = topic, el_type = ty1\<rparr>"
  define ls where "ls = [topic \<mapsto> [event_id ty1 \<mapsto> [(0 :: listener_id) \<mapsto> (0 :: nat)]]]"
  define ev where "ev = \<lparr>ev_created = 0, ev_type = ty2, ev_value = v\<rparr>"
  define st :: "'v event list \<Rightarrow> (nat \<rightharpoonup> ('t, 'v) emission) \<Rightarrow> nat \<Rightarrow> ('t, 'v) emitter" where
    "st = (\<lambda>buf ems k. \<lparr>ee_listeners = ls, ee_buffer_size = n, ee_chans = [0 \<mapsto> \<lparr>ch_buf = buf, ch_open = True\<rparr>], ee_handles = [0 \<mapsto> h],
       ee_next = 1, ee_emits = ems, ee_next_emit = k, ee_alive = True\<rparr>)"
  define em where "em = (\<lambda>todo. \<lparr>em_topic = topic, em_event = ev, em_todo = todo, em_failed = []\<rparr>)"
  have reg: "register [0] topic ty1 (ee_with_size n) = Some (0, st [] Map.empty 0)"
    by (simp add: register_def ee_with_size_def st_def ls_def h_def)
  have "ee_step T (ee_with_size n) (st [] Map.empty 0)"
    by (rule do_register[OF _ assms(1) reg]) (simp add: ee_with_size_def)
  moreover have beg: "emit_begin (\<lambda>_. []) [0] topic ev (st [] Map.empty 0) = (Inr 0, st [] [0 \<mapsto> em [(0, 0)]] 1)"
    using assms(4) by (simp add: emit_begin_def ee_send_def st_def ls_def em_def ev_def)
  have "ee_step T (st [] Map.empty 0) (st [] [0 \<mapsto> em [(0, 0)]] 1)"
    using assms(2,4) by (intro do_begin[OF _ _ _ beg]) (auto simp: st_def ev_def ls_def)
  moreover have "emit_one 0 (0, 0) (st [] [0 \<mapsto> em [(0, 0)]] 1) = Some (st [ev] [0 \<mapsto> em []] 1)"
    using assms(5) by (simp add: emit_one_def st_def em_def)
  then have "ee_step T (st [] [0 \<mapsto> em [(0, 0)]] 1) (st [ev] [0 \<mapsto> em []] 1)"
    by (rule do_one)
  ultimately have "(ee_step T)\<^sup>*\<^sup>* (ee_with_size n) (st [ev] [0 \<mapsto> em []] 1)"
    by (meson rtranclp.rtrancl_refl rtranclp.rtrancl_into_rtrancl)
  moreover have "listening (st [ev] [0 \<mapsto> em []] 1) 0"
    by (simp add: listening_def st_def)
  moreover have "\<exists>s'. listener_recv 0 b (st [ev] [0 \<mapsto> em []] 1) = (Ready DowncastPanic, s')" for b
    using assms(3) by (simp add: listener_recv_def st_def h_def ev_def)
  ultimately show ?thesis by blast
qed

text \<open>C19. The cast in \<open>recv\<close> is safe exactly when no two types used with the emitter share an event id.  Whatever is registered,
  emitted, received, cancelled and dropped in whatever order, the value taken from the channel has the listener's type if the event
  ids of the types in use are distinct; and if two types have the same id (by default the bare name of the type), a listener of
  the one receives a value of the other and \<open>recv\<close> panics.\<close>

theorem recv_typed_iff:
  assumes "0 < n"
  shows "(\<exists>(s :: ('t, 'v) emitter) c s'. (ee_step T)\<^sup>*\<^sup>* (ee_with_size n) s \<and> listening s c \<and>
      listener_recv c (\<not> has_sender s c) s = (Ready DowncastPanic, s')) \<longleftrightarrow> \<not> inj_on event_id T"
proof
  assume "\<exists>(s :: ('t, 'v) emitter) c s'. (ee_step T)\<^sup>*\<^sup>* (ee_with_size n) s \<and> listening s c \<and> listener_recv c (\<not> has_sender s c) s = (Ready DowncastPanic, s')"
  then obtain s :: "('t, 'v) emitter" and c s' where run: "(ee_step T)\<^sup>*\<^sup>* (ee_with_size n) s" and recv: "listener_recv c (\<not> has_sender s c) s = (Ready DowncastPanic, s')"
    by blast
  have ok: "ee_ok T s" by (rule ee_runs.reachable_inv[OF run ee_new_ok])
  from recv show "\<not> inj_on event_id T"
  proof (cases rule: listener_recv_cases)
    case (got h ch ev evs)
    with ee_okD(1)[OF ok got(2)] show ?thesis by (auto simp: chan_ok_def inj_on_def split: if_splits)
  qed simp_all
next
  assume "\<not> inj_on event_id T"
  then obtain ty1 ty2 where "ty1 \<in> T" "ty2 \<in> T" "ty1 \<noteq> ty2" "event_id ty1 = event_id ty2"
    by (auto simp: inj_on_def)
  from confused_run[OF this assms] show "\<exists>(s :: ('t, 'v) emitter) c s'. (ee_step T)\<^sup>*\<^sup>* (ee_with_size n) s \<and> listening s c \<and>
      listener_recv c (\<not> has_sender s c) s = (Ready DowncastPanic, s')" by blast
qed

text \<open>Two types named \<open>Msg\<close> in different modules.\<close>

definition ex_ty :: "nat \<Rightarrow> ev_ty" where
  "ex_ty k = \<lparr>ty_tag = k, ty_name = ''Msg'', ty_event_id_attr = None\<rparr>"

theorem recv_typed_iff_witness:
  "\<exists>(s :: (nat, nat) emitter) c s'. (ee_step {ex_ty 0, ex_ty 1})\<^sup>*\<^sup>* (ee_with_size 1) s \<and> listening s c \<and>
      listener_recv c (\<not> has_sender s c) s = (Ready DowncastPanic, s')"
  using recv_typed_iff[of 1 "{ex_ty 0, ex_ty 1}", where ?'t = nat and ?'v = nat] by (simp add: inj_on_def ex_ty_def event_id_def)

lemma emit_begin_sends:
  assumes "ee_listeners s topic = Some event_ids" "ls = (case event_ids (event_id (ev_type ev)) of Some m \<Rightarrow> m | None \<Rightarrow> Map.empty)" "set ord = dom ls"
  shows "emit_begin shw ord topic ev s = (Inr (ee_next_emit s), s\<lparr>ee_emits := (ee_emits s)(ee_next_emit s \<mapsto>
      \<lparr>em_topic = topic, em_event = ev, em_todo = map (\<lambda>i. (i, the (ls i))) ord, em_failed = []\<rparr>), ee_next_emit := ee_next_emit s + 1\<rparr>)"
  using assms by (auto simp: emit_begin_def ee_send_def split: option.splits)

lemma sends_distinct:
  assumes "ee_ok T s" "ee_listeners s topic = Some event_ids" "ls = (case event_ids eid of Some m \<Rightarrow> m | None \<Rightarrow> Map.empty)"
    and ord: "distinct ord" "set ord = dom ls" "mset fin = mset (map (\<lambda>i. (i, the (ls i))) ord)"
  shows "distinct (map snd fin)" "set fin = {(i, c). ls i = Some c}" "ls i = Some c \<Longrightarrow> serves s topic eid i c"
proof -
  show sv: "serves s topic eid i c" if "ls i = Some c" for i c
    using that assms(3) ee_okD(2)[OF assms(1,2)] by (auto split: option.splits)
  have "inj_on (\<lambda>i. the (ls i)) (set ord)"
  proof (rule inj_onI)
    fix i j assume "i \<in> set ord" "j \<in> set ord" "the (ls i) = the (ls j)"
    then obtain c where "ls i = Some c" "ls j = Some c" unfolding ord(2) by auto
    then show "i = j" using sv[of i c] sv[of j c] by (auto simp: serves_def)
  qed
  then have "distinct (map snd (map (\<lambda>i. (i, the (ls i))) ord))"
    using ord(1) by (simp add: distinct_map comp_def)
  moreover have "mset (map snd fin) = mset (map snd (map (\<lambda>i. (i, the (ls i))) ord))"
    using ord(3) by (simp only: mset_map)
  ultimately show "distinct (map snd fin)"
    using mset_eq_imp_distinct_iff by blast
  show "set fin = {(i, c). ls i = Some c}"
    using mset_eq_setD[OF ord(3)] ord(2) by (force simp: dom_def)
qed

text \<open>C18. What one call of \<open>emit_by_topic\<close> does, in every state a program can bring the emitter to and for every order in which
  the listeners are found and their sends complete.  A topic nobody registered for is the error, with nothing changed.  Otherwise the
  call waits exactly when a live listener of that topic and event id has a full channel; and when it returns, each such
  listener has the event once more at the end of its channel, every other channel is as before, and exactly the listeners
  of that topic and event id that were dropped are no longer registered.\<close>

theorem emit_exact:
  fixes s :: "('t, 'v) emitter"
  assumes run: "(ee_step T)\<^sup>*\<^sup>* (ee_with_size n) s"
    and ls: "ls = ee_lookup s topic (event_id (ev_type ev))"
    and ord: "distinct ord" "set ord = dom ls" "mset fin = mset (map (\<lambda>i. (i, the (ls i))) ord)"
  shows "if ee_listeners s topic = None
    then emit_by_topic shw ord fin topic ev s = Some (Inl (EeEmitter (''Emit an event to a non-existent topic '' @ shw topic)), s)
    else if \<exists>c \<in> ran ls. chan_full s c then emit_by_topic shw ord fin topic ev s = None
    else \<exists>s'. emit_by_topic shw ord fin topic ev s = Some (Inr (), s')
        \<and> ee_chans s' = put_all ev (ran ls) (ee_chans s) \<and> ee_handles s' = ee_handles s \<and> ee_emits s' = ee_emits s
        \<and> (\<forall>t e i. ee_lookup s' t e i = (if t = topic \<and> e = event_id (ev_type ev) \<and> (\<exists>c. ls i = Some c \<and> \<not> listening s c) then None else ee_lookup s t e i))"
proof (cases "ee_listeners s topic")
  case None
  then show ?thesis by (simp add: emit_by_topic_def emit_begin_def ee_send_def)
next
  case (Some event_ids)
  have ok: "ee_ok T s" by (rule ee_runs.reachable_inv[OF run ee_new_ok])
  define k where "k = ee_next_emit s"
  define em where "em = \<lparr>em_topic = topic, em_event = ev, em_todo = map (\<lambda>i. (i, the (ls i))) ord, em_failed = []\<rparr>"
  define s1 where "s1 = s\<lparr>ee_emits := (ee_emits s)(k \<mapsto> em), ee_next_emit := k + 1\<rparr>"
  have ls': "ls = (case event_ids (event_id (ev_type ev)) of Some m \<Rightarrow> m | None \<Rightarrow> Map.empty)"
    using Some by (auto simp: ls ee_lookup_def fun_eq_iff split: option.splits)
  have beg: "emit_begin shw ord topic ev s = (Inr k, s1)"
    unfolding emit_begin_sends[OF Some ls' ord(2)] by (simp add: k_def s1_def em_def)
  note fin = sends_distinct[OF ok Some ls' ord]
  have ran: "snd ` set fin = ran ls"
    by (force simp: fin(2) ran_def)
  have free: "ee_emits s k = None" using ee_okD(4)[OF ok, of k] by (simp add: k_def)
  have same: "chan_full s1 c = chan_full s c" "listening s1 c = listening s c" for c
    by (simp_all add: chan_full_def listening_def s1_def cong: option.case_cong)
  show ?thesis
  proof (cases "\<exists>c \<in> ran ls. chan_full s c")
    case True
    then obtain ic where "ic \<in> set fin" "chan_full s1 (snd ic)"
      unfolding ran[symmetric] same by blast
    from emit_sends_waits[OF fin(1) this] True Some show ?thesis
      by (simp add: emit_by_topic_def beg)
  next
    case False
    have room: "\<forall>ic \<in> set fin. ee_chans s1 (snd ic) \<noteq> None \<and> \<not> chan_full s1 (snd ic)"
      using False fin(3) unfolding fin(2) same by (fastforce simp: serves_def s1_def ran_def)
    define fld where "fld = map fst (filter (\<lambda>ic. \<not> listening s (snd ic)) fin)"
    have sends: "emit_sends k fin s1 = Some (s1\<lparr>ee_chans := put_all ev (ran ls) (ee_chans s),
        ee_emits := (ee_emits s)(k \<mapsto> em\<lparr>em_todo := [], em_failed := fld\<rparr>)\<rparr>)"
      using emit_sends_run[of s1 k em fin, OF _ fin(1) _ room] ord(3) mset_fold_remove1[of fin "em_todo em"]
      unfolding same by (simp add: s1_def em_def ran fld_def)
    have fld: "i \<in> set fld \<longleftrightarrow> (\<exists>c. ls i = Some c \<and> \<not> listening s c)" for i
      by (force simp: fld_def fin(2))
    define s2 where "s2 = s\<lparr>ee_next_emit := k + 1, ee_chans := put_all ev (ran ls) (ee_chans s)\<rparr>"
    define s3 where "s3 = (if fld \<noteq> [] then ee_remove topic (event_id (ev_type ev)) fld s2 else s2)"
    have "emit_end k (s1\<lparr>ee_chans := put_all ev (ran ls) (ee_chans s), ee_emits := (ee_emits s)(k \<mapsto> em\<lparr>em_todo := [], em_failed := fld\<rparr>)\<rparr>) = Some s3"
      using free by (simp add: emit_end_def s3_def s2_def s1_def em_def Let_def fun_upd_idem)
    then have "emit_by_topic shw ord fin topic ev s = Some (Inr (), s3)"
      by (simp add: emit_by_topic_def beg sends)
    moreover have "ee_lookup s2 t e i = ee_lookup s t e i" for t e i
      by (simp add: ee_lookup_def s2_def)
    then have "ee_lookup s3 t e i = (if t = topic \<and> e = event_id (ev_type ev) \<and> (\<exists>c. ls i = Some c \<and> \<not> listening s c) then None else ee_lookup s t e i)" for t e i
      unfolding fld[symmetric] by (simp add: s3_def ee_lookup_remove)
    moreover have "ee_chans s3 = put_all ev (ran ls) (ee_chans s) \<and> ee_handles s3 = ee_handles s \<and> ee_emits s3 = ee_emits s"
      by (simp add: s3_def s2_def)
    ultimately show ?thesis using False Some by simp
  qed
qed

text \<open>Two listeners on topic 7, the second one dropped.\<close>

definition ex_ev :: "nat event" where
  "ex_ev = \<lparr>ev_created = 0, ev_type = ex_ty 0, ev_value = 5\<rparr>"

definition ex_emitter :: "(nat, nat) emitter" where
  "ex_emitter = \<lparr>ee_listeners = [7 \<mapsto> [''Msg'' \<mapsto> [0 \<mapsto> 0, 1 \<mapsto> 1]]], ee_buffer_size = 1,
     ee_chans = [0 \<mapsto> \<lparr>ch_buf = [], ch_open = True\<rparr>, 1 \<mapsto> \<lparr>ch_buf = [], ch_open = False\<rparr>],
     ee_handles = [0 \<mapsto> \<lparr>el_id = 0, el_event_id = ''Msg'', el_topic = 7, el_type = ex_ty 0\<rparr>,
       1 \<mapsto> \<lparr>el_id = 1, el_event_id = ''Msg'', el_topic = 7, el_type = ex_ty 0\<rparr>],
     ee_next = 2, ee_emits = Map.empty, ee_next_emit = 0, ee_alive = True\<rparr>"

lemma ex_emitter_run: "(ee_step {ex_ty 0})\<^sup>*\<^sup>* (ee_with_size 1) ex_emitter"
proof -
  define s1 :: "(nat, nat) emitter" where "s1 = snd (the (register [0] 7 (ex_ty 0) (ee_with_size 1)))"
  define s2 :: "(nat, nat) emitter" where "s2 = snd (the (register [0, 1] 7 (ex_ty 0) s1))"
  note defs = s1_def s2_def register_def ee_with_size_def ex_ty_def event_id_def
  have "ee_step {ex_ty 0} (ee_with_size 1) s1"
    by (rule do_register[of _ "ex_ty 0" _ "[0]" 7 0]) (simp_all add: defs)
  moreover have "ee_step {ex_ty 0} s1 s2"
    by (rule do_register[of _ "ex_ty 0" _ "[0, 1]" 7 1]) (simp_all add: defs)
  moreover have "ee_step {ex_ty 0} s2 (listener_drop 1 s2)"
    by (rule do_drop_listener)
  moreover have "listener_drop 1 s2 = ex_emitter"
    by (simp add: defs listener_drop_def ex_emitter_def)
  ultimately show ?thesis
    by (metis (no_types, lifting) rtranclp.rtrancl_refl rtranclp.rtrancl_into_rtrancl)
qed

theorem emit_exact_witness:
  "\<exists>s'. emit_by_topic (\<lambda>_. []) [0, 1] [(1, 1), (0, 0)] 7 ex_ev ex_emitter = Some (Inr (), s') \<and>
     ee_chans s' 0 = Some \<lparr>ch_buf = [ex_ev], ch_open = True\<rparr> \<and> ee_lookup s' 7 ''Msg'' 0 = Some 0 \<and> ee_lookup s' 7 ''Msg'' 1 = None"
proof -
  have ls: "ee_lookup ex_emitter 7 (event_id (ev_type ex_ev)) = [0 \<mapsto> 0, 1 \<mapsto> 1]"
    by (simp add: fun_eq_iff ee_lookup_def ex_emitter_def ex_ev_def ex_ty_def event_id_def)
  have ran: "ran [0 :: u64 \<mapsto> 0 :: nat, 1 \<mapsto> 1] = {0, 1}"
    by (auto simp: ran_map_upd)
  have "\<not> (\<exists>c \<in> {0, 1}. chan_full ex_emitter c)"
    by (simp add: chan_full_def ex_emitter_def)
  then obtain s' where "emit_by_topic (\<lambda>_. []) [0, 1] [(1, 1), (0, 0)] 7 ex_ev ex_emitter = Some (Inr (), s')"
      "ee_chans s' = put_all ex_ev {0, 1} (ee_chans ex_emitter)"
      "\<forall>t e i. ee_lookup s' t e i = (if t = 7 \<and> e = event_id (ev_type ex_ev) \<and> (\<exists>c. [0 \<mapsto> 0, 1 \<mapsto> 1] i = Some c \<and> \<not> listening ex_emitter c) then None else ee_lookup ex_emitter t e i)"
    using emit_exact[OF ex_emitter_run ls[symmetric], of "[0, 1]" "[(1, 1), (0, 0)]" "\<lambda>_. []"] unfolding ran
    by (auto simp: ex_emitter_def split: if_splits)
  then show ?thesis
    by (auto simp: put_all_def put_event_def ex_emitter_def listening_def ee_lookup_def ex_ev_def ex_ty_def event_id_def)
qed

text \<open>The end of the emitter.\<close>

definition ee_dead_ok :: "('t, 'v) emitter \<Rightarrow> bool" where
  "ee_dead_ok s \<longleftrightarrow> (\<not> ee_alive s \<longrightarrow> ee_listeners s = Map.empty \<and> ee_emits s = Map.empty)"

lemma ee_remove_empty: "ee_listeners s = Map.empty \<Longrightarrow> ee_remove t e ids s = s"
  by (simp add: ee_remove_def)

lemma ee_step_dead:
  assumes "ee_dead_ok s" "ee_step T s s'"
  shows "ee_dead_ok s'"
proof (cases "ee_alive s")
  case True
  from assms(2) have "ee_alive s' \<or> s' = ee_drop s \<and> ee_emits s = Map.empty"
  proof cases
    case do_one
    then show ?thesis using True by (auto elim!: emit_one_cases)
  next
    case do_recv
    from do_recv(2) True show ?thesis
      by (cases rule: listener_recv_cases) (auto simp: listener_cancel_def split: option.splits if_splits)
  qed (use True in \<open>auto simp: register_def emit_begin_def emit_end_def ee_clear_def unregister_topic_def listener_cancel_def listener_drop_def Let_def
      split: option.splits sum.splits if_splits\<close>)
  then show ?thesis by (auto simp: ee_dead_ok_def ee_drop_def)
next
  case False
  with assms(1) have e: "ee_listeners s = Map.empty" "ee_emits s = Map.empty"
    by (simp_all add: ee_dead_ok_def)
  from assms(2) have "ee_listeners s' = Map.empty \<and> ee_emits s' = Map.empty"
  proof cases
    case do_one
    then show ?thesis using e by (auto simp: emit_one_def)
  next
    case do_recv
    from do_recv(2) False e show ?thesis
      by (cases rule: listener_recv_cases) (auto simp: listener_cancel_def)
  qed (use False e in \<open>auto simp: emit_end_def listener_cancel_def listener_drop_def ee_drop_def split: option.splits\<close>)
  then show ?thesis by (simp add: ee_dead_ok_def)
qed

interpretation ee_ends: step_invariant "ee_step T" ee_dead_ok
  for T :: "ev_ty set"
  by unfold_locales (rule ee_step_dead)

text \<open>C40. How the events of a listener end.  When nothing is left in its channel and no sender either, \<open>recv\<close> returns
  the receive error while the emitter lives, and the listener is no longer registered; but once the emitter has been dropped every such
  \<open>recv\<close> panics on the upgrade of the weak reference in \<open>cancel\<close>, and as all senders are gone then, it never waits and never returns
  the error.\<close>

theorem recv_end:
  assumes "(ee_step T)\<^sup>*\<^sup>* (ee_with_size n) s" "ee_chans s c = Some ch" "ee_handles s c = Some h" "ch_buf ch = []"
  shows "if ee_alive s
    then (if has_sender s c then listener_recv c (\<not> has_sender s c) s = (Pending, s)
      else \<exists>s'. listener_recv c (\<not> has_sender s c) s = (Ready (RecvError EeChannelRecv), s') \<and> ee_lookup s' (el_topic h) (el_event_id h) (el_id h) = None)
    else listener_recv c (\<not> has_sender s c) s = (Ready UpgradePanic, s)"
proof -
  have "ee_dead_ok s"
    by (rule ee_ends.reachable_inv[OF assms(1)]) (simp add: ee_dead_ok_def ee_with_size_def)
  then have "\<not> ee_alive s \<Longrightarrow> \<not> has_sender s c"
    by (auto simp: ee_dead_ok_def has_sender_def)
  with assms(2-4) show ?thesis
    by (auto simp: listener_recv_def listener_cancel_def ee_lookup_remove)
qed

lemma ex_emitter_dropped: "(ee_step {ex_ty 0})\<^sup>*\<^sup>* (ee_with_size 1) (ee_drop ex_emitter)"
  using ex_emitter_run by (rule rtranclp.rtrancl_into_rtrancl) (rule do_drop, simp add: ex_emitter_def)

theorem recv_end_witness:
  "listener_recv 0 (\<not> has_sender (ee_drop ex_emitter) 0) (ee_drop ex_emitter) = (Ready UpgradePanic, ee_drop ex_emitter)"
  using recv_end[OF ex_emitter_dropped, of 0] by (simp add: ee_drop_def ex_emitter_def)

end
