(* ===== verification/Jsonrpc_Message.thy ===== *)
theory Jsonrpc_Message
  imports Net_Codec
begin

text \<open>
  Messages of the JSON-RPC library: \<open>jsonrpc/src/message.rs\<close>, \<open>jsonrpc/src/error.rs\<close> and \<open>jsonrpc/src/codec.rs\<close>.  A value is the
  tree of \<open>serde_json::Value\<close>, the conversions of the message types are those their serde attributes ask for,
  and the text form of a value is an argument.
\<close>

section \<open>Values\<close>

text \<open>A floating-point number is its bit pattern.  Objects are ordered maps: association lists in the order of their keys.\<close>

datatype jnum = PosInt u64 | NegInt u64 | Float u64

datatype json = JNull | JBool bool | JNum jnum | JStr string | JArr "json list" | JObj "(string \<times> json) list"

type_synonym i32 = "32 word"

definition json_u32 :: "u32 \<Rightarrow> json" where
  "json_u32 n = JNum (PosInt (ucast n))"

definition json_i32 :: "i32 \<Rightarrow> json" where
  "json_i32 c = JNum (if 0 \<le> sint c then PosInt (ucast c) else NegInt (scast c))"

fun as_string :: "json \<Rightarrow> string option" where
  "as_string (JStr s) = Some s"
| "as_string _ = None"

fun as_u32 :: "json \<Rightarrow> u32 option" where
  "as_u32 (JNum (PosInt n)) = (if unat n < 2 ^ 32 then Some (ucast n) else None)"
| "as_u32 _ = None"

fun as_i32 :: "json \<Rightarrow> i32 option" where
  "as_i32 (JNum (PosInt n)) = (if unat n < 2 ^ 31 then Some (ucast n) else None)"
| "as_i32 (JNum (NegInt n)) = (if - (2 ^ 31) \<le> sint n then Some (ucast n) else None)"
| "as_i32 _ = None"

text \<open>A field of type \<open>Option\<close>: absent and null are both \<open>None\<close>.\<close>

fun as_option :: "json option \<Rightarrow> json option" where
  "as_option (Some JNull) = None"
| "as_option v = v"

definition obj_field :: "string \<Rightarrow> json option \<Rightarrow> (string \<times> json) list" where
  "obj_field k v = (case v of None \<Rightarrow> [] | Some x \<Rightarrow> [(k, x)])"

section \<open>Messages\<close>

definition JSONRPC_VERSION :: string where "JSONRPC_VERSION = ''2.0''"

definition PARSE_ERROR_CODE :: i32 where "PARSE_ERROR_CODE = - 32700"
definition INVALID_REQUEST_ERROR_CODE :: i32 where "INVALID_REQUEST_ERROR_CODE = - 32600"
definition METHOD_NOT_FOUND_ERROR_CODE :: i32 where "METHOD_NOT_FOUND_ERROR_CODE = - 32601"
definition INVALID_PARAMS_ERROR_CODE :: i32 where "INVALID_PARAMS_ERROR_CODE = - 32602"
definition INTERNAL_ERROR_CODE :: i32 where "INTERNAL_ERROR_CODE = - 32603"

type_synonym subscription_id = u32

record rpc_request =
  rq_jsonrpc :: string
  rq_id :: json
  rq_method :: string
  rq_params :: "json option"

record error_object =
  er_code :: i32
  er_message :: string
  er_data :: "json option"

record rpc_response =
  rs_jsonrpc :: string
  rs_id :: "json option"
  rs_result :: "json option"
  rs_error :: "error_object option"

record notification =
  nt_jsonrpc :: string
  nt_method :: string
  nt_params :: "json option"

record notification_result =
  nr_result :: "json option"
  nr_subscription :: subscription_id

text \<open>Serialising: an absent option is left out, except in \<open>NotificationResult\<close>.\<close>

definition request_to_value :: "rpc_request \<Rightarrow> json" where
  "request_to_value r = JObj ([(''id'', rq_id r), (''jsonrpc'', JStr (rq_jsonrpc r)), (''method'', JStr (rq_method r))] @ obj_field ''params'' (rq_params r))"

definition error_to_value :: "error_object \<Rightarrow> json" where
  "error_to_value e = JObj ([(''code'', json_i32 (er_code e))] @ obj_field ''data'' (er_data e) @ [(''message'', JStr (er_message e))])"

definition response_to_value :: "rpc_response \<Rightarrow> json" where
  "response_to_value r = JObj (obj_field ''error'' (map_option error_to_value (rs_error r)) @ obj_field ''id'' (rs_id r) @
     [(''jsonrpc'', JStr (rs_jsonrpc r))] @ obj_field ''result'' (rs_result r))"

definition notification_to_value :: "notification \<Rightarrow> json" where
  "notification_to_value n = JObj ([(''jsonrpc'', JStr (nt_jsonrpc n)), (''method'', JStr (nt_method n))] @ obj_field ''params'' (nt_params n))"

definition notification_result_to_value :: "notification_result \<Rightarrow> json" where
  "notification_result_to_value n = JObj [(''result'', case nr_result n of None \<Rightarrow> JNull | Some v \<Rightarrow> v), (''subscription'', json_u32 (nr_subscription n))]"

text \<open>Deserialising: from an object, by name, or from an array with exactly the fields in their order; \<^term>\<open>None\<close> is the error.\<close>

fun struct_fields :: "string list \<Rightarrow> json \<Rightarrow> (string \<rightharpoonup> json) option" where
  "struct_fields names (JObj kvs) = Some (map_of kvs)"
| "struct_fields names (JArr vs) = (if length vs = length names then Some (map_of (zip names vs)) else None)"
| "struct_fields names _ = None"

definition request_from_value :: "json \<Rightarrow> rpc_request option" where
  "request_from_value v = Option.bind (struct_fields [''jsonrpc'', ''id'', ''method'', ''params''] v) (\<lambda>f.
     Option.bind (Option.bind (f ''jsonrpc'') as_string) (\<lambda>ver.
     Option.bind (f ''id'') (\<lambda>i.
     Option.bind (Option.bind (f ''method'') as_string) (\<lambda>m.
       Some \<lparr>rq_jsonrpc = ver, rq_id = i, rq_method = m, rq_params = as_option (f ''params'')\<rparr>))))"

definition error_from_value :: "json \<Rightarrow> error_object option" where
  "error_from_value v = Option.bind (struct_fields [''code'', ''message'', ''data''] v) (\<lambda>f.
     Option.bind (Option.bind (f ''code'') as_i32) (\<lambda>c.
     Option.bind (Option.bind (f ''message'') as_string) (\<lambda>m.
       Some \<lparr>er_code = c, er_message = m, er_data = as_option (f ''data'')\<rparr>)))"

text \<open>\<open>Response\<close> refuses fields it does not know.\<close>

fun known_fields :: "string list \<Rightarrow> json \<Rightarrow> bool" where
  "known_fields names (JObj kvs) = list_all (\<lambda>kv. fst kv \<in> set names) kvs"
| "known_fields names _ = True"

definition response_from_value :: "json \<Rightarrow> rpc_response option" where
  "response_from_value v = (if \<not> known_fields [''jsonrpc'', ''id'', ''result'', ''error''] v then None
     else Option.bind (struct_fields [''jsonrpc'', ''id'', ''result'', ''error''] v) (\<lambda>f.
       Option.bind (Option.bind (f ''jsonrpc'') as_string) (\<lambda>ver.
       Option.bind (case as_option (f ''error'') of None \<Rightarrow> Some None | Some e \<Rightarrow> map_option Some (error_from_value e)) (\<lambda>err.
         Some \<lparr>rs_jsonrpc = ver, rs_id = as_option (f ''id''), rs_result = as_option (f ''result''), rs_error = err\<rparr>))))"

definition notification_from_value :: "json \<Rightarrow> notification option" where
  "notification_from_value v = Option.bind (struct_fields [''jsonrpc'', ''method'', ''params''] v) (\<lambda>f.
     Option.bind (Option.bind (f ''jsonrpc'') as_string) (\<lambda>ver.
     Option.bind (Option.bind (f ''method'') as_string) (\<lambda>m.
       Some \<lparr>nt_jsonrpc = ver, nt_method = m, nt_params = as_option (f ''params'')\<rparr>)))"

definition notification_result_from_value :: "json \<Rightarrow> notification_result option" where
  "notification_result_from_value v = Option.bind (struct_fields [''result'', ''subscription''] v) (\<lambda>f.
     Option.bind (Option.bind (f ''subscription'') as_u32) (\<lambda>i.
       Some \<lparr>nr_result = as_option (f ''result''), nr_subscription = i\<rparr>))"

section \<open>Errors\<close>

datatype rpc_fault =
    RpcIO io_error
  | CallError i32 string
  | SubscribeError i32 string
  | RpcEncode string
  | RpcDecode string
  | RpcInvalidMsg string
  | InvalidState string
  | RpcBufferFull string
  | ParseJSON
  | UnsupportedProtocol string
  | TLSConfigRequired
  | QUICConfigRequired
  | HttpError string
  | CloseConnection string
  | SubscriptionNotFound string
  | SubscriptionBufferFull
  | SubscriptionClosed
  | SubscriptionDuplicated string
  | ClientDisconnected
  | RpcChannelRecv
  | RpcChannelSend string
  | RpcWebSocket string
  | General string
  | RpcCore core_error
  | RpcNet net_error

datatype rpc_error = CustomError i32 string | InvalidParams string | InvalidRequest string | RpcParseError string | InternalError

definition response_default :: rpc_response where
  "response_default = \<lparr>rs_jsonrpc = JSONRPC_VERSION, rs_id = None, rs_result = None, rs_error = None\<rparr>"

fun error_of :: "rpc_error \<Rightarrow> json option \<Rightarrow> error_object" where
  "error_of (RpcParseError msg) data = \<lparr>er_code = PARSE_ERROR_CODE, er_message = msg, er_data = data\<rparr>"
| "error_of (InvalidParams msg) data = \<lparr>er_code = INVALID_PARAMS_ERROR_CODE, er_message = msg, er_data = data\<rparr>"
| "error_of (InvalidRequest msg) data = \<lparr>er_code = INVALID_REQUEST_ERROR_CODE, er_message = msg, er_data = data\<rparr>"
| "error_of (CustomError code msg) data = \<lparr>er_code = code, er_message = msg, er_data = data\<rparr>"
| "error_of InternalError data = \<lparr>er_code = INTERNAL_ERROR_CODE, er_message = ''Internal error'', er_data = data\<rparr>"

definition to_response :: "rpc_error \<Rightarrow> json option \<Rightarrow> json option \<Rightarrow> rpc_response" where
  "to_response e i data = \<lparr>rs_jsonrpc = JSONRPC_VERSION, rs_id = i, rs_result = None, rs_error = Some (error_of e data)\<rparr>"

section \<open>Codec\<close>

text \<open>The text form: \<open>to_string\<close>, the first step of the stream deserialiser and \<open>from_str\<close>.\<close>

datatype json_item = JsonItem nat json | JsonEof | JsonBad string | JsonNone

record json_api =
  j_to_string :: "json \<Rightarrow> string + bytes"
  j_next :: "bytes \<Rightarrow> json_item"
  j_from_str :: "bytes \<Rightarrow> string + json"

definition DEFAULT_MAX_BUFFER_SIZE :: nat where "DEFAULT_MAX_BUFFER_SIZE = 4 * 1024 * 1024"

definition json_too_large :: "nat \<Rightarrow> nat \<Rightarrow> net_error" where
  "json_too_large n max_size = BufferFull (''Buffer size '' @ show_nat n @ '' exceeds maximum '' @ show_nat max_size)"

definition json_encode :: "json_api \<Rightarrow> nat \<Rightarrow> json \<Rightarrow> buffer \<Rightarrow> net_error + nat \<times> buffer" where
  "json_encode J max_size src dst = res_bind (map_err (\<lambda>e. IO (IoMsg Other e)) (j_to_string J src)) (\<lambda>buf.
     if max_size < length buf then Inl (json_too_large (length buf) max_size)
     else Inr (length buf, buffer_extend dst buf))"

definition json_decode :: "json_api \<Rightarrow> nat \<Rightarrow> buffer \<Rightarrow> net_error + (nat \<times> json) option" where
  "json_decode J max_size src =
     (if max_size < length src then Inl (json_too_large (length src) max_size)
      else (case j_next J src of
          JsonItem n item \<Rightarrow> Inr (Some (n, item))
        | JsonEof \<Rightarrow> Inr None
        | JsonBad e \<Rightarrow> Inl (IO (IoMsg Other e))
        | JsonNone \<Rightarrow> Inr None))"

datatype ws_message = WsText bytes | WsOther

definition ws_encode :: "json_api \<Rightarrow> json \<Rightarrow> net_error + nat \<times> ws_message" where
  "ws_encode J src = res_bind (map_err (\<lambda>e. IO (IoMsg Other e)) (j_to_string J src)) (\<lambda>text. Inr (length text, WsText text))"

definition ws_decode :: "json_api \<Rightarrow> nat \<Rightarrow> ws_message \<Rightarrow> net_error + (nat \<times> json) option" where
  "ws_decode J max_size src = (case src of
      WsText text \<Rightarrow> (if max_size < length text then Inl (json_too_large (length text) max_size)
        else res_bind (map_err (\<lambda>e. IO (IoMsg Other e)) (j_from_str J text)) (\<lambda>val. Inr (Some (length text, val))))
    | WsOther \<Rightarrow> Inr None)"

definition encode_msg :: "json_api \<Rightarrow> nat \<Rightarrow> json \<Rightarrow> rpc_fault + bytes" where
  "encode_msg J max_size msg = res_bind (map_err RpcNet (json_encode J max_size msg [])) (\<lambda>(_, buf). Inr buf)"

definition decode_body :: "json_api \<Rightarrow> nat \<Rightarrow> bytes \<Rightarrow> rpc_fault + json" where
  "decode_body J max_size body = res_bind (map_err RpcNet (json_decode J max_size body)) (\<lambda>r. case r of
      Some (_, msg) \<Rightarrow> Inr msg
    | None \<Rightarrow> Inl (RpcInvalidMsg ''Incomplete message''))"

section \<open>Conversions are inverse up to null\<close>

lemma unat_ucast_u64: "unat (ucast (n :: u32) :: u64) = unat n"
proof -
  have "unat n < 2 ^ 64" using unsigned_less [of n, where ?'a = nat] by simp
  then show ?thesis by (simp add: unsigned_ucast_eq take_bit_nat_eq_self)
qed

lemma ucast_ucast_u32 [simp]: "(ucast (ucast (n :: u32) :: u64) :: u32) = n"
  by (rule bit_word_eqI) (simp add: bit_simps)

lemma as_u32_json [simp]: "as_u32 (json_u32 n) = Some n"
proof -
  have "unat n < 2 ^ 32" using unsigned_less [of n, where ?'a = nat] by simp
  then show ?thesis by (simp add: json_u32_def unat_ucast_u64)
qed

lemma as_i32_json [simp]: "as_i32 (json_i32 c) = Some c"
proof (cases "0 \<le> sint c")
  case True
  have up: "sint c < 2 ^ 31" using sint_lt [of c] by simp
  then have "uint c = sint c"
    using True by (simp add: uint_sint take_bit_int_eq_self)
  then have "unat c < 2 ^ 31" using up by (simp add: nat_uint_eq [symmetric])
  then show ?thesis using True by (simp add: json_i32_def unat_ucast_u64)
next
  case False
  have lo: "- (2 ^ 31) \<le> sint c" and up: "sint c < 2 ^ 31" using sint_ge [of c] sint_lt [of c] by simp_all
  then have "sint (scast c :: u64) = sint c"
    by (simp add: signed_scast_eq signed_take_bit_int_eq_self)
  moreover have "(ucast (scast c :: u64) :: i32) = c"
    by (rule bit_word_eqI) (simp add: bit_simps)
  ultimately show ?thesis using False lo by (simp add: json_i32_def)
qed

lemma obj_field_simps [simp]:
  "obj_field k None = []" "obj_field k (Some v) = [(k, v)]"
  by (simp_all add: obj_field_def)

lemma map_of_obj_field [simp]:
  "map_of (obj_field k v) x = (if x = k then v else None)"
  "(m ++ map_of (obj_field k v)) x = (if x = k \<and> v \<noteq> None then v else m x)"
  by (cases v; simp add: map_add_def)+

lemma list_all_obj_field [simp]: "list_all P (obj_field k v) \<longleftrightarrow> (\<forall>x. v = Some x \<longrightarrow> P (k, x))"
  by (cases v) simp_all

lemma error_to_value_not_null [simp]: "as_option (Some (error_to_value e)) = Some (error_to_value e)"
  by (simp add: error_to_value_def)

definition error_norm :: "error_object \<Rightarrow> error_object" where
  "error_norm e = e\<lparr>er_data := as_option (er_data e)\<rparr>"

lemma error_roundtrip: "error_from_value (error_to_value e) = Some (error_norm e)"
  by (simp add: error_from_value_def error_to_value_def error_norm_def)

text \<open>Every message read back from the value it was written to is the message itself, except that a null in an optional
  field comes back as an absent field.  In particular a response whose result is null arrives as a response without a result.\<close>

lemma message_roundtrip:
  "request_from_value (request_to_value q) = Some (q\<lparr>rq_params := as_option (rq_params q)\<rparr>) \<and>
   response_from_value (response_to_value r) =
     Some (r\<lparr>rs_id := as_option (rs_id r), rs_result := as_option (rs_result r), rs_error := map_option error_norm (rs_error r)\<rparr>) \<and>
   notification_from_value (notification_to_value n) = Some (n\<lparr>nt_params := as_option (nt_params n)\<rparr>) \<and>
   notification_result_from_value (notification_result_to_value p) = Some (p\<lparr>nr_result := as_option (nr_result p)\<rparr>)"
proof (intro conjI)
  show "request_from_value (request_to_value q) = Some (q\<lparr>rq_params := as_option (rq_params q)\<rparr>)"
    by (simp add: request_from_value_def request_to_value_def)
  show "response_from_value (response_to_value r) =
     Some (r\<lparr>rs_id := as_option (rs_id r), rs_result := as_option (rs_result r), rs_error := map_option error_norm (rs_error r)\<rparr>)"
    by (cases "rs_error r") (simp_all add: response_from_value_def response_to_value_def error_roundtrip)
  show "notification_from_value (notification_to_value n) = Some (n\<lparr>nt_params := as_option (nt_params n)\<rparr>)"
    by (simp add: notification_from_value_def notification_to_value_def)
  show "notification_result_from_value (notification_result_to_value p) = Some (p\<lparr>nr_result := as_option (nr_result p)\<rparr>)"
    by (cases "nr_result p") (simp_all add: notification_result_from_value_def notification_result_to_value_def)
qed

section \<open>Messages over a byte stream\<close>

text \<open>What the codec relies on for a value: its text is not empty, is recognised at the front of a buffer whatever follows, and every
  proper prefix of it is incomplete.  Objects, which all messages are, are delimited in this way.\<close>

definition json_law :: "json_api \<Rightarrow> json \<Rightarrow> bool" where
  "json_law J v \<longleftrightarrow> (\<exists>bs. j_to_string J v = Inr bs \<and> bs \<noteq> [] \<and> (\<forall>rest. j_next J (bs @ rest) = JsonItem (length bs) v) \<and>
     (\<forall>k < length bs. j_next J (take k bs) \<in> {JsonEof, JsonNone}) \<and> j_from_str J bs = Inr v)"

definition json_text :: "json_api \<Rightarrow> json \<Rightarrow> bytes" where
  "json_text J v = (case j_to_string J v of Inr bs \<Rightarrow> bs | Inl _ \<Rightarrow> [])"

text \<open>Decoding without the limit on the buffer.\<close>

definition json_decode_any :: "json_api \<Rightarrow> buffer \<Rightarrow> net_error + (nat \<times> json) option" where
  "json_decode_any J src = (case j_next J src of
      JsonItem n item \<Rightarrow> Inr (Some (n, item))
    | JsonEof \<Rightarrow> Inr None
    | JsonBad e \<Rightarrow> Inl (IO (IoMsg Other e))
    | JsonNone \<Rightarrow> Inr None)"

lemma json_lawD:
  assumes "json_law J v"
  shows "j_to_string J v = Inr (json_text J v)" "json_text J v \<noteq> []" "j_next J (json_text J v @ rest) = JsonItem (length (json_text J v)) v"
    "k < length (json_text J v) \<Longrightarrow> j_next J (take k (json_text J v)) \<in> {JsonEof, JsonNone}" "j_from_str J (json_text J v) = Inr v"
  using assms unfolding json_law_def json_text_def by auto

lemma json_framed:
  "framed_codec (json_encode J max_size) (json_decode_any J) (\<lambda>v. json_law J v \<and> length (json_text J v) \<le> max_size) (json_text J) (\<lambda>v. v)"
proof
  show "\<exists>n. json_encode J max_size m dst = Inr (n, dst @ json_text J m)" if "json_law J m \<and> length (json_text J m) \<le> max_size" for m dst
    using that json_lawD(1) [of J m] by (simp add: json_encode_def buffer_extend_def map_err_def)
  show "json_decode_any J (json_text J m @ rest) = Inr (Some (length (json_text J m), m))" if "json_law J m \<and> length (json_text J m) \<le> max_size" for m rest
    using that json_lawD(3) [of J m] by (simp add: json_decode_any_def)
  show "json_decode_any J (take k (json_text J m)) = Inr None" if "json_law J m \<and> length (json_text J m) \<le> max_size" "k < length (json_text J m)" for m k
    using that json_lawD(4) [of J m k] by (auto simp: json_decode_any_def)
qed

lemma json_decode_within: "length buf \<le> max_size \<Longrightarrow> decode_buffered (json_decode J max_size) into buf = decode_buffered (json_decode_any J) into buf"
  by (simp add: decode_buffered_def json_decode_def json_decode_any_def)

lemma json_recv_loop_within:
  "length buf + length (concat cs) \<le> max_size \<Longrightarrow>
   recv_loop (json_decode J max_size) into (map ReadOk cs) buf = recv_loop (json_decode_any J) into (map ReadOk cs) buf"
proof (induction cs arbitrary: buf)
  case (Cons c cs)
  then show ?case
    by (auto simp: Let_def buffer_extend_def json_decode_within split: option.splits)
qed simp

lemma json_recv_within:
  "length buf + length (concat cs) \<le> max_size \<Longrightarrow>
   recv_msg (json_decode J max_size) into (map ReadOk cs) buf = recv_msg (json_decode_any J) into (map ReadOk cs) buf"
  using json_recv_loop_within [of buf cs max_size J into] by (simp add: recv_msg_def json_decode_within split: option.split)

lemma json_recv_many:
  assumes "list_all (json_law J) vs" "list_all (\<lambda>v. length (json_text J v) \<le> max_size) vs" "buf @ concat cs = concat (map (json_text J) vs)" "[] \<notin> set cs"
    and "length buf + length (concat cs) \<le> max_size"
  shows "recv_many (json_decode J max_size) into (length vs) (map ReadOk cs) buf = (map Got vs, [], [])"
  using assms
proof (induction vs arbitrary: buf cs)
  case Nil
  then have "cs = []" by (cases cs) auto
  with Nil show ?case by simp
next
  case (Cons v vs)
  note first = framed_codec.recv_msg_first [OF json_framed [of J max_size], of v buf cs "concat (map (json_text J) vs)" into "[]"]
  obtain b1 c1 where 1: "recv_msg (json_decode_any J) into (map ReadOk cs) buf = (Got v, b1, map ReadOk c1)"
      "b1 @ concat c1 = concat (map (json_text J) vs)" "set c1 \<subseteq> set cs"
    using first Cons.prems by auto
  have "length b1 + length (concat c1) \<le> length buf + length (concat cs)"
    using arg_cong [OF 1(2), of length] arg_cong [OF Cons.prems(3), of length] by simp
  then have "recv_many (json_decode J max_size) into (length vs) (map ReadOk c1) b1 = (map Got vs, [], [])"
    using Cons.prems 1 by (intro Cons.IH) auto
  then show ?case using 1(1) json_recv_within [OF Cons.prems(5)] by simp
qed

text \<open>Values over a byte stream with the JSON codec.  All values written are received in order and unchanged however the stream splits
  the bytes, if together they fit the maximal message size.  The limit is on what is buffered and not on a message, so
  when more than that arrives in one read the first receive fails, even though every single message is within the limit.\<close>

lemma json_channel:
  assumes "list_all (json_law J) vs" "list_all (\<lambda>v. length (json_text J v) \<le> max_size) vs"
    and "list_all (\<lambda>(v, ws). list_all accepts ws \<and> length (json_text J v) \<le> length ws) (zip vs wss)" "length wss = length vs"
    and "concat cs = concat (map (json_text J) vs)" "[] \<notin> set cs"
  shows "send_many (json_encode J max_size) into (zip vs wss) [] [] = (replicate (length vs) Sent, [], concat (map (json_text J) vs)) \<and>
    (if length (concat cs) \<le> max_size
     then recv_many (json_decode J max_size) into (length vs) (map ReadOk cs) [] = (map Got vs, [], [])
     else recv_msg (json_decode J max_size) into [ReadOk (concat cs)] [] = (RecvErr (into (json_too_large (length (concat cs)) max_size)), concat cs, []))"
proof (intro conjI)
  have "list_all (\<lambda>(m, ws). (json_law J m \<and> length (json_text J m) \<le> max_size) \<and> list_all accepts ws \<and> length (json_text J m) \<le> length ws) (zip vs wss)"
    using assms(1-3) by (fastforce simp: list_all_iff dest: set_zip_leftD)
  from framed_codec.send_many_frames [OF json_framed this] assms(4)
  show "send_many (json_encode J max_size) into (zip vs wss) [] [] = (replicate (length vs) Sent, [], concat (map (json_text J) vs))"
    by (simp flip: map_map)
  have "vs = []" if "concat cs = []" using that assms(1,5) json_lawD(2) by (cases vs) auto
  moreover have "decode_buffered (json_decode J max_size) into [] = None \<or> vs = []"
    using json_lawD(2) [of J "hd vs"] json_lawD(4) [of J "hd vs" 0] assms(1) by (cases vs) (auto simp: decode_buffered_def json_decode_def)
  ultimately show "if length (concat cs) \<le> max_size
     then recv_many (json_decode J max_size) into (length vs) (map ReadOk cs) [] = (map Got vs, [], [])
     else recv_msg (json_decode J max_size) into [ReadOk (concat cs)] [] = (RecvErr (into (json_too_large (length (concat cs)) max_size)), concat cs, [])"
    using json_recv_many [OF assms(1,2), of "[]" cs into] assms(5,6)
    by (auto simp: recv_msg_def buffer_extend_def decode_buffered_def json_decode_def Let_def)
qed

text \<open>Two empty objects, with a reader and a writer for them.\<close>

definition ex_json :: json_api where
  "ex_json = \<lparr>j_to_string = (\<lambda>_. Inr [123, 125]),
     j_next = (\<lambda>bs. if take 2 bs = [123, 125] then JsonItem 2 (JObj []) else if bs = [] then JsonNone else JsonEof), j_from_str = (\<lambda>_. Inr (JObj []))\<rparr>"

lemma ex_json_law: "json_law ex_json (JObj [])" "json_text ex_json (JObj []) = [123, 125]"
  by (auto simp: json_law_def json_text_def ex_json_def less_Suc_eq numeral_2_eq_2)

lemma json_channel_witness:
  "recv_many (json_decode ex_json 4) id 2 [ReadOk [123], ReadOk [125, 123, 125]] [] = ([Got (JObj []), Got (JObj [])], [], []) \<and>
   recv_msg (json_decode ex_json 3) id [ReadOk [123, 125, 123, 125]] [] = (RecvErr (json_too_large 4 3), [123, 125, 123, 125], [])"
  using json_channel [of ex_json "[JObj [], JObj []]" 4 "[[WriteAccept 2, WriteAccept 2], [WriteAccept 2, WriteAccept 2]]" "[[123], [125, 123, 125]]" id]
    json_channel [of ex_json "[JObj [], JObj []]" 3 "[[WriteAccept 2, WriteAccept 2], [WriteAccept 2, WriteAccept 2]]" "[[123, 125, 123, 125]]" id]
  by (simp add: ex_json_law eval_nat_numeral)

end
