(* ===== verification/Jsonrpc_Server.thy ===== *)
theory Jsonrpc_Server
  imports Jsonrpc_Message Core_Queue
begin

text \<open>
  The JSON-RPC server: request checks and dispatch (\<open>jsonrpc/src/server/dispatch.rs\<close>), the channel of a connection and its
  subscriptions (\<open>channel.rs\<close>), the choice of the backend, the accept loop and the tasks of a message connection
  (\<open>mod.rs\<close>, \<open>builder.rs\<close>).  Services are the user's code: functions from parameters to results, which may use the channel.
\<close>

section \<open>Channel and subscriptions\<close>

record new_notification =
  nn_sub_id :: subscription_id
  nn_result :: json
  nn_method :: string

text \<open>The sending end of the notification queue, with the queue itself, and the ids subscribed.\<close>

record channel =
  cn_queue :: "new_notification list"
  cn_closed :: bool
  cn_subs :: "subscription_id set"
  cn_peer :: "endpoint option"

definition CHANNEL_SUBSCRIPTION_BUFFER_SIZE :: nat where "CHANNEL_SUBSCRIPTION_BUFFER_SIZE = 100"

definition channel_new :: "endpoint option \<Rightarrow> channel" where
  "channel_new peer = \<lparr>cn_queue = [], cn_closed = False, cn_subs = {}, cn_peer = peer\<rparr>"

definition channel_close :: "channel \<Rightarrow> channel" where
  "channel_close c = c\<lparr>cn_closed := True\<rparr>"

record server_subscription =
  ss_id :: subscription_id
  ss_method :: string

definition new_subscription :: "u32 \<Rightarrow> string \<Rightarrow> subscription_id option \<Rightarrow> channel \<Rightarrow> (rpc_fault + server_subscription) \<times> channel" where
  "new_subscription rnd m sub_id c = (let i = (case sub_id of Some i \<Rightarrow> i | None \<Rightarrow> rnd) in
     if i \<in> cn_subs c then (Inl (SubscriptionDuplicated (show_nat (unat i))), c)
     else (Inr \<lparr>ss_id = i, ss_method = m\<rparr>, c\<lparr>cn_subs := insert i (cn_subs c)\<rparr>))"

definition remove_subscription :: "subscription_id \<Rightarrow> channel \<Rightarrow> (rpc_fault + unit) \<times> channel" where
  "remove_subscription i c = (if i \<notin> cn_subs c then (Inl (SubscriptionNotFound (show_nat (unat i))), c)
     else (Inr (), c\<lparr>cn_subs := cn_subs c - {i}\<rparr>))"

text \<open>\<open>still_subscribed\<close> and \<open>notify\<close>; \<^term>\<open>None\<close> is a channel that was dropped.\<close>

definition still_subscribed :: "server_subscription \<Rightarrow> channel option \<Rightarrow> bool" where
  "still_subscribed sub parent = (case parent of Some c \<Rightarrow> ss_id sub \<in> cn_subs c | None \<Rightarrow> False)"

definition sub_notify :: "server_subscription \<Rightarrow> json \<Rightarrow> channel option \<Rightarrow> (rpc_fault + unit) poll \<times> channel option" where
  "sub_notify sub res parent = (if \<not> still_subscribed sub parent then (Ready (Inl (SubscriptionNotFound (show_nat (unat (ss_id sub))))), parent)
     else (case parent of
         None \<Rightarrow> (Pending, parent)
       | Some c \<Rightarrow> if cn_closed c then (Ready (Inl (RpcChannelSend ''sending into a closed channel'')), parent)
           else if CHANNEL_SUBSCRIPTION_BUFFER_SIZE \<le> length (cn_queue c) then (Pending, parent)
           else (Ready (Inr ()), Some (c\<lparr>cn_queue := cn_queue c @ [\<lparr>nn_sub_id = ss_id sub, nn_result = res, nn_method = ss_method sub\<rparr>]\<rparr>))))"

definition default_notification_encoder :: "new_notification \<Rightarrow> notification" where
  "default_notification_encoder nt = \<lparr>nt_jsonrpc = JSONRPC_VERSION, nt_method = nn_method nt,
     nt_params = Some (notification_result_to_value \<lparr>nr_result = Some (nn_result nt), nr_subscription = nn_sub_id nt\<rparr>)\<rparr>"

section \<open>Dispatch\<close>

record new_request =
  nq_srvc_name :: string
  nq_method_name :: string
  nq_msg :: rpc_request

datatype sanity_check_result = NewReq new_request | ErrRes rpc_response

fun split_char :: "char \<Rightarrow> string \<Rightarrow> string list" where
  "split_char c [] = [[]]"
| "split_char c (x # s) = (if x = c then [] # split_char c s
     else (case split_char c s of w # ws \<Rightarrow> (x # w) # ws | [] \<Rightarrow> [[x]]))"

definition err_res :: "json option \<Rightarrow> i32 \<Rightarrow> string \<Rightarrow> rpc_response" where
  "err_res i code msg = response_default\<lparr>rs_error := Some \<lparr>er_code = code, er_message = msg, er_data = None\<rparr>, rs_id := i\<rparr>"

definition sanity_check :: "json \<Rightarrow> sanity_check_result" where
  "sanity_check v = (case request_from_value v of
      None \<Rightarrow> ErrRes (err_res None PARSE_ERROR_CODE ''Failed to parse'')
    | Some m \<Rightarrow>
        if rq_jsonrpc m \<noteq> JSONRPC_VERSION then ErrRes (err_res (Some (rq_id m)) INVALID_REQUEST_ERROR_CODE ''Unsupported jsonrpc version'')
        else (let srvc_method = split_char CHR ''.'' (rq_method m) in
          if length srvc_method < 2 then ErrRes (err_res (Some (rq_id m)) INVALID_REQUEST_ERROR_CODE ''Invalid request'')
          else NewReq \<lparr>nq_srvc_name = hd srvc_method, nq_method_name = join_with ''.'' (tl srvc_method), nq_msg = m\<rparr>))"

type_synonym rpc_method = "json \<Rightarrow> rpc_error + json"
type_synonym pubsub_method = "channel \<Rightarrow> string \<Rightarrow> json \<Rightarrow> (rpc_error + json) \<times> channel"

record rpc_services =
  sv_services :: "string \<rightharpoonup> (string \<rightharpoonup> rpc_method)"
  sv_pubsub :: "string \<rightharpoonup> (string \<rightharpoonup> pubsub_method)"

definition builder_service :: "string \<Rightarrow> (string \<rightharpoonup> rpc_method) \<Rightarrow> rpc_services \<Rightarrow> rpc_services" where
  "builder_service name s S = S\<lparr>sv_services := (sv_services S)(name \<mapsto> s)\<rparr>"

definition builder_pubsub_service :: "string \<Rightarrow> (string \<rightharpoonup> pubsub_method) \<Rightarrow> rpc_services \<Rightarrow> rpc_services" where
  "builder_pubsub_service name s S = S\<lparr>sv_pubsub := (sv_pubsub S)(name \<mapsto> s)\<rparr>"

datatype handler = HPubsub pubsub_method | HRpc rpc_method | HNone

definition resolve_handler :: "rpc_services \<Rightarrow> string \<Rightarrow> string \<Rightarrow> bool \<Rightarrow> handler" where
  "resolve_handler S srvc meth allow_pubsub =
     (case (if allow_pubsub then Option.bind (sv_pubsub S srvc) (\<lambda>s. s meth) else None) of
        Some m \<Rightarrow> HPubsub m
      | None \<Rightarrow> (case Option.bind (sv_services S srvc) (\<lambda>s. s meth) of
          Some m \<Rightarrow> HRpc m
        | None \<Rightarrow> HNone))"

definition respond :: "json \<Rightarrow> rpc_error + json \<Rightarrow> rpc_response" where
  "respond i r = (case r of
      Inr res \<Rightarrow> response_default\<lparr>rs_result := Some res, rs_id := Some i\<rparr>
    | Inl err \<Rightarrow> to_response err (Some i) None)"

definition method_not_found :: "json option \<Rightarrow> rpc_response" where
  "method_not_found i = err_res i METHOD_NOT_FOUND_ERROR_CODE ''Method not found''"

text \<open>With a channel (message connections) and without (HTTP/1 and HTTP/2).\<close>

definition handle_request :: "rpc_services \<Rightarrow> channel option \<Rightarrow> json \<Rightarrow> rpc_response \<times> channel option" where
  "handle_request S ch msg = (case sanity_check msg of
      ErrRes res \<Rightarrow> (res, ch)
    | NewReq req \<Rightarrow>
        (let params = (case rq_params (nq_msg req) of Some p \<Rightarrow> p | None \<Rightarrow> JNull)
         in case resolve_handler S (nq_srvc_name req) (nq_method_name req) (ch \<noteq> None) of
            HPubsub m \<Rightarrow> (case m (the ch) (rq_method (nq_msg req)) params of (r, c) \<Rightarrow> (respond (rq_id (nq_msg req)) r, Some c))
          | HRpc m \<Rightarrow> (respond (rq_id (nq_msg req)) (m params), ch)
          | HNone \<Rightarrow> (method_not_found (Some (rq_id (nq_msg req))), ch)))"

section \<open>Backends and the accept loop\<close>

record server_config =
  sc_endpoint :: endpoint
  sc_has_tls :: bool
  sc_has_quic :: bool

datatype server_backend = StreamBackend "bool option" | WsBackend bool | QuicBackend | HttpBackend bool

text \<open>\<open>bound\<close> is the outcome of binding the listener; the flags say whether TLS, or HTTP/3, is used.\<close>

definition create_backend :: "net_error + unit \<Rightarrow> server_config \<Rightarrow> rpc_fault + server_backend" where
  "create_backend bound c = (let listen_on = (\<lambda>b. res_bind (map_err RpcNet bound) (\<lambda>_. Inr b)) in
     case sc_endpoint c of
       Http _ \<Rightarrow> listen_on (HttpBackend (sc_has_quic c))
     | Quic _ _ \<Rightarrow> (if sc_has_quic c then listen_on QuicBackend else Inl QUICConfigRequired)
     | Tcp _ _ \<Rightarrow> listen_on (StreamBackend (Some False))
     | Tls _ _ \<Rightarrow> (if sc_has_tls c then listen_on (StreamBackend (Some True)) else Inl TLSConfigRequired)
     | Ws _ \<Rightarrow> listen_on (WsBackend False)
     | Wss _ \<Rightarrow> (if sc_has_tls c then listen_on (WsBackend True) else Inl TLSConfigRequired)
     | Unix _ \<Rightarrow> listen_on (StreamBackend None)
     | ep \<Rightarrow> Inl (UnsupportedProtocol (endpoint_display ep)))"

text \<open>The accept loop of stream and QUIC backends on a list of outcomes of \<open>accept\<close>: it hands the connection to a task, or sleeps.\<close>

datatype 'c accept_act = SpawnConn 'c | SleepFor nat

definition accept_backoff :: backoff where
  "accept_backoff = backoff_new 10 1000"

fun accept_loop :: "(net_error + 'c) list \<Rightarrow> backoff \<Rightarrow> 'c accept_act list option" where
  "accept_loop [] b = Some []"
| "accept_loop (Inr c # rs) b = map_option (Cons (SpawnConn c)) (accept_loop rs (backoff_reset b))"
| "accept_loop (Inl e # rs) b = (case backoff_sleep b of
      None \<Rightarrow> None
    | Some (d, b') \<Rightarrow> map_option (Cons (SleepFor d)) (accept_loop rs b'))"

section \<open>A message connection\<close>

definition MAX_CONCURRENT_REQUESTS :: nat where "MAX_CONCURRENT_REQUESTS = 64"
definition RESPONSE_QUEUE_SIZE :: nat where "RESPONSE_QUEUE_SIZE = 256"

datatype reader_stage = RWaitPermit | RReading | RDone

text \<open>What goes to the wire: a response, with the number of the request it answers, or a notification.\<close>

datatype sent_msg = SentResponse nat json | SentNotification json

text \<open>Requests are numbered in the order they arrive; \<open>rc_recv\<close> holds them.  A request is handled (\<open>rc_tasks\<close>),
  its response waits for the queue (\<open>rc_pushing\<close>), is queued, and goes to the wire, is dropped by its task or lost
  with the writer.\<close>

record rpc_conn =
  rc_reader :: reader_stage
  rc_permits :: nat
  rc_recv :: "json list"
  rc_tasks :: "nat list"
  rc_pushing :: "(nat \<times> json) list"
  rc_queue :: "(nat \<times> json) list"
  rc_chan :: channel
  rc_writer_done :: bool
  rc_wire :: "sent_msg list"
  rc_dropped :: "nat list"

definition conn_new :: "endpoint option \<Rightarrow> rpc_conn" where
  "conn_new peer = \<lparr>rc_reader = RWaitPermit, rc_permits = MAX_CONCURRENT_REQUESTS, rc_recv = [], rc_tasks = [], rc_pushing = [],
     rc_queue = [], rc_chan = channel_new peer, rc_writer_done = False, rc_wire = [], rc_dropped = []\<rparr>"

text \<open>The reader: a permit first, then a message, an error, or the end of the writer.\<close>

definition reader_acquire :: "rpc_conn \<Rightarrow> rpc_conn option" where
  "reader_acquire c = (if rc_reader c = RWaitPermit \<and> 0 < rc_permits c then Some (c\<lparr>rc_reader := RReading, rc_permits := rc_permits c - 1\<rparr>) else None)"

definition reader_end :: "rpc_conn \<Rightarrow> rpc_conn" where
  "reader_end c = c\<lparr>rc_reader := RDone, rc_permits := rc_permits c + 1, rc_chan := channel_close (rc_chan c)\<rparr>"

definition stream_reader :: "rpc_fault + json \<Rightarrow> rpc_conn \<Rightarrow> rpc_conn option" where
  "stream_reader r c = (if rc_reader c \<noteq> RReading then None
     else if rc_writer_done c then Some (reader_end c)
     else (case r of
         Inl _ \<Rightarrow> Some (reader_end c)
       | Inr msg \<Rightarrow> Some (c\<lparr>rc_reader := RWaitPermit, rc_recv := rc_recv c @ [msg], rc_tasks := rc_tasks c @ [length (rc_recv c)]\<rparr>)))"

text \<open>The task of a request: it handles the request, then pushes the response or gives up when the writer has stopped.\<close>

definition request_handle :: "rpc_services \<Rightarrow> nat \<Rightarrow> rpc_conn \<Rightarrow> rpc_conn option" where
  "request_handle S n c = (if n \<notin> set (rc_tasks c) then None
     else (case handle_request S (Some (rc_chan c)) (rc_recv c ! n) of (res, ch) \<Rightarrow>
       Some (c\<lparr>rc_tasks := remove1 n (rc_tasks c), rc_pushing := rc_pushing c @ [(n, response_to_value res)], rc_chan := the ch\<rparr>)))"

definition request_push :: "nat \<times> json \<Rightarrow> rpc_conn \<Rightarrow> rpc_conn option" where
  "request_push nr c = (if nr \<notin> set (rc_pushing c) then None
     else (case aq_push RESPONSE_QUEUE_SIZE nr (rc_queue c) of
         Some q \<Rightarrow> Some (c\<lparr>rc_pushing := remove1 nr (rc_pushing c), rc_queue := q, rc_permits := rc_permits c + 1\<rparr>)
       | None \<Rightarrow> None))"

definition request_drop :: "nat \<times> json \<Rightarrow> rpc_conn \<Rightarrow> rpc_conn option" where
  "request_drop nr c = (if nr \<notin> set (rc_pushing c) \<or> \<not> rc_writer_done c then None
     else Some (c\<lparr>rc_pushing := remove1 nr (rc_pushing c), rc_dropped := rc_dropped c @ [fst nr], rc_permits := rc_permits c + 1\<rparr>))"

text \<open>The writer: \<open>ok\<close> tells whether \<open>send_msg\<close> succeeds; when it fails, or when the channel is closed and drained, the writer stops.\<close>

definition writer_end :: "rpc_conn \<Rightarrow> rpc_conn" where
  "writer_end c = c\<lparr>rc_writer_done := True, rc_chan := channel_close (rc_chan c)\<rparr>"

definition writer_response :: "bool \<Rightarrow> rpc_conn \<Rightarrow> rpc_conn option" where
  "writer_response ok c = (if rc_writer_done c then None
     else (case aq_recv (rc_queue c) of
         None \<Rightarrow> None
       | Some ((n, r), q) \<Rightarrow> Some (if ok then c\<lparr>rc_queue := q, rc_wire := rc_wire c @ [SentResponse n r]\<rparr>
           else writer_end (c\<lparr>rc_queue := q, rc_dropped := rc_dropped c @ [n]\<rparr>))))"

definition writer_notification :: "(new_notification \<Rightarrow> notification) \<Rightarrow> bool \<Rightarrow> rpc_conn \<Rightarrow> rpc_conn option" where
  "writer_notification encoder ok c = (if rc_writer_done c then None
     else (case cn_queue (rc_chan c) of
         nt # nts \<Rightarrow> (let c1 = c\<lparr>rc_chan := (rc_chan c)\<lparr>cn_queue := nts\<rparr>\<rparr>
           in Some (if ok then c1\<lparr>rc_wire := rc_wire c @ [SentNotification (notification_to_value (encoder nt))]\<rparr> else writer_end c1))
       | [] \<Rightarrow> if cn_closed (rc_chan c) then Some (writer_end c) else None))"

text \<open>All interleavings of the reader, the request tasks, the writer and the user's tasks that notify subscriptions.  The queue and the channel are polled in
  this order by the writer, but the queue is behind a lock, so either may be served first.\<close>

inductive conn_step :: "rpc_services \<Rightarrow> (new_notification \<Rightarrow> notification) \<Rightarrow> rpc_conn \<Rightarrow> rpc_conn \<Rightarrow> bool" for S encoder where
  cs_acquire: "reader_acquire c = Some c' \<Longrightarrow> conn_step S encoder c c'"
| cs_read: "stream_reader r c = Some c' \<Longrightarrow> conn_step S encoder c c'"
| cs_handle: "request_handle S n c = Some c' \<Longrightarrow> conn_step S encoder c c'"
| cs_push: "request_push nr c = Some c' \<Longrightarrow> conn_step S encoder c c'"
| cs_drop: "request_drop nr c = Some c' \<Longrightarrow> conn_step S encoder c c'"
| cs_response: "writer_response ok c = Some c' \<Longrightarrow> conn_step S encoder c c'"
| cs_notification: "writer_notification encoder ok c = Some c' \<Longrightarrow> conn_step S encoder c c'"
| cs_notify: "sub_notify sub v (Some (rc_chan c)) = (Ready r, Some ch) \<Longrightarrow> conn_step S encoder c (c\<lparr>rc_chan := ch\<rparr>)"

section \<open>Responses\<close>

definition well_formed_response :: "rpc_response \<Rightarrow> bool" where
  "well_formed_response r \<longleftrightarrow> rs_jsonrpc r = JSONRPC_VERSION \<and> (rs_result r = None \<longleftrightarrow> rs_error r \<noteq> None)"

lemma split_char_not_empty [simp]: "split_char c s \<noteq> []"
  by (induction s) (auto split: list.splits)

lemma split_char_none: "c \<notin> set s \<Longrightarrow> split_char c s = [s]"
  by (induction s) auto

lemma split_char_first: "c \<notin> set w \<Longrightarrow> split_char c (w @ c # s) = w # split_char c s"
  by (induction w) auto

lemma join_split: "join_with [c] (split_char c s) = s"
proof (induction s)
  case (Cons x s)
  obtain w ws where "split_char c s = w # ws" by (cases "split_char c s") simp_all
  with Cons show ?case by (cases ws) auto
qed simp

lemma sanity_check_method:
  assumes "request_from_value v = Some q" "rq_jsonrpc q = JSONRPC_VERSION" "rq_method q = srvc @ ''.'' @ meth" "CHR ''.'' \<notin> set srvc"
  shows "sanity_check v = NewReq \<lparr>nq_srvc_name = srvc, nq_method_name = meth, nq_msg = q\<rparr>"
proof -
  have "split_char CHR ''.'' (rq_method q) = srvc # split_char CHR ''.'' meth"
    using assms(3,4) split_char_first by simp
  moreover have "0 < length (split_char CHR ''.'' meth)" by simp
  ultimately show ?thesis
    using assms(1,2) join_split [of "CHR ''.''" meth] by (simp add: sanity_check_def Let_def)
qed

text \<open>C32. Whatever value arrives, the server answers with a well-formed response: version 2.0, exactly one of result and
  error, and the id of the request, which is absent only when the value is no request.  A request with a service and a method in its
  name gets the answer of the pub/sub method if there is one and the connection has a channel, else of the plain method, else
  the error for an unknown method.\<close>

theorem handle_request_answers:
  "(\<forall>res ch'. handle_request S ch v = (res, ch') \<longrightarrow> well_formed_response res \<and> rs_id res = map_option rq_id (request_from_value v)) \<and>
   (\<forall>q srvc meth. request_from_value v = Some q \<and> rq_jsonrpc q = JSONRPC_VERSION \<and> rq_method q = srvc @ ''.'' @ meth \<and> CHR ''.'' \<notin> set srvc \<longrightarrow>
     handle_request S ch v = (let p = (case rq_params q of Some p \<Rightarrow> p | None \<Rightarrow> JNull) in
       case (ch, Option.bind (sv_pubsub S srvc) (\<lambda>s. s meth), Option.bind (sv_services S srvc) (\<lambda>s. s meth)) of
         (Some c, Some m, _) \<Rightarrow> (case m c (rq_method q) p of (r, c') \<Rightarrow> (respond (rq_id q) r, Some c'))
       | (_, _, Some m) \<Rightarrow> (respond (rq_id q) (m p), ch)
       | _ \<Rightarrow> (err_res (Some (rq_id q)) METHOD_NOT_FOUND_ERROR_CODE ''Method not found'', ch)))"
proof (intro conjI allI impI)
  fix res ch' assume "handle_request S ch v = (res, ch')"
  then show "well_formed_response res" "rs_id res = map_option rq_id (request_from_value v)"
    by (auto simp: handle_request_def sanity_check_def Let_def well_formed_response_def respond_def to_response_def err_res_def method_not_found_def
        response_default_def split: option.splits sanity_check_result.splits handler.splits prod.splits sum.splits if_splits)
next
  fix q srvc meth
  assume q: "request_from_value v = Some q \<and> rq_jsonrpc q = JSONRPC_VERSION \<and> rq_method q = srvc @ ''.'' @ meth \<and> CHR ''.'' \<notin> set srvc"
  then have "sanity_check v = NewReq \<lparr>nq_srvc_name = srvc, nq_method_name = meth, nq_msg = q\<rparr>"
    using sanity_check_method by blast
  then show "handle_request S ch v = (let p = (case rq_params q of Some p \<Rightarrow> p | None \<Rightarrow> JNull) in
       case (ch, Option.bind (sv_pubsub S srvc) (\<lambda>s. s meth), Option.bind (sv_services S srvc) (\<lambda>s. s meth)) of
         (Some c, Some m, _) \<Rightarrow> (case m c (rq_method q) p of (r, c') \<Rightarrow> (respond (rq_id q) r, Some c'))
       | (_, _, Some m) \<Rightarrow> (respond (rq_id q) (m p), ch)
       | _ \<Rightarrow> (err_res (Some (rq_id q)) METHOD_NOT_FOUND_ERROR_CODE ''Method not found'', ch))"
    by (auto simp: handle_request_def resolve_handler_def method_not_found_def Let_def split: option.splits prod.splits)
qed

definition ex_services :: rpc_services where
  "ex_services = \<lparr>sv_services = [''Calc'' \<mapsto> [''math.id'' \<mapsto> (\<lambda>p. Inr p)]], sv_pubsub = Map.empty\<rparr>"

definition ex_request :: rpc_request where
  "ex_request = \<lparr>rq_jsonrpc = ''2.0'', rq_id = json_u32 7, rq_method = ''Calc.math.id'', rq_params = Some (JStr ''x'')\<rparr>"

lemma ex_request_value: "request_from_value (request_to_value ex_request) = Some ex_request"
  by (simp add: ex_request_def request_from_value_def request_to_value_def)

theorem handle_request_answers_witness:
  "handle_request ex_services None (request_to_value ex_request) = (response_default\<lparr>rs_result := Some (JStr ''x''), rs_id := Some (json_u32 7)\<rparr>, None)"
proof -
  have "rq_jsonrpc ex_request = JSONRPC_VERSION \<and> rq_method ex_request = ''Calc'' @ ''.'' @ ''math.id'' \<and> CHR ''.'' \<notin> set ''Calc''"
    by (simp add: ex_request_def JSONRPC_VERSION_def)
  then show ?thesis
    using handle_request_answers [THEN conjunct2, rule_format, of "request_to_value ex_request" ex_request "''Calc''" "''math.id''" ex_services None] ex_request_value
    by (simp add: ex_services_def respond_def) (simp add: ex_request_def)
qed

section \<open>The connection\<close>

text \<open>Pub/sub methods can only use the operations of the channel.\<close>

inductive chan_ops :: "channel \<Rightarrow> channel \<Rightarrow> bool" where
  co_none: "chan_ops c c"
| co_new: "\<lbrakk>chan_ops c d; new_subscription rnd m i d = (r, d')\<rbrakk> \<Longrightarrow> chan_ops c d'"
| co_remove: "\<lbrakk>chan_ops c d; remove_subscription i d = (r, d')\<rbrakk> \<Longrightarrow> chan_ops c d'"
| co_notify: "\<lbrakk>chan_ops c d; sub_notify sub v (Some d) = (Ready r, Some d')\<rbrakk> \<Longrightarrow> chan_ops c d'"

definition pubsub_ok :: "rpc_services \<Rightarrow> bool" where
  "pubsub_ok S \<longleftrightarrow> (\<forall>srvc s meth m c n p. sv_pubsub S srvc = Some s \<longrightarrow> s meth = Some m \<longrightarrow> chan_ops c (snd (m c n p)))"

definition chan_bounded :: "channel \<Rightarrow> bool" where
  "chan_bounded c \<longleftrightarrow> length (cn_queue c) \<le> CHANNEL_SUBSCRIPTION_BUFFER_SIZE"

lemma sub_notify_bounded: "\<lbrakk>chan_bounded d; sub_notify sub v (Some d) = (Ready r, Some d')\<rbrakk> \<Longrightarrow> chan_bounded d'"
  by (auto simp: chan_bounded_def sub_notify_def split: if_splits)

lemma chan_ops_bounded: "chan_ops c d \<Longrightarrow> chan_bounded c \<Longrightarrow> chan_bounded d"
proof (induction rule: chan_ops.induct)
  case (co_notify c d sub v r d')
  then show ?case using sub_notify_bounded by blast
qed (auto simp: chan_bounded_def new_subscription_def remove_subscription_def Let_def split: if_splits)

lemma handle_request_channel:
  assumes "pubsub_ok S" "handle_request S (Some c) v = (res, ch)"
  obtains d where "ch = Some d" "chan_ops c d"
  using assms by (auto simp: handle_request_def resolve_handler_def pubsub_ok_def bind_eq_Some_conv Let_def intro: co_none
      split: sanity_check_result.splits handler.splits option.splits prod.splits) (metis snd_conv)+

text \<open>\<open>answers\<close>: the value is what the server answers to the request with that number, in some state of the channel.\<close>

definition answers :: "rpc_services \<Rightarrow> json list \<Rightarrow> nat \<times> json \<Rightarrow> bool" where
  "answers S reqs nr \<longleftrightarrow> fst nr < length reqs \<and> (\<exists>ch. snd nr = response_to_value (fst (handle_request S (Some ch) (reqs ! fst nr))))"

fun wire_responses :: "sent_msg list \<Rightarrow> (nat \<times> json) list" where
  "wire_responses [] = []"
| "wire_responses (SentResponse n r # ms) = (n, r) # wire_responses ms"
| "wire_responses (SentNotification _ # ms) = wire_responses ms"

lemma wire_responses_append [simp]: "wire_responses (xs @ ys) = wire_responses xs @ wire_responses ys"
  by (induction xs rule: wire_responses.induct) auto

definition all_responses :: "rpc_conn \<Rightarrow> (nat \<times> json) multiset" where
  "all_responses c = mset (rc_pushing c) + mset (rc_queue c) + mset (wire_responses (rc_wire c))"

definition conn_slots_ok :: "rpc_conn \<Rightarrow> bool" where
  "conn_slots_ok c \<longleftrightarrow> rc_permits c + length (rc_tasks c) + length (rc_pushing c) + of_bool (rc_reader c = RReading) = MAX_CONCURRENT_REQUESTS"

definition conn_accounts :: "rpc_conn \<Rightarrow> bool" where
  "conn_accounts c \<longleftrightarrow> mset (rc_tasks c) + image_mset fst (all_responses c) + mset (rc_dropped c) = mset [0..<length (rc_recv c)]"

definition conn_inv :: "rpc_services \<Rightarrow> rpc_conn \<Rightarrow> bool" where
  "conn_inv S c \<longleftrightarrow> conn_slots_ok c \<and> length (rc_queue c) \<le> RESPONSE_QUEUE_SIZE \<and> chan_bounded (rc_chan c) \<and> conn_accounts c \<and>
     (\<forall>nr \<in># all_responses c. answers S (rc_recv c) nr) \<and> (rc_dropped c \<noteq> [] \<longrightarrow> rc_writer_done c)"

lemma answers_append: "answers S reqs nr \<Longrightarrow> answers S (reqs @ [m]) nr"
  by (auto simp: answers_def nth_append)

text \<open>A step that only moves responses on or drops one.\<close>

lemma conn_inv_move:
  assumes "conn_inv S c" "conn_slots_ok c'" "length (rc_queue c') \<le> RESPONSE_QUEUE_SIZE" "chan_bounded (rc_chan c')"
    and "rc_recv c' = rc_recv c" "rc_tasks c' = rc_tasks c" "image_mset fst (all_responses c') + mset (rc_dropped c') = image_mset fst (all_responses c) + mset (rc_dropped c)"
    and "all_responses c' \<subseteq># all_responses c" "rc_dropped c' \<noteq> [] \<longrightarrow> rc_writer_done c'"
  shows "conn_inv S c'"
  using assms by (auto simp: conn_inv_def conn_accounts_def add.assoc dest: mset_subset_eqD)

lemma reader_inv:
  assumes "conn_inv S c" "reader_acquire c = Some c' \<or> stream_reader r c = Some c'"
  shows "conn_inv S c'"
proof -
  from assms(2) consider (acquire) "reader_acquire c = Some c'" | (ended) "rc_reader c = RReading" "c' = reader_end c"
    | (got) msg where "rc_reader c = RReading"
      "c' = c\<lparr>rc_reader := RWaitPermit, rc_recv := rc_recv c @ [msg], rc_tasks := rc_tasks c @ [length (rc_recv c)]\<rparr>"
    by (auto simp: stream_reader_def split: if_splits sum.splits)
  then show ?thesis
  proof cases
    case acquire
    then show ?thesis using assms(1)
      by (intro conn_inv_move [OF assms(1)]) (auto simp: reader_acquire_def conn_inv_def conn_slots_ok_def all_responses_def split: if_splits)
  next
    case ended
    then show ?thesis using assms(1)
      by (intro conn_inv_move [OF assms(1)]) (auto simp: reader_end_def conn_inv_def conn_slots_ok_def all_responses_def chan_bounded_def channel_close_def)
  next
    case (got msg)
    have "all_responses c' = all_responses c" by (simp add: all_responses_def got(2))
    then show ?thesis using assms(1) got
      by (auto simp: conn_inv_def conn_slots_ok_def conn_accounts_def intro: answers_append)
  qed
qed

lemma handle_inv:
  assumes "conn_inv S c" "pubsub_ok S" "request_handle S n c = Some c'"
  shows "conn_inv S c'"
proof -
  obtain res ch where hr: "handle_request S (Some (rc_chan c)) (rc_recv c ! n) = (res, ch)" by fastforce
  obtain d where d: "ch = Some d" "chan_ops (rc_chan c) d" using handle_request_channel [OF assms(2) hr] by blast
  have n: "n \<in> set (rc_tasks c)"
    and c': "c' = c\<lparr>rc_tasks := remove1 n (rc_tasks c), rc_pushing := rc_pushing c @ [(n, response_to_value res)], rc_chan := d\<rparr>"
    using assms(3) hr d by (auto simp: request_handle_def split: if_splits)
  have "n \<in># mset [0..<length (rc_recv c)]"
    using assms(1) n unfolding conn_inv_def conn_accounts_def by (metis set_mset_mset union_iff)
  then have "answers S (rc_recv c) (n, response_to_value res)"
    using hr by (auto simp: answers_def intro!: exI [of _ "rc_chan c"])
  moreover have "all_responses c' = add_mset (n, response_to_value res) (all_responses c)"
    by (simp add: all_responses_def c')
  moreover obtain xs where "mset (rc_tasks c) = add_mset n (mset xs)" "remove1 n (rc_tasks c) = xs"
    using n by (metis insert_DiffM mset_remove1 set_mset_mset)
  moreover from this have "length (rc_tasks c) = Suc (length xs)" by (metis size_add_mset size_mset)
  ultimately show ?thesis
    using assms(1) chan_ops_bounded [OF d(2)] by (simp add: conn_inv_def conn_slots_ok_def conn_accounts_def c')
qed

lemma remove1_mset: "x \<in> set xs \<Longrightarrow> length xs = Suc (length (remove1 x xs)) \<and> mset xs = add_mset x (mset (remove1 x xs))"
  by (simp add: length_remove1) (metis Suc_pred length_pos_if_in_set)

lemma push_inv:
  assumes "conn_inv S c" "request_push nr c = Some c' \<or> request_drop nr c = Some c'"
  shows "conn_inv S c'"
proof -
  have nr: "nr \<in> set (rc_pushing c)"
    using assms(2) by (auto simp: request_push_def request_drop_def split: if_splits)
  define xs where "xs = remove1 nr (rc_pushing c)"
  have xs: "mset (rc_pushing c) = add_mset nr (mset xs)" "length (rc_pushing c) = Suc (length xs)"
    using remove1_mset [OF nr] by (simp_all only: xs_def)
  from assms(2) consider (push) "length (rc_queue c) < RESPONSE_QUEUE_SIZE" "c' = c\<lparr>rc_pushing := xs, rc_queue := rc_queue c @ [nr], rc_permits := rc_permits c + 1\<rparr>"
    | (dropped) "rc_writer_done c" "c' = c\<lparr>rc_pushing := xs, rc_dropped := rc_dropped c @ [fst nr], rc_permits := rc_permits c + 1\<rparr>"
    by (auto simp: request_push_def request_drop_def aq_push_def xs_def split: if_splits)
  then show ?thesis
  proof cases
    case push
    then show ?thesis using assms(1) xs
      by (intro conn_inv_move [OF assms(1)]) (auto simp: conn_inv_def conn_slots_ok_def all_responses_def)
  next
    case dropped
    then show ?thesis using assms(1) xs
      by (intro conn_inv_move [OF assms(1)]) (auto simp: conn_inv_def conn_slots_ok_def all_responses_def)
  qed
qed

lemma writer_inv:
  assumes "conn_inv S c" "writer_response ok c = Some c' \<or> writer_notification encoder ok c = Some c'"
  shows "conn_inv S c'"
  using assms(2)
proof
  assume "writer_response ok c = Some c'"
  then obtain nr q where q: "rc_queue c = nr # q" "\<not> rc_writer_done c"
    and c': "c' = (if ok then c\<lparr>rc_queue := q, rc_wire := rc_wire c @ [SentResponse (fst nr) (snd nr)]\<rparr>
      else writer_end (c\<lparr>rc_queue := q, rc_dropped := rc_dropped c @ [fst nr]\<rparr>))"
    by (auto simp: writer_response_def aq_recv_def split: if_splits list.splits)
  show ?thesis
    using assms(1) q by (intro conn_inv_move [OF assms(1)])
      (auto simp: c' conn_inv_def conn_slots_ok_def all_responses_def writer_end_def chan_bounded_def channel_close_def)
next
  assume "writer_notification encoder ok c = Some c'"
  then show ?thesis
    using assms(1) by (intro conn_inv_move [OF assms(1)])
      (auto simp: writer_notification_def conn_inv_def conn_slots_ok_def all_responses_def writer_end_def chan_bounded_def channel_close_def Let_def
        split: if_splits list.splits)
qed

lemma conn_step_inv:
  assumes "pubsub_ok S" "conn_inv S c" "conn_step S encoder c c'"
  shows "conn_inv S c'"
  using assms(3)
proof cases
  case (cs_notify sub v r ch)
  have "chan_bounded ch" using assms(2) sub_notify_bounded [OF _ cs_notify(2)] by (simp add: conn_inv_def)
  with cs_notify(1) assms(2) show ?thesis
    by (intro conn_inv_move [OF assms(2)]) (auto simp: conn_inv_def conn_slots_ok_def all_responses_def)
qed (use assms(1,2) reader_inv handle_inv push_inv writer_inv in blast)+

lemma conn_new_inv: "conn_inv S (conn_new peer)"
  by (simp add: conn_inv_def conn_new_def conn_slots_ok_def conn_accounts_def all_responses_def chan_bounded_def channel_new_def)

interpretation rpc_runs: step_invariant "conn_step S encoder" "\<lambda>c. pubsub_ok S \<longrightarrow> conn_inv S c"
  for S :: rpc_services and encoder
  by unfold_locales (blast intro: conn_step_inv)

text \<open>C16. A message connection under every interleaving of its reader, its request tasks, its writer and the tasks that notify
  subscriptions.  At most 64 requests are handled at a time, at most 256 responses and 100 notifications are queued; every response on the wire is the
  server's answer to one received request, and none is answered twice.  As long as the writer runs, each request is exactly once
  being handled, waiting for the queue, queued or answered.\<close>

theorem conn_answers:
  assumes "pubsub_ok S" "(conn_step S encoder)\<^sup>*\<^sup>* (conn_new peer) c"
  shows "length (rc_tasks c) + length (rc_pushing c) \<le> MAX_CONCURRENT_REQUESTS \<and> length (rc_queue c) \<le> RESPONSE_QUEUE_SIZE \<and>
    length (cn_queue (rc_chan c)) \<le> CHANNEL_SUBSCRIPTION_BUFFER_SIZE \<and>
    list_all (answers S (rc_recv c)) (wire_responses (rc_wire c)) \<and> distinct (map fst (wire_responses (rc_wire c))) \<and>
    (\<not> rc_writer_done c \<longrightarrow> mset (rc_tasks c) + mset (map fst (rc_pushing c)) + mset (map fst (rc_queue c)) + mset (map fst (wire_responses (rc_wire c))) =
       mset [0..<length (rc_recv c)])"
proof -
  have inv: "conn_inv S c"
    using rpc_runs.reachable_inv [OF assms(2)] conn_new_inv assms(1) by blast
  have "mset (map fst (wire_responses (rc_wire c))) \<subseteq># mset [0..<length (rc_recv c)]"
    using inv unfolding conn_inv_def conn_accounts_def all_responses_def
    by (metis (no_types, lifting) image_mset_union mset_map mset_subset_eq_add_left mset_subset_eq_add_right subset_mset.order_trans)
  then obtain ys where "mset [0..<length (rc_recv c)] = mset (map fst (wire_responses (rc_wire c)) @ ys)"
    by (metis ex_mset mset_append mset_subset_eq_exists_conv)
  then have "distinct (map fst (wire_responses (rc_wire c)))"
    using mset_eq_imp_distinct_iff [of "[0..<length (rc_recv c)]"] by (metis distinct_append distinct_upt)
  with inv show ?thesis
    by (auto simp: conn_inv_def conn_slots_ok_def conn_accounts_def all_responses_def chan_bounded_def list_all_iff ac_simps)
qed

text \<open>One request from the wire to its answer.\<close>

definition ex_rpc_conn :: "rpc_conn" where
  "ex_rpc_conn = (conn_new None)\<lparr>rc_recv := [request_to_value ex_request],
     rc_wire := [SentResponse 0 (response_to_value (response_default\<lparr>rs_result := Some (JStr ''x''), rs_id := Some (json_u32 7)\<rparr>))]\<rparr>"

lemma ex_handle: "handle_request ex_services (Some ch) (request_to_value ex_request) = (response_default\<lparr>rs_result := Some (JStr ''x''), rs_id := Some (json_u32 7)\<rparr>, Some ch)"
proof -
  have "sanity_check (request_to_value ex_request) = NewReq \<lparr>nq_srvc_name = ''Calc'', nq_method_name = ''math.id'', nq_msg = ex_request\<rparr>"
    by (rule sanity_check_method [OF ex_request_value]) (simp_all add: ex_request_def JSONRPC_VERSION_def)
  then show ?thesis
    by (simp add: handle_request_def resolve_handler_def ex_services_def respond_def) (simp add: ex_request_def)
qed

lemma ex_rpc_conn_run: "(conn_step ex_services default_notification_encoder)\<^sup>*\<^sup>* (conn_new None) ex_rpc_conn"
proof -
  define v where "v = response_to_value (response_default\<lparr>rs_result := Some (JStr ''x''), rs_id := Some (json_u32 7)\<rparr>)"
  define c1 where "c1 = (conn_new None)\<lparr>rc_reader := RReading, rc_permits := 63\<rparr>"
  define c2 where "c2 = (conn_new None)\<lparr>rc_permits := 63, rc_recv := [request_to_value ex_request], rc_tasks := [0]\<rparr>"
  define c3 where "c3 = (conn_new None)\<lparr>rc_permits := 63, rc_recv := [request_to_value ex_request], rc_pushing := [(0, v)]\<rparr>"
  define c4 where "c4 = (conn_new None)\<lparr>rc_recv := [request_to_value ex_request], rc_queue := [(0, v)]\<rparr>"
  let ?step = "conn_step ex_services default_notification_encoder"
  have "reader_acquire (conn_new None) = Some c1"
    by (simp add: reader_acquire_def c1_def conn_new_def MAX_CONCURRENT_REQUESTS_def)
  then have "?step (conn_new None) c1" by (rule cs_acquire)
  moreover have "stream_reader (Inr (request_to_value ex_request)) c1 = Some c2"
    by (simp add: stream_reader_def c1_def c2_def conn_new_def)
  then have "?step c1 c2" by (rule cs_read)
  moreover have "request_handle ex_services 0 c2 = Some c3"
    by (simp add: request_handle_def c2_def c3_def conn_new_def ex_handle v_def)
  then have "?step c2 c3" by (rule cs_handle)
  moreover have "request_push (0, v) c3 = Some c4"
    by (simp add: request_push_def aq_push_def c3_def c4_def conn_new_def RESPONSE_QUEUE_SIZE_def MAX_CONCURRENT_REQUESTS_def)
  then have "?step c3 c4" by (rule cs_push)
  moreover have "writer_response True c4 = Some ex_rpc_conn"
    by (simp add: writer_response_def aq_recv_def c4_def ex_rpc_conn_def conn_new_def v_def)
  then have "?step c4 ex_rpc_conn" by (rule cs_response)
  ultimately show ?thesis
    by (meson rtranclp.rtrancl_into_rtrancl rtranclp.rtrancl_refl)
qed

theorem conn_answers_witness:
  "pubsub_ok ex_services \<and> list_all (answers ex_services [request_to_value ex_request])
     [(0, response_to_value (response_default\<lparr>rs_result := Some (JStr ''x''), rs_id := Some (json_u32 7)\<rparr>))]"
proof -
  have "pubsub_ok ex_services" by (simp add: pubsub_ok_def ex_services_def)
  with conn_answers [OF this ex_rpc_conn_run] show ?thesis
    by (simp add: ex_rpc_conn_def)
qed

end
