(* ===== verification/Jsonrpc_Client.thy ===== *)
theory Jsonrpc_Client
  imports Jsonrpc_Server
begin

text \<open>
  The JSON-RPC client over one message connection: the message dispatcher (\<open>jsonrpc/src/client/message_dispatcher.rs\<close>), the
  subscriptions (\<open>subscriptions.rs\<close>), the reader and writer loop and \<open>send_request\<close> (\<open>multiplexed.rs\<close>), and \<open>call\<close>, \<open>subscribe\<close> and
  \<open>unsubscribe\<close> (\<open>mod.rs\<close>).  The buffer size of subscriptions is positive, which the channels require.  Calls and subscriptions are objects named by numbers; the steps of the callers and of the loop interleave.
\<close>

section \<open>Requests and incoming messages\<close>

definition mux_request :: "u32 \<Rightarrow> string \<Rightarrow> json \<Rightarrow> rpc_request" where
  "mux_request i m params = \<lparr>rq_jsonrpc = JSONRPC_VERSION, rq_id = json_u32 i, rq_method = m, rq_params = Some params\<rparr>"

text \<open>The untagged enumeration: a notification if it can be read as one, else a response.\<close>

datatype new_msg = MsgNotification notification | MsgResponse rpc_response

definition new_msg_from_value :: "json \<Rightarrow> new_msg option" where
  "new_msg_from_value v = (case notification_from_value v of
      Some n \<Rightarrow> Some (MsgNotification n)
    | None \<Rightarrow> map_option MsgResponse (response_from_value v))"

definition default_notification_decoder :: "notification \<Rightarrow> rpc_fault + notification_result" where
  "default_notification_decoder nt = (case nt_params nt of
      Some p \<Rightarrow> ok_or ParseJSON (notification_result_from_value p)
    | None \<Rightarrow> Inl (RpcInvalidMsg ''Invalid notification msg''))"

section \<open>State\<close>

definition OUTBOUND_BUFFER_SIZE :: nat where "OUTBOUND_BUFFER_SIZE = 10"

text \<open>The stages of \<open>send_request\<close> after the check of the disconnect flag, its outcome last.\<close>

datatype call_stage = CChecked | CRegistered | CWaiting | CDone "rpc_fault + rpc_response"

record rpc_call =
  ca_id :: u32
  ca_request :: json
  ca_stage :: call_stage
  ca_chan :: "rpc_response option"

record client_sub =
  su_id :: subscription_id
  su_buf :: "json list"
  su_closed :: bool

text \<open>The loop runs, or has ended and its completion callback has set the flag, closed the subscriptions and cleared the dispatcher.\<close>

datatype io_stage = IoRunning | IoEnded | IoFlagged | IoSubsClosed | IoCleared

record rpc_client =
  cl_disconnect :: bool
  cl_dispatch :: "u32 \<rightharpoonup> nat"
  cl_outbound :: "json list"
  cl_calls :: "rpc_call list"
  cl_subs :: "subscription_id \<rightharpoonup> nat"
  cl_subobjs :: "nat \<rightharpoonup> client_sub"
  cl_next_sub :: nat
  cl_sub_buffer :: nat
  cl_io :: io_stage
  cl_written :: "json list"

definition build_backend_state :: "nat \<Rightarrow> rpc_client" where
  "build_backend_state sub_buffer = \<lparr>cl_disconnect = False, cl_dispatch = Map.empty, cl_outbound = [], cl_calls = [], cl_subs = Map.empty,
     cl_subobjs = Map.empty, cl_next_sub = 0, cl_sub_buffer = sub_buffer, cl_io = IoRunning, cl_written = []\<rparr>"

section \<open>Dispatcher and subscriptions\<close>

definition disp_register :: "u32 \<Rightarrow> nat \<Rightarrow> rpc_client \<Rightarrow> rpc_client" where
  "disp_register i k c = c\<lparr>cl_dispatch := (cl_dispatch c)(i \<mapsto> k)\<rparr>"

definition disp_unregister :: "u32 \<Rightarrow> rpc_client \<Rightarrow> rpc_client" where
  "disp_unregister i c = c\<lparr>cl_dispatch := (cl_dispatch c)(i := None)\<rparr>"

definition disp_clear :: "rpc_client \<Rightarrow> rpc_client" where
  "disp_clear c = c\<lparr>cl_dispatch := Map.empty\<rparr>"

definition call_over :: "rpc_call \<Rightarrow> bool" where
  "call_over ca = (case ca_stage ca of CDone _ \<Rightarrow> True | _ \<Rightarrow> False)"

text \<open>\<open>dispatch\<close>: the sender leaves the map whether or not the send succeeds; the send fails when the call is over.\<close>

definition disp_dispatch :: "rpc_response \<Rightarrow> rpc_client \<Rightarrow> (rpc_fault + unit) \<times> rpc_client" where
  "disp_dispatch res c = (case rs_id res of
      None \<Rightarrow> (Inl (RpcInvalidMsg ''Response id is none''), c)
    | Some v \<Rightarrow> (case as_u32 v of
        None \<Rightarrow> (Inl ParseJSON, c)
      | Some i \<Rightarrow> (case cl_dispatch c i of
          None \<Rightarrow> (Inl (RpcInvalidMsg ''Receive unknown message''), c)
        | Some k \<Rightarrow> (let c1 = disp_unregister i c; ca = cl_calls c ! k in
            if call_over ca then (Inl (RpcChannelSend ''sending into a closed channel''), c1)
            else (Inr (), c1\<lparr>cl_calls := (cl_calls c)[k := ca\<lparr>ca_chan := Some res\<rparr>]\<rparr>)))))"

definition subs_subscribe :: "subscription_id \<Rightarrow> rpc_client \<Rightarrow> nat \<times> rpc_client" where
  "subs_subscribe i c = (cl_next_sub c, c\<lparr>cl_subs := (cl_subs c)(i \<mapsto> cl_next_sub c),
     cl_subobjs := (cl_subobjs c)(cl_next_sub c \<mapsto> \<lparr>su_id = i, su_buf = [], su_closed = False\<rparr>), cl_next_sub := cl_next_sub c + 1\<rparr>)"

definition subs_clear :: "rpc_client \<Rightarrow> rpc_client" where
  "subs_clear c = c\<lparr>cl_subobjs := (\<lambda>k. map_option (\<lambda>su. if k \<in> ran (cl_subs c) then su\<lparr>su_closed := True\<rparr> else su) (cl_subobjs c k)), cl_subs := Map.empty\<rparr>"

definition subs_unsubscribe :: "subscription_id \<Rightarrow> rpc_client \<Rightarrow> rpc_client" where
  "subs_unsubscribe i c = (case cl_subs c i of
      None \<Rightarrow> c
    | Some k \<Rightarrow> c\<lparr>cl_subs := (cl_subs c)(i := None), cl_subobjs := (\<lambda>k'. map_option (\<lambda>su. if k' = k then su\<lparr>su_closed := True\<rparr> else su) (cl_subobjs c k'))\<rparr>)"

definition sub_notify_client :: "json \<Rightarrow> nat \<Rightarrow> client_sub \<Rightarrow> rpc_fault + client_sub" where
  "sub_notify_client v cap su = (if cap \<le> length (su_buf su) then Inl SubscriptionBufferFull
     else if su_closed su then Inl (RpcChannelSend ''sending into a closed channel'')
     else Inr (su\<lparr>su_buf := su_buf su @ [v]\<rparr>))"

definition subs_notify :: "notification_result \<Rightarrow> rpc_client \<Rightarrow> (rpc_fault + unit) \<times> rpc_client" where
  "subs_notify nt c = (case Option.bind (cl_subs c (nr_subscription nt)) (\<lambda>k. map_option (Pair k) (cl_subobjs c k)) of
      None \<Rightarrow> (Inl (RpcInvalidMsg ''Unknown notification''), c)
    | Some (k, su) \<Rightarrow> (case sub_notify_client (case nr_result nt of Some v \<Rightarrow> v | None \<Rightarrow> JStr []) (cl_sub_buffer c) su of
        Inl e \<Rightarrow> (Inl e, c)
      | Inr su' \<Rightarrow> (Inr (), c\<lparr>cl_subobjs := (cl_subobjs c)(k \<mapsto> su')\<rparr>)))"

text \<open>\<open>Subscription::recv\<close>.\<close>

definition sub_recv :: "nat \<Rightarrow> rpc_client \<Rightarrow> (rpc_fault + json) poll \<times> rpc_client" where
  "sub_recv k c = (case cl_subobjs c k of
      None \<Rightarrow> (Pending, c)
    | Some su \<Rightarrow> (case su_buf su of
        v # vs \<Rightarrow> (Ready (Inr v), c\<lparr>cl_subobjs := (cl_subobjs c)(k \<mapsto> su\<lparr>su_buf := vs\<rparr>)\<rparr>)
      | [] \<Rightarrow> if su_closed su then (Ready (Inl SubscriptionClosed), c) else (Pending, c)))"

section \<open>The loop\<close>

definition handle_mux_msg :: "(notification \<Rightarrow> rpc_fault + notification_result) \<Rightarrow> json \<Rightarrow> rpc_client \<Rightarrow> (rpc_fault + unit) \<times> rpc_client" where
  "handle_mux_msg decoder msg c = (case new_msg_from_value msg of
      Some (MsgResponse res) \<Rightarrow> disp_dispatch res c
    | Some (MsgNotification nt) \<Rightarrow> (case decoder nt of Inl e \<Rightarrow> (Inl e, c) | Inr nr \<Rightarrow> subs_notify nr c)
    | None \<Rightarrow> (Inl (RpcInvalidMsg ''Unexpected msg''), c))"

text \<open>One turn of \<open>run_io_loop\<close>: a request goes out (\<open>sent\<close> is the outcome of \<open>send_msg\<close>), or a message comes in.\<close>

definition io_write :: "net_error + unit \<Rightarrow> rpc_client \<Rightarrow> rpc_client option" where
  "io_write sent c = (if cl_io c \<noteq> IoRunning then None
     else (case cl_outbound c of
         [] \<Rightarrow> None
       | req # rest \<Rightarrow> (let c1 = c\<lparr>cl_outbound := rest\<rparr>
           in Some (case sent of Inr _ \<Rightarrow> c1\<lparr>cl_written := cl_written c @ [req]\<rparr> | Inl _ \<Rightarrow> c1\<lparr>cl_io := IoEnded\<rparr>))))"

definition io_read :: "(notification \<Rightarrow> rpc_fault + notification_result) \<Rightarrow> net_error + json \<Rightarrow> rpc_client \<Rightarrow> rpc_client option" where
  "io_read decoder got c = (if cl_io c \<noteq> IoRunning \<or> cl_outbound c \<noteq> [] then None
     else (case got of
         Inl _ \<Rightarrow> Some (c\<lparr>cl_io := IoEnded\<rparr>)
       | Inr msg \<Rightarrow> (case handle_mux_msg decoder msg c of (r, c1) \<Rightarrow>
           Some (if r = Inl SubscriptionBufferFull then c1\<lparr>cl_io := IoEnded\<rparr> else c1))))"

text \<open>The completion callback of the loop, which also runs when the task is cancelled.\<close>

fun io_callback :: "rpc_client \<Rightarrow> rpc_client option" where
  "io_callback c = (case cl_io c of
      IoEnded \<Rightarrow> Some (c\<lparr>cl_disconnect := True, cl_io := IoFlagged\<rparr>)
    | IoFlagged \<Rightarrow> Some ((subs_clear c)\<lparr>cl_io := IoSubsClosed\<rparr>)
    | IoSubsClosed \<Rightarrow> Some ((disp_clear c)\<lparr>cl_io := IoCleared\<rparr>)
    | _ \<Rightarrow> None)"

section \<open>Connecting\<close>

text \<open>The stream for an endpoint: \<open>conn\<close> opens the socket, \<open>tls\<close> and \<open>ws\<close> are the handshakes, \<open>tls\<close> absent without a configuration.\<close>

definition connect_byte :: "(endpoint \<Rightarrow> net_error + 's) \<Rightarrow> ('s \<Rightarrow> net_error + 's) option \<Rightarrow> endpoint \<Rightarrow> rpc_fault + 's" where
  "connect_byte conn tls ep = (case ep of
      Tcp _ _ \<Rightarrow> map_err RpcNet (conn ep)
    | Tls _ _ \<Rightarrow> res_bind (map_err RpcNet (conn ep)) (\<lambda>stream. res_bind (ok_or TLSConfigRequired tls) (\<lambda>handshake. map_err RpcNet (handshake stream)))
    | Unix _ \<Rightarrow> map_err RpcNet (conn ep)
    | _ \<Rightarrow> Inl (UnsupportedProtocol (endpoint_display ep)))"

definition connect_ws :: "(endpoint \<Rightarrow> net_error + 's) \<Rightarrow> ('s \<Rightarrow> net_error + 's) option \<Rightarrow> (string \<Rightarrow> 's \<Rightarrow> net_error + 'c) \<Rightarrow> endpoint \<Rightarrow> rpc_fault + 'c" where
  "connect_ws conn tls ws ep = (let url = endpoint_display ep in case ep of
      Ws _ \<Rightarrow> res_bind (map_err RpcNet (conn ep)) (\<lambda>stream. map_err RpcNet (ws url stream))
    | Wss _ \<Rightarrow> res_bind (map_err RpcNet (conn ep)) (\<lambda>stream. res_bind (ok_or TLSConfigRequired tls) (\<lambda>handshake.
        res_bind (map_err RpcNet (handshake stream)) (\<lambda>tls_stream. map_err RpcNet (ws url tls_stream))))
    | _ \<Rightarrow> Inl (UnsupportedProtocol url))"

section \<open>Requests of the callers\<close>

definition set_stage :: "nat \<Rightarrow> call_stage \<Rightarrow> rpc_client \<Rightarrow> rpc_client" where
  "set_stage k st c = c\<lparr>cl_calls := (cl_calls c)[k := (cl_calls c ! k)\<lparr>ca_stage := st\<rparr>]\<rparr>"

text \<open>\<open>send_request\<close> step by step: the request is built and the flag read; the call is registered under its random id; the request enters the
  outbound queue, whose receiver the client itself keeps open; the response, the closed channel or the timeout is awaited.\<close>

definition request_start :: "u32 \<Rightarrow> string \<Rightarrow> json \<Rightarrow> rpc_client \<Rightarrow> nat \<times> rpc_client" where
  "request_start i m params c = (length (cl_calls c), c\<lparr>cl_calls := cl_calls c @ [\<lparr>ca_id = i, ca_request = request_to_value (mux_request i m params),
     ca_stage = (if cl_disconnect c then CDone (Inl ClientDisconnected) else CChecked), ca_chan = None\<rparr>]\<rparr>)"

definition request_register :: "nat \<Rightarrow> rpc_client \<Rightarrow> rpc_client option" where
  "request_register k c = (if k < length (cl_calls c) \<and> ca_stage (cl_calls c ! k) = CChecked
     then Some (set_stage k CRegistered (disp_register (ca_id (cl_calls c ! k)) k c)) else None)"

definition request_send :: "nat \<Rightarrow> rpc_client \<Rightarrow> rpc_client option" where
  "request_send k c = (if k < length (cl_calls c) \<and> ca_stage (cl_calls c ! k) = CRegistered \<and> length (cl_outbound c) < OUTBOUND_BUFFER_SIZE
     then Some (set_stage k CWaiting (c\<lparr>cl_outbound := cl_outbound c @ [ca_request (cl_calls c ! k)]\<rparr>)) else None)"

definition check_response_id :: "u32 \<Rightarrow> rpc_response \<Rightarrow> rpc_fault + rpc_response" where
  "check_response_id i res = (case rs_id res of
      None \<Rightarrow> Inl (RpcInvalidMsg ''Missing response id'')
    | Some v \<Rightarrow> if v \<noteq> json_u32 i then Inl (RpcInvalidMsg ''Invalid response id'') else Inr res)"

definition request_wait :: "bool \<Rightarrow> nat \<Rightarrow> rpc_client \<Rightarrow> rpc_client option" where
  "request_wait expired k c = (if \<not> (k < length (cl_calls c) \<and> ca_stage (cl_calls c ! k) = CWaiting) then None
     else (let ca = cl_calls c ! k in
       if expired then Some (disp_unregister (ca_id ca) (set_stage k (CDone (Inl (RpcCore CoreTimeout))) c))
       else (case ca_chan ca of
           Some res \<Rightarrow> Some (set_stage k (CDone (check_response_id (ca_id ca) res)) c)
         | None \<Rightarrow> if k \<in> ran (cl_dispatch c) then None
             else Some (disp_unregister (ca_id ca) (set_stage k (CDone (Inl RpcChannelRecv)) c)))))"

text \<open>What \<open>call\<close>, \<open>subscribe\<close> and \<open>unsubscribe\<close> make of the outcome of \<open>send_request\<close>; \<open>de\<close> reads the caller's type.\<close>

definition call_result :: "(json \<Rightarrow> 'v option) \<Rightarrow> rpc_fault + rpc_response \<Rightarrow> rpc_fault + 'v" where
  "call_result de r = res_bind r (\<lambda>res. case rs_error res of
      Some e \<Rightarrow> Inl (CallError (er_code e) (er_message e))
    | None \<Rightarrow> (case rs_result res of
        Some v \<Rightarrow> ok_or ParseJSON (de v)
      | None \<Rightarrow> Inl (RpcInvalidMsg ''Invalid response result'')))"

definition subscribe_finish :: "rpc_fault + rpc_response \<Rightarrow> rpc_client \<Rightarrow> (rpc_fault + nat) \<times> rpc_client" where
  "subscribe_finish r c = (case r of
      Inl e \<Rightarrow> (Inl e, c)
    | Inr res \<Rightarrow> (case rs_error res of
        Some e \<Rightarrow> (Inl (SubscribeError (er_code e) (er_message e)), c)
      | None \<Rightarrow> (case rs_result res of
          None \<Rightarrow> (Inl (RpcInvalidMsg ''Invalid subscription id''), c)
        | Some v \<Rightarrow> (case as_u32 v of
            None \<Rightarrow> (Inl ParseJSON, c)
          | Some i \<Rightarrow> (case subs_subscribe i c of (k, c') \<Rightarrow> (Inr k, c'))))))"

definition unsubscribe_finish :: "subscription_id \<Rightarrow> rpc_fault + rpc_response \<Rightarrow> rpc_client \<Rightarrow> (rpc_fault + unit) \<times> rpc_client" where
  "unsubscribe_finish i r c = (case r of
      Inl e \<Rightarrow> (Inl e, c)
    | Inr res \<Rightarrow> ((case rs_error res of Some e \<Rightarrow> Inl (SubscribeError (er_code e) (er_message e)) | None \<Rightarrow> Inr ()), subs_unsubscribe i c))"

inductive client_step :: "(notification \<Rightarrow> rpc_fault + notification_result) \<Rightarrow> rpc_client \<Rightarrow> rpc_client \<Rightarrow> bool" for decoder where
  cl_start: "request_start i m p c = (k, c') \<Longrightarrow> client_step decoder c c'"
| cl_register: "request_register k c = Some c' \<Longrightarrow> client_step decoder c c'"
| cl_send: "request_send k c = Some c' \<Longrightarrow> client_step decoder c c'"
| cl_wait: "request_wait expired k c = Some c' \<Longrightarrow> client_step decoder c c'"
| cl_subscribe: "\<lbrakk>ca \<in> set (cl_calls c); ca_stage ca = CDone r; subscribe_finish r c = (o', c')\<rbrakk> \<Longrightarrow> client_step decoder c c'"
| cl_unsubscribe: "\<lbrakk>ca \<in> set (cl_calls c); ca_stage ca = CDone r; unsubscribe_finish i r c = (o', c')\<rbrakk> \<Longrightarrow> client_step decoder c c'"
| cl_recv: "sub_recv k c = (Ready v, c') \<Longrightarrow> client_step decoder c c'"
| cl_write: "io_write sent c = Some c' \<Longrightarrow> client_step decoder c c'"
| cl_read: "io_read decoder got c = Some c' \<Longrightarrow> client_step decoder c c'"
| cl_cancel: "cl_io c = IoRunning \<Longrightarrow> client_step decoder c (c\<lparr>cl_io := IoEnded\<rparr>)"
| cl_callback: "io_callback c = Some c' \<Longrightarrow> client_step decoder c c'"

section \<open>Calls get their own responses\<close>

lemma as_u32_iff: "as_u32 v = Some i \<longleftrightarrow> v = json_u32 i"
proof
  assume "as_u32 v = Some i"
  then obtain n where n: "v = JNum (PosInt n)" "unat n < 2 ^ 32" "i = ucast n"
    by (cases v rule: as_u32.cases) (auto split: if_splits)
  have "ucast i = n"
    using n(2,3) by (simp add: word_unat_eq_iff unat_ucast_u64 unsigned_ucast_eq take_bit_nat_eq_self)
  with n show "v = json_u32 i" by (simp add: json_u32_def)
qed simp

definition call_ok :: "rpc_call \<Rightarrow> bool" where
  "call_ok ca \<longleftrightarrow> (\<exists>m p. ca_request ca = request_to_value (mux_request (ca_id ca) m p)) \<and>
     (\<forall>res. ca_chan ca = Some res \<longrightarrow> rs_id res = Some (json_u32 (ca_id ca))) \<and>
     (case ca_stage ca of CDone (Inr res) \<Rightarrow> ca_chan ca = Some res
        | CDone (Inl e) \<Rightarrow> e \<in> {ClientDisconnected, RpcCore CoreTimeout, RpcChannelRecv}
        | CChecked \<Rightarrow> ca_chan ca = None | _ \<Rightarrow> True)"

definition dispatch_ok :: "rpc_client \<Rightarrow> bool" where
  "dispatch_ok c \<longleftrightarrow> (\<forall>i k. cl_dispatch c i = Some k \<longrightarrow> k < length (cl_calls c) \<and> ca_id (cl_calls c ! k) = i \<and>
     ca_chan (cl_calls c ! k) = None \<and> ca_stage (cl_calls c ! k) \<in> {CRegistered, CWaiting})"

definition client_inv :: "rpc_client \<Rightarrow> bool" where
  "client_inv c \<longleftrightarrow> length (cl_outbound c) \<le> OUTBOUND_BUFFER_SIZE \<and> list_all call_ok (cl_calls c) \<and> dispatch_ok c \<and>
     (\<forall>k su. cl_subobjs c k = Some su \<longrightarrow> length (su_buf su) \<le> cl_sub_buffer c) \<and>
     (\<forall>k. cl_next_sub c \<le> k \<longrightarrow> cl_subobjs c k = None)"

lemma dispatch_ok_mono:
  assumes "dispatch_ok c" "cl_calls c' = cl_calls c" "cl_dispatch c' \<subseteq>\<^sub>m cl_dispatch c"
  shows "dispatch_ok c'"
  unfolding dispatch_ok_def assms(2)
proof (intro allI impI)
  fix i k assume "cl_dispatch c' i = Some k"
  then have "cl_dispatch c i = Some k" using assms(3) by (metis domI map_le_def)
  then show "k < length (cl_calls c) \<and> ca_id (cl_calls c ! k) = i \<and> ca_chan (cl_calls c ! k) = None \<and> ca_stage (cl_calls c ! k) \<in> {CRegistered, CWaiting}"
    using assms(1) by (simp add: dispatch_ok_def)
qed

text \<open>Steps that leave the calls alone.\<close>

lemma client_inv_same:
  assumes "client_inv c" "length (cl_outbound c') \<le> length (cl_outbound c)" "cl_calls c' = cl_calls c" "cl_dispatch c' \<subseteq>\<^sub>m cl_dispatch c"
    and "\<And>k su. cl_subobjs c' k = Some su \<Longrightarrow> k < cl_next_sub c' \<and> length (su_buf su) \<le> cl_sub_buffer c'"
  shows "client_inv c'"
  using assms(1-3) dispatch_ok_mono [OF _ assms(3,4)] assms(5)
  by (auto simp: client_inv_def) (metis not_None_eq not_less)

lemma client_invD:
  assumes "client_inv c" "cl_subobjs c k = Some su"
  shows "k < cl_next_sub c" "length (su_buf su) \<le> cl_sub_buffer c"
  using assms unfolding client_inv_def by (metis not_less option.distinct(1), blast)

lemma list_all_update: "list_all P xs \<Longrightarrow> P x \<Longrightarrow> list_all P (xs[k := x])"
  by (auto simp: list_all_iff dest: set_update_subset_insert [THEN subsetD])

lemma start_inv:
  assumes "client_inv c" "request_start i m p c = (k, c')"
  shows "client_inv c'"
proof -
  obtain ca where ca: "c' = c\<lparr>cl_calls := cl_calls c @ [ca]\<rparr>" "call_ok ca"
    using assms(2) by (fastforce simp: request_start_def call_ok_def)
  have "dispatch_ok c'"
    unfolding dispatch_ok_def
  proof (intro allI impI)
    fix j l assume "cl_dispatch c' j = Some l"
    then have "l < length (cl_calls c) \<and> ca_id (cl_calls c ! l) = j \<and> ca_chan (cl_calls c ! l) = None \<and> ca_stage (cl_calls c ! l) \<in> {CRegistered, CWaiting}"
      using assms(1) by (simp add: client_inv_def dispatch_ok_def ca(1))
    then show "l < length (cl_calls c') \<and> ca_id (cl_calls c' ! l) = j \<and> ca_chan (cl_calls c' ! l) = None \<and> ca_stage (cl_calls c' ! l) \<in> {CRegistered, CWaiting}"
      by (simp add: ca(1) nth_append)
  qed
  then show ?thesis using assms(1) ca by (simp add: client_inv_def)
qed

lemma register_inv:
  assumes "client_inv c" "request_register k c = Some c'"
  shows "client_inv c'"
proof -
  define ca where "ca = cl_calls c ! k"
  have k: "k < length (cl_calls c)" "ca_stage ca = CChecked"
    and c': "c' = set_stage k CRegistered (disp_register (ca_id ca) k c)"
    using assms(2) by (auto simp: request_register_def ca_def split: if_splits)
  have ca: "call_ok ca" using assms(1) k(1) by (auto simp: client_inv_def list_all_length ca_def)
  then have "call_ok (ca\<lparr>ca_stage := CRegistered\<rparr>)" "ca_chan ca = None" using k(2) by (auto simp: call_ok_def)
  then show ?thesis
    using assms(1) k unfolding c' client_inv_def set_stage_def disp_register_def dispatch_ok_def
    by (auto simp: ca_def nth_list_update intro: list_all_update split: if_splits)
qed

lemma send_inv:
  assumes "client_inv c" "request_send k c = Some c'"
  shows "client_inv c'"
proof -
  define ca where "ca = cl_calls c ! k"
  have k: "k < length (cl_calls c)" "ca_stage ca = CRegistered" "length (cl_outbound c) < OUTBOUND_BUFFER_SIZE"
    and c': "c' = set_stage k CWaiting (c\<lparr>cl_outbound := cl_outbound c @ [ca_request ca]\<rparr>)"
    using assms(2) by (auto simp: request_send_def ca_def split: if_splits)
  have "call_ok ca" using assms(1) k(1) by (auto simp: client_inv_def list_all_length ca_def)
  then have "call_ok (ca\<lparr>ca_stage := CWaiting\<rparr>)" by (auto simp: call_ok_def)
  then show ?thesis
    using assms(1) k unfolding c' client_inv_def set_stage_def dispatch_ok_def
    by (auto simp: ca_def nth_list_update intro: list_all_update split: if_splits)
qed

lemma wait_inv:
  assumes "client_inv c" "request_wait expired k c = Some c'"
  shows "client_inv c'"
proof -
  define ca where "ca = cl_calls c ! k"
  have k: "k < length (cl_calls c)" "ca_stage ca = CWaiting"
    using assms(2) by (auto simp: request_wait_def ca_def Let_def split: if_splits)
  have ca: "call_ok ca" using assms(1) k(1) by (auto simp: client_inv_def list_all_length ca_def)
  from assms(2) consider (err) e where "e \<in> {RpcCore CoreTimeout, RpcChannelRecv}" "c' = disp_unregister (ca_id ca) (set_stage k (CDone (Inl e)) c)"
    | (got) res where "ca_chan ca = Some res" "c' = set_stage k (CDone (check_response_id (ca_id ca) res)) c"
    by (auto simp: request_wait_def ca_def Let_def split: if_splits option.splits)
  then show ?thesis
  proof cases
    case err
    have "call_ok (ca\<lparr>ca_stage := CDone (Inl e)\<rparr>)" using ca err(1) by (auto simp: call_ok_def)
    then show ?thesis
      using assms(1) k unfolding err(2) client_inv_def set_stage_def disp_unregister_def dispatch_ok_def
      by (auto simp: ca_def nth_list_update intro: list_all_update split: if_splits)
  next
    case got
    have id: "rs_id res = Some (json_u32 (ca_id ca))" using ca got(1) by (auto simp: call_ok_def)
    then have "call_ok (ca\<lparr>ca_stage := CDone (check_response_id (ca_id ca) res)\<rparr>)"
      using ca got(1) by (auto simp: call_ok_def check_response_id_def)
    moreover have "\<forall>i. cl_dispatch c i \<noteq> Some k"
      using assms(1) got(1) by (auto simp: client_inv_def dispatch_ok_def ca_def)
    ultimately show ?thesis
      using assms(1) k unfolding got(2) client_inv_def set_stage_def dispatch_ok_def
      by (auto simp: ca_def nth_list_update intro: list_all_update split: if_splits)
  qed
qed

lemma dispatch_inv:
  assumes "client_inv c" "disp_dispatch res c = (r, c')"
  shows "client_inv c' \<and> r \<noteq> Inl (RpcChannelSend ''sending into a closed channel'')"
proof (cases "\<exists>v i k. rs_id res = Some v \<and> as_u32 v = Some i \<and> cl_dispatch c i = Some k")
  case False
  then show ?thesis using assms by (auto simp: disp_dispatch_def split: option.splits)
next
  case True
  then obtain v i k where v: "rs_id res = Some v" "as_u32 v = Some i" "cl_dispatch c i = Some k" by blast
  define ca where "ca = cl_calls c ! k"
  have k: "k < length (cl_calls c)" "ca_id ca = i" "ca_chan ca = None" "ca_stage ca \<in> {CRegistered, CWaiting}"
    using assms(1) v(3) by (auto simp: client_inv_def dispatch_ok_def ca_def)
  have c': "r = Inr ()" "c' = (disp_unregister i c)\<lparr>cl_calls := (cl_calls c)[k := ca\<lparr>ca_chan := Some res\<rparr>]\<rparr>"
    using assms(2) v k by (auto simp: disp_dispatch_def call_over_def ca_def Let_def)
  have "call_ok ca" using assms(1) k(1) by (auto simp: client_inv_def list_all_length ca_def)
  then have "call_ok (ca\<lparr>ca_chan := Some res\<rparr>)" using v k by (auto simp: call_ok_def as_u32_iff)
  moreover have "j = i" if "cl_dispatch c j = Some k" for j
    using that assms(1) k(2) by (auto simp: client_inv_def dispatch_ok_def ca_def)
  ultimately show ?thesis
    using assms(1) k c'(1) unfolding c'(2) client_inv_def disp_unregister_def dispatch_ok_def
    by (auto simp: nth_list_update intro: list_all_update split: if_splits)
qed

lemma subs_notify_inv:
  assumes "client_inv c" "subs_notify nt c = (r, c')"
  shows "client_inv c'"
proof -
  obtain k su v where "c' = c \<or> cl_subobjs c k = Some su \<and> length (su_buf su) < cl_sub_buffer c \<and> c' = c\<lparr>cl_subobjs := (cl_subobjs c)(k \<mapsto> su\<lparr>su_buf := su_buf su @ [v]\<rparr>)\<rparr>"
  proof (cases "Option.bind (cl_subs c (nr_subscription nt)) (\<lambda>k. map_option (Pair k) (cl_subobjs c k))")
    case None
    then show ?thesis using that assms(2) by (simp add: subs_notify_def)
  next
    case (Some ks)
    then show ?thesis
      using that [of "fst ks" "snd ks" "case nr_result nt of Some v \<Rightarrow> v | None \<Rightarrow> JStr []"] assms(2) by (auto simp: subs_notify_def sub_notify_client_def bind_eq_Some_conv split: if_splits)
  qed
  then show ?thesis
  proof
    assume "cl_subobjs c k = Some su \<and> length (su_buf su) < cl_sub_buffer c \<and> c' = c\<lparr>cl_subobjs := (cl_subobjs c)(k \<mapsto> su\<lparr>su_buf := su_buf su @ [v]\<rparr>)\<rparr>"
    then show ?thesis
      by (intro client_inv_same [OF assms(1)]) (auto dest: client_invD [OF assms(1)] split: if_splits)
  qed (use assms(1) in simp)
qed

lemma subs_inv:
  assumes "client_inv c"
  shows "client_inv (subs_clear c)" "client_inv (subs_unsubscribe i c)" "client_inv (snd (subs_subscribe i c))" "client_inv (snd (sub_recv k c))" "client_inv (disp_clear c)"
proof -
  show "client_inv (subs_clear c)"
    by (rule client_inv_same [OF assms]) (auto simp: subs_clear_def dest: client_invD [OF assms])
  show "client_inv (subs_unsubscribe i c)"
  proof (cases "cl_subs c i")
    case (Some k)
    then show ?thesis
      by (intro client_inv_same [OF assms]) (auto simp: subs_unsubscribe_def dest: client_invD [OF assms])
  qed (simp add: subs_unsubscribe_def assms)
  show "client_inv (snd (subs_subscribe i c))"
    by (rule client_inv_same [OF assms]) (auto simp: subs_subscribe_def less_Suc_eq split: if_splits dest: client_invD [OF assms])
  show "client_inv (snd (sub_recv k c))"
  proof (cases "\<exists>su v vs. cl_subobjs c k = Some su \<and> su_buf su = v # vs")
    case True
    then obtain su v vs where su: "cl_subobjs c k = Some su" "su_buf su = v # vs" by blast
    then show ?thesis
      using client_invD(2) [OF assms su(1)] by (intro client_inv_same [OF assms]) (auto simp: sub_recv_def split: if_splits dest: client_invD [OF assms])
  next
    case False
    then show ?thesis using assms by (auto simp: sub_recv_def split: option.splits list.splits)
  qed
  show "client_inv (disp_clear c)"
    by (rule client_inv_same [OF assms]) (auto simp: disp_clear_def dest: client_invD [OF assms])
qed

lemma client_inv_io: "client_inv c \<Longrightarrow> client_inv (c\<lparr>cl_io := st\<rparr>)" "client_inv c \<Longrightarrow> client_inv (c\<lparr>cl_disconnect := b, cl_io := st\<rparr>)"
  by (simp_all add: client_inv_def dispatch_ok_def)

lemma mux_inv:
  assumes "client_inv c" "handle_mux_msg decoder msg c = (r, c')"
  shows "client_inv c'"
  using assms dispatch_inv [OF assms(1)] subs_notify_inv [OF assms(1)]
  by (auto simp: handle_mux_msg_def split: option.splits new_msg.splits sum.splits)

lemma io_inv:
  assumes "client_inv c" "io_write sent c = Some c' \<or> io_read decoder got c = Some c' \<or> io_callback c = Some c'"
  shows "client_inv c'"
  using assms(2)
proof (elim disjE)
  assume "io_write sent c = Some c'"
  then have "cl_calls c' = cl_calls c \<and> cl_dispatch c' = cl_dispatch c \<and> cl_subobjs c' = cl_subobjs c \<and> cl_next_sub c' = cl_next_sub c \<and>
      cl_sub_buffer c' = cl_sub_buffer c \<and> length (cl_outbound c') \<le> length (cl_outbound c)"
    by (auto simp: io_write_def Let_def split: if_splits list.splits sum.splits)
  then show ?thesis
    by (intro client_inv_same [OF assms(1)]) (auto dest: client_invD [OF assms(1)])
next
  assume "io_read decoder got c = Some c'"
  then show ?thesis
    using assms(1) mux_inv [OF assms(1)] by (auto simp: io_read_def client_inv_io split: if_splits sum.splits prod.splits)
next
  assume "io_callback c = Some c'"
  then show ?thesis
    using assms(1) subs_inv [OF assms(1)] by (auto simp: client_inv_io split: io_stage.splits)
qed

lemma subscribe_cases:
  assumes "subscribe_finish r c = (out, c')"
  obtains "c' = c" | i where "c' = snd (subs_subscribe i c)"
  using assms by (auto simp: subscribe_finish_def subs_subscribe_def split: sum.splits option.splits)

lemma client_step_inv:
  assumes "client_inv c" "client_step decoder c c'"
  shows "client_inv c'"
  using assms(2)
proof cases
  case (cl_subscribe ca r o')
  from cl_subscribe(3) show ?thesis
    by (cases rule: subscribe_cases) (simp_all add: assms(1) subs_inv(3))
next
  case (cl_unsubscribe ca r i o')
  then have "c' = c \<or> c' = subs_unsubscribe i c"
    by (simp add: unsubscribe_finish_def split: sum.splits)
  then show ?thesis using assms(1) subs_inv(2) by blast
next
  case (cl_recv k v)
  then show ?thesis using subs_inv(4) [OF assms(1), of k] by simp
next
  case cl_cancel
  then show ?thesis using assms(1) client_inv_io by blast
next
  case cl_start
  then show ?thesis using start_inv [OF assms(1)] by simp
next
  case cl_register
  then show ?thesis using register_inv [OF assms(1)] by simp
next
  case cl_send
  then show ?thesis using send_inv [OF assms(1)] by simp
next
  case cl_wait
  then show ?thesis using wait_inv [OF assms(1)] by simp
next
  case (cl_write sent)
  then show ?thesis using io_inv [OF assms(1), of sent] by simp
next
  case (cl_read got)
  then show ?thesis using io_inv [OF assms(1), of _ _ decoder got] by blast
next
  case cl_callback
  then show ?thesis using io_inv [OF assms(1)] by blast
qed

interpretation client_runs: step_invariant "client_step decoder" client_inv
  for decoder
  by unfold_locales (rule client_step_inv)

lemma client_init_inv: "client_inv (build_backend_state n)"
  by (simp add: client_inv_def build_backend_state_def dispatch_ok_def)

text \<open>C17. Calls over a shared connection, under every interleaving and whatever the server sends.  A call that succeeds returns a response with the
  id of its own request; it fails only because the client was disconnected, the timeout expired or the connection was
  lost, never because the response was for another call, as the dispatcher never hands one over.  A call registered with the dispatcher is waiting and has no response
  yet, the outbound queue holds at most ten requests, and no subscription holds more notifications than its buffer.\<close>

theorem calls_sound:
  assumes "(client_step decoder)\<^sup>*\<^sup>* (build_backend_state n) c"
  shows "(\<forall>ca \<in> set (cl_calls c). case ca_stage ca of
        CDone (Inr res) \<Rightarrow> rs_id res = Some (json_u32 (ca_id ca))
      | CDone (Inl e) \<Rightarrow> e \<in> {ClientDisconnected, RpcCore CoreTimeout, RpcChannelRecv}
      | _ \<Rightarrow> True) \<and>
    (\<forall>i k. cl_dispatch c i = Some k \<longrightarrow> k < length (cl_calls c) \<and> ca_id (cl_calls c ! k) = i \<and> ca_chan (cl_calls c ! k) = None \<and> \<not> call_over (cl_calls c ! k)) \<and>
    length (cl_outbound c) \<le> OUTBOUND_BUFFER_SIZE \<and> (\<forall>k su. cl_subobjs c k = Some su \<longrightarrow> length (su_buf su) \<le> cl_sub_buffer c)"
proof -
  have inv: "client_inv c" by (rule client_runs.reachable_inv [OF assms client_init_inv])
  have "case ca_stage ca of CDone (Inr res) \<Rightarrow> rs_id res = Some (json_u32 (ca_id ca))
      | CDone (Inl e) \<Rightarrow> e \<in> {ClientDisconnected, RpcCore CoreTimeout, RpcChannelRecv} | _ \<Rightarrow> True" if "ca \<in> set (cl_calls c)" for ca
  proof -
    have "call_ok ca" using inv that by (auto simp: client_inv_def list_all_iff)
    then show ?thesis by (auto simp: call_ok_def split: call_stage.splits sum.splits)
  qed
  moreover have "\<forall>i k. cl_dispatch c i = Some k \<longrightarrow> k < length (cl_calls c) \<and> ca_id (cl_calls c ! k) = i \<and> ca_chan (cl_calls c ! k) = None \<and> \<not> call_over (cl_calls c ! k)"
    using inv by (fastforce simp: client_inv_def dispatch_ok_def call_over_def)
  ultimately show ?thesis using inv by (simp add: client_inv_def)
qed

section \<open>A call from end to end\<close>

lemma response_not_notification: "new_msg_from_value (response_to_value r) = map_option MsgResponse (response_from_value (response_to_value r))"
proof -
  have "notification_from_value (response_to_value r) = None"
    by (cases "rs_error r"; cases "rs_id r"; cases "rs_result r") (simp_all add: notification_from_value_def response_to_value_def)
  then show ?thesis by (simp add: new_msg_from_value_def)
qed

lemma notification_is_notification: "new_msg_from_value (notification_to_value n) = Some (MsgNotification (n\<lparr>nt_params := as_option (nt_params n)\<rparr>))"
  by (simp add: new_msg_from_value_def notification_from_value_def notification_to_value_def)

lemma response_read_back:
  "rs_id r = Some (json_u32 i) \<Longrightarrow> response_from_value (response_to_value r) =
     Some (r\<lparr>rs_result := as_option (rs_result r), rs_error := map_option error_norm (rs_error r)\<rparr>)"
  by (cases "rs_error r") (simp_all add: response_from_value_def response_to_value_def error_roundtrip json_u32_def)

text \<open>C7. A call of a method of a service, from the request to the value the caller gets.  The server resolves the service up to the first
  dot and the method behind it, and the caller receives the result of the method on the parameters it sent, or a call error with the code and
  message of the method's error.  The exception is the result null, which a method without a value returns: the caller gets an invalid
  message error instead of the value.\<close>

theorem call_end_to_end:
  assumes "sv_services S srvc = Some s" "s meth = Some f" "Option.bind (sv_pubsub S srvc) (\<lambda>s. s meth) = None" "CHR ''.'' \<notin> set srvc"
    and "(client_step decoder)\<^sup>*\<^sup>* (build_backend_state n) c" "cl_io c = IoRunning" "cl_outbound c = []"
    and "cl_dispatch c i = Some k" "ca_stage (cl_calls c ! k) = CWaiting" "ca_request (cl_calls c ! k) = request_to_value (mux_request i (srvc @ ''.'' @ meth) p)"
  shows "\<exists>c1 c2 out. io_read decoder (Inr (response_to_value (fst (handle_request S ch (ca_request (cl_calls c ! k)))))) c = Some c1 \<and>
    request_wait False k c1 = Some c2 \<and> ca_stage (cl_calls c2 ! k) = CDone out \<and>
    call_result de out = (case f p of
        Inr JNull \<Rightarrow> Inl (RpcInvalidMsg ''Invalid response result'')
      | Inr v \<Rightarrow> ok_or ParseJSON (de v)
      | Inl e \<Rightarrow> Inl (CallError (er_code (error_of e None)) (er_message (error_of e None))))"
proof -
  have inv: "client_inv c" by (rule client_runs.reachable_inv [OF assms(5) client_init_inv])
  then have k: "k < length (cl_calls c)" "ca_id (cl_calls c ! k) = i" using assms(8) by (auto simp: client_inv_def dispatch_ok_def)
  define q where "q = mux_request i (srvc @ ''.'' @ meth) p"
  have "request_from_value (request_to_value q) = Some (q\<lparr>rq_params := as_option (Some p)\<rparr>)"
    by (simp add: request_from_value_def request_to_value_def q_def mux_request_def)
  then have "sanity_check (request_to_value q) = NewReq \<lparr>nq_srvc_name = srvc, nq_method_name = meth, nq_msg = q\<lparr>rq_params := as_option (Some p)\<rparr>\<rparr>"
    using assms(4) by (intro sanity_check_method) (auto simp: q_def mux_request_def)
  moreover have "(case as_option (Some p) of Some x \<Rightarrow> x | None \<Rightarrow> JNull) = p" by (cases p) simp_all
  ultimately have "fst (handle_request S ch (request_to_value q)) = respond (json_u32 i) (f p)"
    using assms(1-3) by (simp add: handle_request_def resolve_handler_def q_def mux_request_def)
  then have res: "fst (handle_request S ch (ca_request (cl_calls c ! k))) = respond (json_u32 i) (f p)"
    using assms(10) by (simp add: q_def)
  define r where "r = respond (json_u32 i) (f p)"
  have rid: "rs_id r = Some (json_u32 i)" by (simp add: r_def respond_def to_response_def split: sum.split)
  define r' where "r' = r\<lparr>rs_result := as_option (rs_result r), rs_error := map_option error_norm (rs_error r)\<rparr>"
  have over: "\<not> call_over (cl_calls c ! k)" using assms(9) by (simp add: call_over_def)
  define c1 where "c1 = (disp_unregister i c)\<lparr>cl_calls := (cl_calls c)[k := (cl_calls c ! k)\<lparr>ca_chan := Some r'\<rparr>]\<rparr>"
  have "handle_mux_msg decoder (response_to_value r) c = (Inr (), c1)"
    using rid assms(8) over by (simp add: handle_mux_msg_def response_not_notification response_read_back [OF rid] r'_def c1_def disp_dispatch_def Let_def)
  then have read: "io_read decoder (Inr (response_to_value r)) c = Some c1"
    using assms(6,7) by (simp add: io_read_def)
  define c2 where "c2 = set_stage k (CDone (Inr r')) c1"
  have "request_wait False k c1 = Some c2"
    using k assms(9) rid by (simp add: request_wait_def c1_def c2_def disp_unregister_def Let_def check_response_id_def r'_def)
  moreover have "ca_stage (cl_calls c2 ! k) = CDone (Inr r')"
    using k(1) by (simp add: c2_def c1_def set_stage_def disp_unregister_def)
  moreover have "call_result de (Inr r') = (case f p of
        Inr JNull \<Rightarrow> Inl (RpcInvalidMsg ''Invalid response result'')
      | Inr v \<Rightarrow> ok_or ParseJSON (de v)
      | Inl e \<Rightarrow> Inl (CallError (er_code (error_of e None)) (er_message (error_of e None))))"
    by (auto simp: call_result_def r'_def r_def respond_def to_response_def response_default_def error_norm_def split: sum.splits json.splits)
  ultimately show ?thesis using read unfolding res r_def [symmetric] by blast
qed

text \<open>What becomes of a notification the server sends for a subscription.  If the client has the subscription, the value is appended to its
  buffer; if the buffer is full, the whole connection ends, with every other call and subscription on it.  If the client does not have it, the notification is dropped,
  which also happens to those that arrive before the caller of \<open>subscribe\<close>, whose response has already come, has run on.  A null value arrives as an empty string.\<close>

lemma notification_delivery:
  assumes "cl_io c = IoRunning" "cl_outbound c = []"
  shows "io_read default_notification_decoder (Inr (notification_to_value (default_notification_encoder nn))) c =
    Some (case Option.bind (cl_subs c (nn_sub_id nn)) (\<lambda>k. map_option (Pair k) (cl_subobjs c k)) of
        None \<Rightarrow> c
      | Some (k, su) \<Rightarrow> if cl_sub_buffer c \<le> length (su_buf su) then c\<lparr>cl_io := IoEnded\<rparr>
          else if su_closed su then c
          else c\<lparr>cl_subobjs := (cl_subobjs c)(k \<mapsto> su\<lparr>su_buf := su_buf su @ [if nn_result nn = JNull then JStr '''' else nn_result nn]\<rparr>)\<rparr>)"
proof -
  have "default_notification_decoder ((default_notification_encoder nn)\<lparr>nt_params := as_option (nt_params (default_notification_encoder nn))\<rparr>) =
      Inr \<lparr>nr_result = as_option (Some (nn_result nn)), nr_subscription = nn_sub_id nn\<rparr>"
    by (simp add: default_notification_decoder_def default_notification_encoder_def notification_result_to_value_def notification_result_from_value_def ok_or_def)
  moreover have "(case as_option (Some (nn_result nn)) of Some v \<Rightarrow> v | None \<Rightarrow> JStr []) = (if nn_result nn = JNull then JStr '''' else nn_result nn)"
    by (cases "nn_result nn") simp_all
  ultimately show ?thesis
    using assms by (auto simp: io_read_def handle_mux_msg_def notification_is_notification subs_notify_def sub_notify_client_def split: option.splits)
qed

text \<open>A call under way, its request written.\<close>

definition ex_call :: rpc_call where
  "ex_call = \<lparr>ca_id = 7, ca_request = request_to_value (mux_request 7 ''Calc.math.id'' (JStr ''x'')), ca_stage = CWaiting, ca_chan = None\<rparr>"

definition ex_client :: rpc_client where
  "ex_client = (build_backend_state 1)\<lparr>cl_dispatch := [7 \<mapsto> 0], cl_calls := [ex_call], cl_written := [ca_request ex_call]\<rparr>"

lemma ex_client_run: "(client_step default_notification_decoder)\<^sup>*\<^sup>* (build_backend_state 1) ex_client"
proof -
  let ?step = "client_step default_notification_decoder" and ?b = "build_backend_state 1"
  define c1 where "c1 = ?b\<lparr>cl_calls := [ex_call\<lparr>ca_stage := CChecked\<rparr>]\<rparr>"
  define c2 where "c2 = ?b\<lparr>cl_dispatch := [7 \<mapsto> 0], cl_calls := [ex_call\<lparr>ca_stage := CRegistered\<rparr>]\<rparr>"
  define c3 where "c3 = ?b\<lparr>cl_dispatch := [7 \<mapsto> 0], cl_outbound := [ca_request ex_call], cl_calls := [ex_call]\<rparr>"
  note defs = build_backend_state_def ex_call_def set_stage_def
  have "request_start 7 ''Calc.math.id'' (JStr ''x'') ?b = (0, c1)" by (simp add: request_start_def c1_def defs)
  then have "?step ?b c1" by (rule cl_start)
  moreover have "request_register 0 c1 = Some c2" by (simp add: request_register_def c1_def c2_def defs disp_register_def)
  then have "?step c1 c2" by (rule cl_register)
  moreover have "request_send 0 c2 = Some c3" by (simp add: request_send_def c2_def c3_def defs OUTBOUND_BUFFER_SIZE_def)
  then have "?step c2 c3" by (rule cl_send)
  moreover have "io_write (Inr ()) c3 = Some ex_client" by (simp add: io_write_def c3_def ex_client_def defs)
  then have "?step c3 ex_client" by (rule cl_write)
  ultimately show ?thesis by (meson rtranclp.rtrancl_into_rtrancl rtranclp.rtrancl_refl)
qed

theorem calls_sound_witness: "cl_dispatch ex_client 7 = Some 0 \<and> ca_id (cl_calls ex_client ! 0) = 7 \<and> ca_chan (cl_calls ex_client ! 0) = None"
proof -
  have "cl_dispatch ex_client 7 = Some 0" by (simp add: ex_client_def)
  with calls_sound [OF ex_client_run] show ?thesis by blast
qed

theorem call_end_to_end_witness:
  "\<exists>c1 c2 out. io_read default_notification_decoder (Inr (response_to_value (fst (handle_request ex_services None (ca_request (cl_calls ex_client ! 0)))))) ex_client = Some c1 \<and>
    request_wait False 0 c1 = Some c2 \<and> ca_stage (cl_calls c2 ! 0) = CDone out \<and> call_result as_string out = Inr ''x''"
  using call_end_to_end [of ex_services "''Calc''" "[''math.id'' \<mapsto> (\<lambda>p. Inr p)]" "''math.id''" "\<lambda>p. Inr p" default_notification_decoder 1 ex_client 7 0 "JStr ''x''" None as_string,
      OF _ _ _ _ ex_client_run]
  by (simp add: ex_services_def ex_client_def ex_call_def build_backend_state_def ok_or_def)

lemma notification_delivery_witness:
  "io_read default_notification_decoder (Inr (notification_to_value (default_notification_encoder \<lparr>nn_sub_id = 3, nn_result = JNull, nn_method = ''S.log''\<rparr>)))
     (snd (subs_subscribe 3 (build_backend_state 1))) =
   Some ((snd (subs_subscribe 3 (build_backend_state 1)))\<lparr>cl_subobjs := [0 \<mapsto> \<lparr>su_id = 3, su_buf = [JStr ''''], su_closed = False\<rparr>]\<rparr>)"
  using notification_delivery [of "snd (subs_subscribe 3 (build_backend_state 1))" "\<lparr>nn_sub_id = 3, nn_result = JNull, nn_method = ''S.log''\<rparr>"]
  by (simp add: subs_subscribe_def build_backend_state_def)

end
