(* ===== verification/Swarm.thy ===== *)
theory Swarm
  imports P2p_Node
begin

text \<open>
  The swarm layer (\<open>swarm/src/lib.rs\<close> and \<open>swarm/src/swarm_key.rs\<close>): groups of connected peers by protocol on top of the node.
  Every function of the source is one operation here; the node is the model of \<open>P2p_Node\<close>, SHA-256 is an argument.
\<close>

section \<open>State\<close>

type_synonym swarm_key = bytes

record swarm_info =
  si_protocol :: protocol_id
  si_peers :: "peer_id set"

record swarm =
  sw_node :: node
  sw_swarms :: "swarm_key \<rightharpoonup> swarm_info"
  sw_index :: "peer_id \<rightharpoonup> swarm_key set"

definition swarm_new :: "node \<Rightarrow> swarm" where
  "swarm_new n = \<lparr>sw_node = n, sw_swarms = Map.empty, sw_index = Map.empty\<rparr>"

definition swarm_key_from_protocol :: "(bytes \<Rightarrow> bytes) \<Rightarrow> protocol_id \<Rightarrow> swarm_key" where
  "swarm_key_from_protocol sha256 p = sha256 (as_bytes p)"

definition compute_swarm_key :: "(bytes \<Rightarrow> bytes) \<Rightarrow> protocol_id \<Rightarrow> string \<Rightarrow> swarm_key" where
  "compute_swarm_key sha256 p inst = sha256 (as_bytes p @ as_bytes '':'' @ as_bytes inst)"

section \<open>Membership\<close>

definition node_view :: "node \<Rightarrow> peer_id \<Rightarrow> protocol_id list option" where
  "node_view n pid = peer_protocol_set (nd_pool n) pid"

definition add_member :: "swarm_key \<Rightarrow> peer_id \<Rightarrow> (swarm_key \<rightharpoonup> swarm_info) \<Rightarrow> (swarm_key \<rightharpoonup> swarm_info)" where
  "add_member k pid m = (case m k of None \<Rightarrow> m | Some i \<Rightarrow> m(k \<mapsto> i\<lparr>si_peers := insert pid (si_peers i)\<rparr>))"

definition on_peer_added :: "peer_id \<Rightarrow> swarm \<Rightarrow> swarm" where
  "on_peer_added pid s = (case node_view (sw_node s) pid of
      None \<Rightarrow> s
    | Some protos \<Rightarrow>
        (let joined = {k. \<exists>i. sw_swarms s k = Some i \<and> si_protocol i \<in> set protos};
             s1 = s\<lparr>sw_swarms := (\<lambda>k. map_option (\<lambda>i. if k \<in> joined then i\<lparr>si_peers := insert pid (si_peers i)\<rparr> else i) (sw_swarms s k))\<rparr>
         in if joined = {} then s1 else s1\<lparr>sw_index := (sw_index s)(pid \<mapsto> joined)\<rparr>))"

definition on_peer_removed :: "peer_id \<Rightarrow> swarm \<Rightarrow> swarm" where
  "on_peer_removed pid s = (case sw_index s pid of
      None \<Rightarrow> s
    | Some ks \<Rightarrow> s\<lparr>sw_index := (sw_index s)(pid := None),
        sw_swarms := (\<lambda>k. map_option (\<lambda>i. if k \<in> ks then i\<lparr>si_peers := si_peers i - {pid}\<rparr> else i) (sw_swarms s k))\<rparr>)"

text \<open>\<open>scan_peers_for_swarm\<close>: one peer, and all connected peers in turn.\<close>

definition scan_one :: "swarm_key \<Rightarrow> protocol_id \<Rightarrow> peer_id \<Rightarrow> swarm \<Rightarrow> swarm" where
  "scan_one k p pid s = (case node_view (sw_node s) pid of
      None \<Rightarrow> s
    | Some protos \<Rightarrow> if p \<in> set protos
        then s\<lparr>sw_swarms := add_member k pid (sw_swarms s),
               sw_index := (sw_index s)(pid \<mapsto> insert k (case sw_index s pid of Some ks \<Rightarrow> ks | None \<Rightarrow> {}))\<rparr>
        else s)"

definition scan_peers_for_swarm :: "swarm_key \<Rightarrow> protocol_id \<Rightarrow> swarm \<Rightarrow> swarm" where
  "scan_peers_for_swarm k p s = (let pids = map fst (inbound_peers (nd_pool (sw_node s))) @ map fst (outbound_peers (nd_pool (sw_node s)))
     in if sw_swarms s k = None then s else fold (scan_one k p) pids s)"

text \<open>\<open>join_inner\<close>; \<open>ver\<close> and \<open>flags\<close> are the version and the flags of the protocol.\<close>

definition join_inner ::
  "(bytes \<Rightarrow> u64) \<Rightarrow> p2p_error + version \<Rightarrow> protocol_flags \<Rightarrow> protocol_id \<Rightarrow> swarm_key \<Rightarrow> swarm \<Rightarrow> (p2p_error + swarm_key) \<times> swarm" where
  "join_inner sip ver flags p k s = (case node_attach_protocol sip as_bytes p ver flags (sw_node s) of
      (Inl e, n) \<Rightarrow> (Inl e, s\<lparr>sw_node := n\<rparr>)
    | (Inr _, n) \<Rightarrow> (Inr k, scan_peers_for_swarm k p (s\<lparr>sw_node := node_advertise sip k PREFERRED n,
        sw_swarms := (sw_swarms s)(k \<mapsto> \<lparr>si_protocol = p, si_peers = {}\<rparr>)\<rparr>)))"

definition swarm_join ::
  "(bytes \<Rightarrow> bytes) \<Rightarrow> (bytes \<Rightarrow> u64) \<Rightarrow> p2p_error + version \<Rightarrow> protocol_flags \<Rightarrow> protocol_id \<Rightarrow> swarm \<Rightarrow> (p2p_error + swarm_key) \<times> swarm" where
  "swarm_join sha256 sip ver flags p s = join_inner sip ver flags p (swarm_key_from_protocol sha256 p) s"

definition join_with_instance ::
  "(bytes \<Rightarrow> bytes) \<Rightarrow> (bytes \<Rightarrow> u64) \<Rightarrow> p2p_error + version \<Rightarrow> protocol_flags \<Rightarrow> protocol_id \<Rightarrow> string \<Rightarrow> swarm \<Rightarrow> (p2p_error + swarm_key) \<times> swarm" where
  "join_with_instance sha256 sip ver flags p inst s = join_inner sip ver flags p (compute_swarm_key sha256 p inst) s"

definition swarm_leave :: "swarm_key \<Rightarrow> swarm \<Rightarrow> swarm" where
  "swarm_leave k s = s\<lparr>sw_swarms := (sw_swarms s)(k := None), sw_index := (\<lambda>pid. map_option (\<lambda>ks. ks - {k}) (sw_index s pid))\<rparr>"

definition swarm_peers :: "swarm_key \<Rightarrow> swarm \<Rightarrow> peer_id set" where
  "swarm_peers k s = (case sw_swarms s k of Some i \<Rightarrow> si_peers i | None \<Rightarrow> {})"

definition swarm_peers_len :: "swarm_key \<Rightarrow> swarm \<Rightarrow> nat" where
  "swarm_peers_len k s = (case sw_swarms s k of Some i \<Rightarrow> card (si_peers i) | None \<Rightarrow> 0)"

text \<open>\<open>broadcast\<close> up to the point where the pool serves the peers.\<close>

definition swarm_broadcast :: "swarm_key \<Rightarrow> bytes \<Rightarrow> swarm \<Rightarrow> broadcasting option" where
  "swarm_broadcast k msg s = (case sw_swarms s k of
      None \<Rightarrow> None
    | Some i \<Rightarrow> Some (broadcast_begin (si_protocol i) msg (Some (si_peers i)) (nd_pool (sw_node s))))"

definition find_peers :: "(bytes \<Rightarrow> u64) \<Rightarrow> swarm_key \<Rightarrow> swarm \<Rightarrow> discovered_peer list" where
  "find_peers sip k s = find_peers_with sip k (nd_kad (sw_node s))"

definition monitor_event :: "peer_event \<Rightarrow> swarm \<Rightarrow> swarm" where
  "monitor_event ev s = (case ev of
      Added pid \<Rightarrow> on_peer_added pid s
    | Removed pid \<Rightarrow> on_peer_removed pid s
    | HandshakeFailed _ \<Rightarrow> s)"

section \<open>Specification of the membership\<close>

text \<open>Which protocols each announced peer has negotiated.  A swarm should hold exactly the peers that have its protocol.\<close>

type_synonym roster = "peer_id \<rightharpoonup> protocol_id set"

definition spec_members :: "roster \<Rightarrow> protocol_id \<Rightarrow> peer_id set" where
  "spec_members r p = {pid. \<exists>P. r pid = Some P \<and> p \<in> P}"

datatype swarm_op = OpAdded peer_id "protocol_id set" | OpRemoved peer_id | OpJoin protocol_id swarm_key | OpLeave swarm_key

fun spec_op :: "swarm_op \<Rightarrow> roster \<Rightarrow> roster" where
  "spec_op (OpAdded pid P) r = r(pid \<mapsto> P)"
| "spec_op (OpRemoved pid) r = r(pid := None)"
| "spec_op (OpJoin p k) r = r"
| "spec_op (OpLeave k) r = r"

text \<open>One operation of the swarm in the node \<open>n\<close> of its time.\<close>

fun swarm_op_exec :: "(bytes \<Rightarrow> u64) \<Rightarrow> p2p_error + version \<Rightarrow> protocol_flags \<Rightarrow> swarm_op \<Rightarrow> node \<Rightarrow> swarm \<Rightarrow> swarm" where
  "swarm_op_exec sip ver flags (OpAdded pid P) n s = monitor_event (Added pid) (s\<lparr>sw_node := n\<rparr>)"
| "swarm_op_exec sip ver flags (OpRemoved pid) n s = monitor_event (Removed pid) (s\<lparr>sw_node := n\<rparr>)"
| "swarm_op_exec sip ver flags (OpJoin p k) n s = snd (join_inner sip ver flags p k (s\<lparr>sw_node := n\<rparr>))"
| "swarm_op_exec sip ver flags (OpLeave k) n s = swarm_leave k (s\<lparr>sw_node := n\<rparr>)"

text \<open>The node at the time of an operation: an added peer is still connected with the protocols announced, which do not
  change before it is removed, and at a join the connected peers are the announced ones.\<close>

fun op_fits :: "roster \<Rightarrow> swarm_op \<Rightarrow> node \<Rightarrow> bool" where
  "op_fits r (OpAdded pid P) n \<longleftrightarrow> map_option set (node_view n pid) = Some P \<and> (r pid = None \<or> r pid = Some P)"
| "op_fits r (OpRemoved pid) n \<longleftrightarrow> True"
| "op_fits r (OpJoin p k) n \<longleftrightarrow> (\<forall>pid. map_option set (node_view n pid) = r pid)"
| "op_fits r (OpLeave k) n \<longleftrightarrow> True"

fun swarm_run :: "(bytes \<Rightarrow> u64) \<Rightarrow> p2p_error + version \<Rightarrow> protocol_flags \<Rightarrow> (swarm_op \<times> node) list \<Rightarrow> swarm \<Rightarrow> swarm" where
  "swarm_run sip ver flags [] s = s"
| "swarm_run sip ver flags ((op, n) # ops) s = swarm_run sip ver flags ops (swarm_op_exec sip ver flags op n s)"

fun run_fits :: "roster \<Rightarrow> (swarm_op \<times> node) list \<Rightarrow> bool" where
  "run_fits r [] \<longleftrightarrow> True"
| "run_fits r ((op, n) # ops) \<longleftrightarrow> op_fits r op n \<and> run_fits (spec_op op r) ops"

section \<open>Refinement\<close>

definition swarm_rel :: "roster \<Rightarrow> swarm \<Rightarrow> bool" where
  "swarm_rel r s \<longleftrightarrow> (\<forall>k i. sw_swarms s k = Some i \<longrightarrow> si_peers i = spec_members r (si_protocol i)) \<and>
     (\<forall>pid P k i. r pid = Some P \<longrightarrow> sw_swarms s k = Some i \<longrightarrow> si_protocol i \<in> P \<longrightarrow> (\<exists>ks. sw_index s pid = Some ks \<and> k \<in> ks))"

lemma swarm_relD:
  assumes "swarm_rel r s" "sw_swarms s k = Some i"
  shows "si_peers i = spec_members r (si_protocol i)"
    and "\<lbrakk>r pid = Some P; si_protocol i \<in> P\<rbrakk> \<Longrightarrow> \<exists>ks. sw_index s pid = Some ks \<and> k \<in> ks"
  using assms unfolding swarm_rel_def by blast+

lemma added_rel:
  assumes "swarm_rel r s" "map_option set (node_view (sw_node s) pid) = Some P" "r pid = None \<or> r pid = Some P"
  shows "swarm_rel (r(pid \<mapsto> P)) (on_peer_added pid s)"
proof -
  obtain protos where protos: "node_view (sw_node s) pid = Some protos" "P = set protos" using assms(2) by auto
  define joined where "joined = {k. \<exists>i. sw_swarms s k = Some i \<and> si_protocol i \<in> P}"
  have sw: "sw_swarms (on_peer_added pid s) k = map_option (\<lambda>i. if k \<in> joined then i\<lparr>si_peers := insert pid (si_peers i)\<rparr> else i) (sw_swarms s k)" for k
    using protos by (simp add: on_peer_added_def joined_def Let_def)
  have ix: "sw_index (on_peer_added pid s) = (if joined = {} then sw_index s else (sw_index s)(pid \<mapsto> joined))"
    using protos by (auto simp: on_peer_added_def joined_def Let_def)
  have mem: "spec_members (r(pid \<mapsto> P)) p = (if p \<in> P then insert pid (spec_members r p) else spec_members r p)" for p
    using assms(3) by (auto simp: spec_members_def)
  show ?thesis
    unfolding swarm_rel_def
  proof (intro conjI allI impI)
    fix k i' assume "sw_swarms (on_peer_added pid s) k = Some i'"
    then obtain i where i: "sw_swarms s k = Some i" "i' = (if k \<in> joined then i\<lparr>si_peers := insert pid (si_peers i)\<rparr> else i)"
      unfolding sw by auto
    have "k \<in> joined \<longleftrightarrow> si_protocol i \<in> P" using i(1) by (simp add: joined_def)
    then show "si_peers i' = spec_members (r(pid \<mapsto> P)) (si_protocol i')"
      using swarm_relD(1) [OF assms(1) i(1)] by (simp add: i(2) mem)
  next
    fix q Q k i' assume q: "(r(pid \<mapsto> P)) q = Some Q" "sw_swarms (on_peer_added pid s) k = Some i'" "si_protocol i' \<in> Q"
    then obtain i where i: "sw_swarms s k = Some i" "si_protocol i = si_protocol i'"
      unfolding sw by (auto split: if_splits)
    show "\<exists>ks. sw_index (on_peer_added pid s) q = Some ks \<and> k \<in> ks"
    proof (cases "q = pid")
      case True
      then have "k \<in> joined" using q i by (auto simp: joined_def)
      then show ?thesis using True by (auto simp: ix)
    next
      case False
      then show ?thesis using swarm_relD(2) [OF assms(1) i(1), of q Q] q i(2) by (simp add: ix)
    qed
  qed
qed

lemma removed_rel:
  assumes "swarm_rel r s"
  shows "swarm_rel (r(pid := None)) (on_peer_removed pid s)"
proof (cases "sw_index s pid")
  case None
  have "pid \<notin> spec_members r (si_protocol i)" if "sw_swarms s k = Some i" for k i
    using swarm_relD(2) [OF assms that, of pid] None by (auto simp: spec_members_def)
  then have "spec_members (r(pid := None)) (si_protocol i) = spec_members r (si_protocol i)" if "sw_swarms s k = Some i" for k i
    using that by (auto simp: spec_members_def)
  then show ?thesis using assms None by (auto simp: swarm_rel_def on_peer_removed_def)
next
  case (Some ks)
  have sw: "sw_swarms (on_peer_removed pid s) k = map_option (\<lambda>i. if k \<in> ks then i\<lparr>si_peers := si_peers i - {pid}\<rparr> else i) (sw_swarms s k)" for k
    by (simp add: on_peer_removed_def Some)
  have mem: "spec_members (r(pid := None)) p = spec_members r p - {pid}" for p
    by (auto simp: spec_members_def)
  show ?thesis
    unfolding swarm_rel_def
  proof (intro conjI allI impI)
    fix k i' assume "sw_swarms (on_peer_removed pid s) k = Some i'"
    then obtain i where i: "sw_swarms s k = Some i" "i' = (if k \<in> ks then i\<lparr>si_peers := si_peers i - {pid}\<rparr> else i)"
      unfolding sw by auto
    have "k \<in> ks" if "pid \<in> spec_members r (si_protocol i)"
      using that swarm_relD(2) [OF assms i(1), of pid] Some by (auto simp: spec_members_def)
    then show "si_peers i' = spec_members (r(pid := None)) (si_protocol i')"
      using swarm_relD(1) [OF assms i(1)] by (auto simp: i(2) mem)
  next
    fix q Q k i' assume q: "(r(pid := None)) q = Some Q" "sw_swarms (on_peer_removed pid s) k = Some i'" "si_protocol i' \<in> Q"
    then obtain i where i: "sw_swarms s k = Some i" "si_protocol i = si_protocol i'"
      unfolding sw by (auto split: if_splits)
    then show "\<exists>ks. sw_index (on_peer_removed pid s) q = Some ks \<and> k \<in> ks"
      using swarm_relD(2) [OF assms i(1), of q Q] q by (auto simp: on_peer_removed_def Some split: if_splits)
  qed
qed

lemma leave_rel: "swarm_rel r s \<Longrightarrow> swarm_rel r (swarm_leave k s)"
  by (fastforce simp: swarm_rel_def swarm_leave_def split: if_splits)

text \<open>What the scan of a list of peers adds.\<close>

lemma scan_fold:
  assumes "sw_swarms s k = Some i"
  shows "sw_node (fold (scan_one k p) pids s) = sw_node s \<and>
    sw_swarms (fold (scan_one k p) pids s) = (sw_swarms s)(k \<mapsto> i\<lparr>si_peers := si_peers i \<union> {pid \<in> set pids. \<exists>l. node_view (sw_node s) pid = Some l \<and> p \<in> set l}\<rparr>) \<and>
    (\<forall>q. (\<forall>ks. sw_index s q = Some ks \<longrightarrow> (\<exists>ks'. sw_index (fold (scan_one k p) pids s) q = Some ks' \<and> ks \<subseteq> ks')) \<and>
      (q \<in> set pids \<longrightarrow> (\<exists>l. node_view (sw_node s) q = Some l \<and> p \<in> set l) \<longrightarrow> (\<exists>ks. sw_index (fold (scan_one k p) pids s) q = Some ks \<and> k \<in> ks)))"
  using assms
proof (induction pids arbitrary: s i)
  case Nil
  then show ?case by (auto simp: fun_upd_idem)
next
  case (Cons pid pids)
  define hit where "hit \<longleftrightarrow> (\<exists>l. node_view (sw_node s) pid = Some l \<and> p \<in> set l)"
  define s1 where "s1 = scan_one k p pid s"
  have s1: "sw_node s1 = sw_node s" "sw_swarms s1 = (if hit then (sw_swarms s)(k \<mapsto> i\<lparr>si_peers := insert pid (si_peers i)\<rparr>) else sw_swarms s)"
    "sw_index s1 = (if hit then (sw_index s)(pid \<mapsto> insert k (case sw_index s pid of Some ks \<Rightarrow> ks | None \<Rightarrow> {})) else sw_index s)"
    using Cons.prems by (auto simp: s1_def scan_one_def hit_def add_member_def split: option.splits)
  define i1 where "i1 = (if hit then i\<lparr>si_peers := insert pid (si_peers i)\<rparr> else i)"
  have k1: "sw_swarms s1 k = Some i1" using Cons.prems by (simp add: s1 i1_def)
  note ih = Cons.IH [OF k1]
  have fold: "fold (scan_one k p) (pid # pids) s = fold (scan_one k p) pids s1" by (simp add: s1_def)
  have "sw_swarms (fold (scan_one k p) (pid # pids) s) = (sw_swarms s)(k \<mapsto> i\<lparr>si_peers := si_peers i \<union> {q \<in> set (pid # pids). \<exists>l. node_view (sw_node s) q = Some l \<and> p \<in> set l}\<rparr>)"
  proof -
    have set_eq: "si_peers i1 \<union> {q \<in> set pids. \<exists>l. node_view (sw_node s) q = Some l \<and> p \<in> set l} =
        si_peers i \<union> {q \<in> set (pid # pids). \<exists>l. node_view (sw_node s) q = Some l \<and> p \<in> set l}"
      by (auto simp: i1_def hit_def)
    have "i1\<lparr>si_peers := X\<rparr> = i\<lparr>si_peers := X\<rparr>" for X by (simp add: i1_def)
    with ih show ?thesis unfolding fold s1(1) set_eq by (auto simp: s1(2))
  qed
  moreover have "(\<forall>ks. sw_index s q = Some ks \<longrightarrow> (\<exists>ks'. sw_index (fold (scan_one k p) (pid # pids) s) q = Some ks' \<and> ks \<subseteq> ks')) \<and>
      (q \<in> set (pid # pids) \<longrightarrow> (\<exists>l. node_view (sw_node s) q = Some l \<and> p \<in> set l) \<longrightarrow> (\<exists>ks. sw_index (fold (scan_one k p) (pid # pids) s) q = Some ks \<and> k \<in> ks))" for q
  proof -
    have grow: "\<exists>ks'. sw_index s1 q = Some ks' \<and> ks \<subseteq> ks'" if "sw_index s q = Some ks" for ks
      using that by (auto simp: s1(3))
    have new: "\<exists>ks. sw_index s1 q = Some ks \<and> k \<in> ks" if "q = pid" hit
      using that by (simp add: s1(3))
    show ?thesis
      unfolding fold
    proof (intro conjI allI impI)
      fix ks assume "sw_index s q = Some ks"
      then obtain ks1 where "sw_index s1 q = Some ks1" "ks \<subseteq> ks1" using grow by blast
      then show "\<exists>ks'. sw_index (fold (scan_one k p) pids s1) q = Some ks' \<and> ks \<subseteq> ks'" using ih by blast
    next
      assume q: "q \<in> set (pid # pids)" "\<exists>l. node_view (sw_node s) q = Some l \<and> p \<in> set l"
      show "\<exists>ks. sw_index (fold (scan_one k p) pids s1) q = Some ks \<and> k \<in> ks"
      proof (cases "q \<in> set pids")
        case True
        then show ?thesis using ih q(2) by (simp add: s1(1))
      next
        case False
        then obtain ks where "sw_index s1 q = Some ks" "k \<in> ks" using new q by (auto simp: hit_def)
        then show ?thesis using ih by blast
      qed
    qed
  qed
  moreover have "sw_node (fold (scan_one k p) (pid # pids) s) = sw_node s"
    unfolding fold using ih s1(1) by simp
  ultimately show ?case by blast
qed

lemma node_view_same: "node_view (node_advertise sip k f n) = node_view n" "snd (node_attach_protocol sip ab p ver flags n) = n' \<Longrightarrow> node_view n' = node_view n"
  by (auto simp: fun_eq_iff node_view_def peer_protocol_set_def get_peer_def node_advertise_def node_attach_protocol_def attach_protocol_def Let_def split: sum.splits option.splits)

lemma scan_covers:
  assumes "node_view n pid \<noteq> None"
  shows "pid \<in> set (map fst (inbound_peers (nd_pool n)) @ map fst (outbound_peers (nd_pool n)))"
proof -
  obtain t p where "map_of (peers (nd_pool n)) pid = Some t" "store (nd_pool n) t = Some p"
    using assms by (auto simp: node_view_def peer_protocol_set_def get_peer_def split: option.splits)
  then have "(pid, t) \<in> set (peers (nd_pool n))" "store (nd_pool n) t = Some p" by (auto dest: map_of_SomeD)
  then show ?thesis
    by (cases "is_inbound p") (force simp: inbound_peers_def outbound_peers_def peers_by_def map_filter_def)+
qed

lemma join_rel:
  assumes "swarm_rel r s" "\<forall>pid. map_option set (node_view (sw_node s) pid) = r pid"
  shows "swarm_rel r (snd (join_inner sip ver flags p k s))"
proof (cases "node_attach_protocol sip as_bytes p ver flags (sw_node s)")
  case (Pair res n)
  have view: "node_view n = node_view (sw_node s)" using node_view_same(2) [of sip as_bytes p ver flags "sw_node s" n] Pair by simp
  show ?thesis
  proof (cases res)
    case (Inl e)
    then show ?thesis using assms(1) Pair by (simp add: join_inner_def swarm_rel_def)
  next
    case (Inr u)
    define s0 where "s0 = s\<lparr>sw_node := node_advertise sip k PREFERRED n, sw_swarms := (sw_swarms s)(k \<mapsto> \<lparr>si_protocol = p, si_peers = {}\<rparr>)\<rparr>"
    define pids where "pids = map fst (inbound_peers (nd_pool (sw_node s0))) @ map fst (outbound_peers (nd_pool (sw_node s0)))"
    define s1 where "s1 = fold (scan_one k p) pids s0"
    have s1: "snd (join_inner sip ver flags p k s) = s1"
      using Pair Inr by (simp add: join_inner_def scan_peers_for_swarm_def s1_def pids_def s0_def Let_def)
    have view0: "map_option set (node_view (sw_node s0) q) = r q" for q
      using assms(2) by (simp add: s0_def node_view_same(1) view)
    have k0: "sw_swarms s0 k = Some \<lparr>si_protocol = p, si_peers = {}\<rparr>" by (simp add: s0_def)
    have covers: "q \<in> set pids" if "r q = Some P" for q P
      using that view0 [of q] scan_covers [of "sw_node s0" q] by (auto simp: pids_def)
    have hit: "(\<exists>l. node_view (sw_node s0) q = Some l \<and> p \<in> set l) \<longleftrightarrow> q \<in> spec_members r p" for q
      unfolding spec_members_def view0 [symmetric] by auto
    have members: "{q \<in> set pids. \<exists>l. node_view (sw_node s0) q = Some l \<and> p \<in> set l} = spec_members r p"
      unfolding hit using covers by (auto simp: spec_members_def)
    note scan = scan_fold [OF k0, of p pids, folded s1_def, unfolded members]
    show ?thesis
      unfolding s1 swarm_rel_def
    proof (intro conjI allI impI)
      fix k' i assume "sw_swarms s1 k' = Some i"
      then show "si_peers i = spec_members r (si_protocol i)"
        using scan swarm_relD(1) [OF assms(1), of k'] by (auto simp: s0_def split: if_splits)
    next
      fix q Q k' i assume q: "r q = Some Q" "sw_swarms s1 k' = Some i" "si_protocol i \<in> Q"
      show "\<exists>ks. sw_index s1 q = Some ks \<and> k' \<in> ks"
      proof (cases "k' = k")
        case True
        then have "q \<in> spec_members r p" using q scan by (auto simp: spec_members_def)
        then show ?thesis using scan hit covers [OF q(1)] True by blast
      next
        case False
        then obtain ks where "sw_index s q = Some ks" "k' \<in> ks"
          using swarm_relD(2) [OF assms(1), of k' i q Q] q scan by (auto simp: s0_def)
        moreover have "sw_index s0 = sw_index s" by (simp add: s0_def)
        ultimately obtain ks' where "sw_index s1 q = Some ks'" "ks \<subseteq> ks'" using scan by metis
        then show ?thesis using \<open>k' \<in> ks\<close> by blast
      qed
    qed
  qed
qed


text \<open>A node with one connected peer that speaks the protocol \<open>chat\<close>.\<close>

definition ex_member :: peer where
  "ex_member = \<lparr>peer_ident = [1], peer_direction = Inbound, peer_endpoint = Tcp (Domain ''h'') 1, peer_wire = WSingle \<lparr>send_queue = [], recv_queues = Map.empty\<rparr>,
     peer_protocols = [''chat''], peer_stop = None, peer_dead_writers = {}\<rparr>"

definition ex_swarm_node :: "node \<Rightarrow> node" where
  "ex_swarm_node n = n\<lparr>nd_pool := (nd_pool n)\<lparr>peers := [([1], 0)], store := [0 \<mapsto> ex_member]\<rparr>\<rparr>"

lemma join_state:
  obtains s0 pids where "snd (join_inner sip (Inr ver) flags p k s) = fold (scan_one k p) pids s0" "sw_swarms s0 k = Some \<lparr>si_protocol = p, si_peers = {}\<rparr>"
    "\<exists>l. kd_bloom (nd_kad (sw_node s0)) = bloom_ref_add sip k PREFERRED l"
proof -
  obtain n where n: "node_attach_protocol sip as_bytes p (Inr ver) flags (sw_node s) = (Inr (), n)"
    by (simp add: node_attach_protocol_def attach_protocol_def Let_def)
  define s0 where "s0 = s\<lparr>sw_node := node_advertise sip k PREFERRED n, sw_swarms := (sw_swarms s)(k \<mapsto> \<lparr>si_protocol = p, si_peers = {}\<rparr>)\<rparr>"
  define pids where "pids = map fst (inbound_peers (nd_pool (sw_node s0))) @ map fst (outbound_peers (nd_pool (sw_node s0)))"
  show ?thesis
  proof (rule that [of pids s0])
    show "snd (join_inner sip (Inr ver) flags p k s) = fold (scan_one k p) pids s0"
      using n by (simp add: join_inner_def scan_peers_for_swarm_def pids_def s0_def Let_def)
    show "\<exists>l. kd_bloom (nd_kad (sw_node s0)) = bloom_ref_add sip k PREFERRED l"
      by (auto simp: s0_def node_advertise_def kad_advertise_def Let_def)
  qed (simp add: s0_def)
qed

lemma join_present: "\<exists>i. sw_swarms (snd (join_inner sip (Inr ver) flags p k s)) k = Some i \<and> si_protocol i = p"
  by (rule join_state [of sip ver flags p k s]) (use scan_fold in auto)

text \<open>A node that has joined a swarm is found by every node whose routing table holds it with the filter it advertises, unless its
  entry is marked unreachable or unstable: the filter has no false negatives.\<close>

lemma swarm_discoverable:
  assumes "a' = snd (join_inner sip (Inr ver) flags p k a)"
    and "be \<in> set (concat (rt_buckets (kd_table (nd_kad (sw_node b)))))" "\<not> is_unreachable be" "\<not> is_unstable be"
    and "e_protocols (be_entry be) = advertised (kd_bloom (nd_kad (sw_node a')))"
  shows "entry_to_discovered (be_entry be) \<in> set (find_peers sip k b)"
proof -
  obtain l where "kd_bloom (nd_kad (sw_node a')) = bloom_ref_add sip k PREFERRED l"
    using assms(1) scan_fold by (metis join_state)
  then have "e_protocols (be_entry be) = bloom_add sip k (advertised l)"
    using assms(5) by (simp add: bloom_ref_add_fields flag_consts)
  moreover have "may_contain sip (bloom_add sip k x) k" for x
    unfolding may_contain_def bloom_add_def Let_def by (rule bit_word_eqI) (auto simp: bit_simps)
  ultimately have "may_contain sip (e_protocols (be_entry be)) k" by simp
  then show ?thesis
    using assms(2-4) by (auto simp: find_peers_def find_peers_with_def entries_with_item_def)
qed


end
