(* ===== verification/Spec2Isabelle.thy ===== *)
theory Spec2Isabelle
  imports Prelude Net_Addr Net_Codec Net_Socks5 Stun_Message Stun_Service P2p_Types Kad_Bloom Kad_Table
    P2p_Handshake Core_Async Core_Queue Core_Tasks P2p_Conn P2p_Ping P2p_Monitor P2p_Pool P2p_Tls P2p_Net Kad_Lookup Kad_Refresh P2p_Node Event_Emitter Jsonrpc_Message Jsonrpc_Server Jsonrpc_Client Swarm
begin

text \<open>
  Verification of \<^emph>\<open>karyon\<close>, a Rust workspace for peer-to-peer networking.  Paths below are relative to \<open>src/\<close>.

  \<^bold>\<open>The program and its models.\<close>

  \<^item> \<open>core\<close>, shared asynchronous code.  \<open>Core_Async\<close>: \<open>select\<close>, \<open>timeout\<close>, backoff and condition variables.  \<open>Core_Queue\<close>: the
    bounded queue as tasks that push, receive, sleep, wake and are cancelled.  \<open>Core_Tasks\<close>: \<open>CondWait\<close> and task groups.
  \<^item> \<open>net\<close>, endpoints and framed connections.  \<open>Net_Addr\<close>: \<open>endpoint.rs\<close> with the textual IP parser of the standard library.
    \<open>Net_Codec\<close>: buffers, the bytes and length codecs, framed reader and writer.  \<open>Net_Socks5\<close>: the SOCKS5 client handshake.
  \<^item> \<open>stun\<close>, discovery of the public address on top of \<open>net\<close>.  \<open>Stun_Message\<close>: the wire format.  \<open>Stun_Service\<close>: client, server and
    the connection slots of the server.
  \<^item> \<open>p2p\<close>, the node.  \<open>P2p_Types\<close> and \<open>P2p_Monitor\<close>: shared data, configuration and monitor events.  \<open>P2p_Tls\<close>: keys, peer ids and
    certificates.  \<open>P2p_Net\<close>: connector and listener, which make connections under a limit of slots.  \<open>P2p_Handshake\<close>: versions,
    envelope and handshake on a new connection.  \<open>P2p_Conn\<close>: protocols multiplexed on it.  \<open>P2p_Pool\<close>: the pool that admits, runs,
    broadcasts to and removes peers.  \<open>P2p_Ping\<close>: the ping protocol.  \<open>P2p_Node\<close>: discovery and pool put together.
  \<^item> \<open>p2p/src/discovery/kademlia\<close>, which finds the peers.  \<open>Kad_Table\<close>: the routing table.  \<open>Kad_Bloom\<close>: filters of protocols.
    \<open>Kad_Lookup\<close>: questions to and answers for other nodes over streams.  \<open>Kad_Refresh\<close>: pings over UDP that keep the table fresh.
  \<^item> \<open>swarm\<close>, groups of peers by protocol on a node: \<open>Swarm\<close>.
  \<^item> \<open>utils/eventemitter\<close>, typed events by topic: \<open>Event_Emitter\<close>.
  \<^item> \<open>jsonrpc\<close>, remote calls over \<open>net\<close>.  \<open>Jsonrpc_Message\<close>: messages and codecs.  \<open>Jsonrpc_Server\<close>: checks, dispatch and the tasks of a
    connection.  \<open>Jsonrpc_Client\<close>: calls and subscriptions on a message connection.

  \<^bold>\<open>How the models correspond to the code.\<close>  A struct is a record, an enum a datatype and a machine integer a word of its width;
  counters and sizes that the code bounds are natural numbers.  A function that can fail returns a sum with the error on the left.
  Each function of the source is one definition named after it, with a prefix where the name is taken; a definition for one
  branch or one loop body of a function says so in the text before it.  Concurrent components are step relations: a step is what a
  task does between two suspension points, and steps of different tasks interleave freely.  Event lists stand for what sockets and
  timers deliver; when a list ends, the code waits.  Code outside \<open>src/\<close> (bincode, serde_json text, semver, url, SipHash, Ed25519, X.509,
  SHA-256, random numbers, clocks, name resolution, iteration orders of hash maps) is an argument, and what a theorem needs of
  it is a premise of that theorem.

  \<^bold>\<open>What is shown.\<close>

  \<^item> Wire formats: STUN messages, length-prefixed frames, endpoints and SOCKS5 requests read back as what was written, however a
    stream splits the bytes; oversized frames are refused.
  \<^item> Identity: a successful handshake has a consistent identity, verified where the transport verifies it, and two honest
    handshakes agree; a TLS session is bound to the expected peer id, given that only the owner of a key makes signatures that verify.
  \<^item> Pool and node: in every interleaving each connection is accounted for once, every pooled peer passed handshake and access
    control, and every dial goes to an allowed endpoint.
  \<^item> Discovery: the table keeps its invariant under all operations; lookups respect their limits whatever remote peers send;
    a refresh round refines a map over the buckets; answers to pings are rate limited.
  \<^item> Synchronisation and events: the queue is first-in first-out and loses no wake-up while woken receivers run on; cancelling a group waits
    for its tasks; an emission reaches each live listener once.
  \<^item> JSON-RPC and swarms: a call returns what the method returned or its error, responses belong to their requests, and swarm
    membership refines a roster of announced peers.

  Some theorems state limits of the code: a broadcast can hold the lock of the pool for ever, \<open>Node::run\<close> does not return with more than
  128 dialable configured peers, \<open>recv\<close> of a listener panics after its emitter is gone, and a null result of a call is an error.

  \<^bold>\<open>Contracts.\<close>  \<open>step_invariant\<close> and \<open>op_invariant\<close> of \<open>Prelude\<close> lift a preserved invariant to all runs; they are interpreted on the step
  relations and operations of the queue, task groups, STUN slots, connector, listener, pool, table, emitter and both JSON-RPC sides.
  \<open>framed_codec\<close> of \<open>Net_Codec\<close> is the contract of the \<open>Codec\<close> trait: \<open>Stun_Message\<close> interprets it, and the length, peer and JSON codecs,
  which depend on arguments with premises, are proved to be instances.  \<open>peer_store\<close> of \<open>Kad_Table\<close> is interpreted on buckets and on the table.

  \<^bold>\<open>Bounds and termination.\<close>  No model uses fuel: loops recurse on the events they consume, on remaining attempts or on the bytes left,
  and the non-structural ones (\<open>decode_attrs\<close>, \<open>stream_conn_loop\<close>, \<open>chunks\<close>, UTF-8) have termination proofs.  Limits such as bucket
  sizes, queue lengths and message sizes are the constants of the source.

  \<^bold>\<open>Not modelled.\<close>

  \<^item> Executors, locks and timers of smol and tokio (\<open>core/src/async_runtime\<close>), sockets and QUIC (\<open>net/src/transports\<close>), and the TLS and WebSocket
    layers (\<open>net/src/layers\<close>), which forward to libraries; the message loop of the WebSocket reader is left out with them.
  \<^item> JSON-RPC over QUIC and HTTP and the acceptors: connections belong to quinn, hyper and h3.  Their subscription loops, body limits and
    status codes are code of the repository that this development does not cover; the dispatch they call is covered.
  \<^item> Builders and their checks that a configuration fits the endpoint, the procedural macros of \<open>jsonrpc\<close>, log output, and
    \<open>Display\<close> texts except where another part reads them.
  \<^item> Rounding of floating-point tokens in the rate limit, memory exhaustion, and weak memory ordering of atomics.
\<close>

end
